(* ===== verification/Go_Prelude.thy ===== *)
theory Go_Prelude
  imports Main "HOL-Library.Word"
begin

text \<open>
  Shared vocabulary of the development: bytes and byte strings, the errors of the program as one
  datatype, the three ways a Go function can finish (a value, an error, a run-time panic), state
  passing procedures, slices and \<open>copy\<close>, fixed width integers on the wire, and readers that deliver
  their data in chunks. Every component imports this theory.
\<close>

named_theorems wire_simps \<open>encoding and decoding of fixed width fields\<close>
named_theorems go_simps \<open>unfolding of the result and procedure combinators\<close>

section \<open>Bytes, errors and results\<close>

type_synonym byte = "8 word"
type_synonym bytes = "byte list"

text \<open>
  The error values the sources create with \<open>errors.New\<close> or receive from the standard library.
  They are compared by identity in Go, so one nullary constructor per variable is enough.
\<close>

datatype (plugins only: size code) error =
    EOF | ErrUnexpectedEOF | ErrShortBuffer | ErrConnClosed | OutOfFuel
  | ErrMissingPort | ErrTooManyColons | ErrMissingBracket | ErrUnexpectedBracket
  | ErrParseAddr | ErrParsePrefix | ErrAtoiSyntax | ErrAtoiRange
  | ErrAddrTypeNotSupported | ErrDomainLengthToLong | ErrInvalidHostOrPort
  | ErrInvalidDomain
  | ErrEmptyGlobalProxyNode | ErrRuleMatchDropped
  | ErrCacheIsNotFound | ErrCacheWasExpired
  | ErrNoAvailableFakeIP | ErrTunIPUnavailable | ErrFakeIPInvalid
  | ErrCannotLookupIPFromHostsFile | ErrCannotLookupIPv4v6 | ErrDnsExchangedFailed
  | ErrInvalidDnsLookupMsg | ErrCannotLookupAddress | ErrContextDone
  | ErrVersion5Invalid | ErrVersion1Invalid | ErrUnsupportedMethod | ErrUnsupportedReqCmd
  | ErrAuthFailure | ErrAuthUserShortLength | ErrAuthPasswordShortLength
  | ErrSocksRequestFailure
  | ErrDecrypt | ErrPayloadOverflow | ErrCipherInit | ErrUnsupportedCipher
  | ErrAuthSHA1V4CRC32 | ErrAuthSHA1V4Length | ErrAuthSHA1V4Adler32
  | ErrAuthAES128MAC | ErrAuthAES128Length | ErrAuthAES128Chksum
  | ErrAuthChainLength | ErrAuthChainChksum
  | ErrTLS12Magic | ErrTLS12TooShort | ErrTLS12HMAC
  | ErrServerClosed | ErrServerStarted | ErrDial | ErrContextReject
  | ErrUnsupportedProtocol | ErrUnsupportedObfs | ErrTunAddrInvalid
  | ErrNoProgress | ErrMalformedRequest | ErrBase64 | ErrHttpAuthFailed | ErrHomeAccessed
  | ErrCACertFileAccessed | ErrOpenFile | ErrBadRequest | ErrMissingHost | ErrTlsConfig

text \<open>A Go call ends with a value, with a non-nil error, or with a run-time panic.\<close>

datatype 'a go = Ret 'a | Err error | Panic

definition bind_go :: "'a go \<Rightarrow> ('a \<Rightarrow> 'b go) \<Rightarrow> 'b go" where
  "bind_go m f = (case m of Ret a \<Rightarrow> f a | Err e \<Rightarrow> Err e | Panic \<Rightarrow> Panic)"

lemma bind_go_simps [simp, go_simps]:
  "bind_go (Ret a) f = f a"
  "bind_go (Err e) f = Err e"
  "bind_go Panic f = Panic"
  by (simp_all add: bind_go_def)

lemma bind_go_eq_Ret:
  "bind_go m f = Ret b \<longleftrightarrow> (\<exists>a. m = Ret a \<and> f a = Ret b)"
  by (cases m) auto

lemma bind_go_assoc: "bind_go (bind_go m f) g = bind_go m (\<lambda>a. bind_go (f a) g)"
  by (cases m) auto

fun of_option :: "error \<Rightarrow> 'a option \<Rightarrow> 'a go" where
  "of_option e None = Err e"
| "of_option e (Some a) = Ret a"

lemma of_option_Ret [simp]: "of_option e x = Ret a \<longleftrightarrow> x = Some a"
  by (cases x) auto

section \<open>Procedures with state\<close>

text \<open>
  A method of an object, or code that owns a connection: it takes the state and returns how it
  ended together with the new state. An error or a panic keeps the state reached so far, as in Go.
\<close>

type_synonym ('s, 'a) proc = "'s \<Rightarrow> 'a go \<times> 's"

definition retP :: "'a \<Rightarrow> ('s, 'a) proc" where
  "retP a = (\<lambda>s. (Ret a, s))"

definition errP :: "error \<Rightarrow> ('s, 'a) proc" where
  "errP e = (\<lambda>s. (Err e, s))"

definition liftP :: "'a go \<Rightarrow> ('s, 'a) proc" where
  "liftP r = (\<lambda>s. (r, s))"

definition bindP :: "('s, 'a) proc \<Rightarrow> ('a \<Rightarrow> ('s, 'b) proc) \<Rightarrow> ('s, 'b) proc" where
  "bindP m f = (\<lambda>s. case m s of
       (Ret a, s') \<Rightarrow> f a s'
     | (Err e, s') \<Rightarrow> (Err e, s')
     | (Panic, s') \<Rightarrow> (Panic, s'))"

text \<open>\<open>if err != nil { return e }\<close>: the error of a call is replaced by another one.\<close>

definition replaceErrP :: "error \<Rightarrow> ('s, 'a) proc \<Rightarrow> ('s, 'a) proc" where
  "replaceErrP e m = (\<lambda>s. case m s of (Err _, s') \<Rightarrow> (Err e, s') | r \<Rightarrow> r)"

definition guardP :: "bool \<Rightarrow> error \<Rightarrow> ('s, unit) proc" where
  "guardP b e = (if b then retP () else errP e)"

lemma bindP_apply [go_simps]:
  "m s = (Ret a, s') \<Longrightarrow> bindP m f s = f a s'"
  "m s = (Err e, s') \<Longrightarrow> bindP m f s = (Err e, s')"
  "m s = (Panic, s') \<Longrightarrow> bindP m f s = (Panic, s')"
  by (simp_all add: bindP_def)

lemma proc_simps [simp, go_simps]:
  "retP a s = (Ret a, s)"
  "errP e s = (Err e, s)"
  "liftP r s = (r, s)"
  "guardP True e = retP ()"
  "guardP False e = errP e"
  by (simp_all add: retP_def errP_def liftP_def guardP_def)

lemma bindP_retP [simp, go_simps]: "bindP (retP a) f = f a"
  by (simp add: bindP_def fun_eq_iff)

lemma bindP_errP [simp, go_simps]: "bindP (errP e) f = errP e"
  by (simp add: bindP_def fun_eq_iff)

lemma bindP_assoc: "bindP (bindP m f) g = bindP m (\<lambda>a. bindP (f a) g)"
  by (auto simp: bindP_def fun_eq_iff split: prod.splits go.splits)

lemma bindP_eq_Ret:
  "bindP m f s = (Ret b, s') \<longleftrightarrow> (\<exists>a s1. m s = (Ret a, s1) \<and> f a s1 = (Ret b, s'))"
  by (auto simp: bindP_def split: prod.splits go.splits)

section \<open>Slices and copy\<close>

text \<open>
  \<open>b[i:j]\<close> panics when the bounds are out of range. Bounds are integers: a computed bound can be
  negative. The buffers of the program are whole arrays, so their length is their capacity.
\<close>

definition slice :: "'a list \<Rightarrow> int \<Rightarrow> int \<Rightarrow> 'a list go" where
  "slice b i j = (if 0 \<le> i \<and> i \<le> j \<and> j \<le> int (length b)
     then Ret (take (nat j - nat i) (drop (nat i) b)) else Panic)"

definition index_go :: "'a list \<Rightarrow> int \<Rightarrow> 'a go" where
  "index_go b i = (if 0 \<le> i \<and> i < int (length b) then Ret (b ! nat i) else Panic)"

text \<open>\<open>copy(dst[off:], src)\<close>: the destination keeps its length.\<close>

definition copy_into :: "'a list \<Rightarrow> nat \<Rightarrow> 'a list \<Rightarrow> 'a list" where
  "copy_into dst off src =
     take off dst @ take (length dst - off) src @ drop (off + length src) dst"

lemma length_copy_into [simp]: "off \<le> length dst \<Longrightarrow> length (copy_into dst off src) = length dst"
  by (simp add: copy_into_def)

lemma take_copy_into [simp]:
  "off + length src \<le> length dst \<Longrightarrow>
   take (off + length src) (copy_into dst off src) = take off dst @ src"
  by (simp add: copy_into_def)

lemma take_copy_into_le [simp]:
  "n \<le> off \<Longrightarrow> off \<le> length dst \<Longrightarrow> take n (copy_into dst off src) = take n dst"
  by (simp add: copy_into_def min_def)

lemma slice_prefix [simp]: "slice b 0 (int n) = (if n \<le> length b then Ret (take n b) else Panic)"
  by (simp add: slice_def)

lemma slice_nat [simp]:
  "slice b (int i) (int j) =
     (if i \<le> j \<and> j \<le> length b then Ret (take (j - i) (drop i b)) else Panic)"
  by (simp add: slice_def)

lemma take_append_exact [simp]: "n = length xs \<Longrightarrow> take n (xs @ ys) = xs"
  by simp

lemma drop_append_exact [simp]: "n = length xs \<Longrightarrow> drop n (xs @ ys) = ys"
  by simp

end
