(* ===== verification/Go_Wire.thy ===== *)
theory Go_Wire
  imports Go_Prelude
begin

text \<open>
  What the program puts on and reads from the wire: fixed width integers in both byte orders,
  readers that deliver data in chunks with \<open>io.ReadFull\<close> over them, connections, and \<open>hash/adler32\<close>.
\<close>

section \<open>Fixed width integers\<close>

text \<open>The conversions \<open>byte(n)\<close>, \<open>uint16(n)\<close> and \<open>uint32(n)\<close> of the sources truncate.\<close>

definition byte_of :: "nat \<Rightarrow> byte" where
  "byte_of n = word_of_nat n"

definition be16 :: "nat \<Rightarrow> bytes" where
  "be16 n = [byte_of (n div 256), byte_of n]"

definition le16 :: "nat \<Rightarrow> bytes" where
  "le16 n = [byte_of n, byte_of (n div 256)]"

definition le32 :: "nat \<Rightarrow> bytes" where
  "le32 n = [byte_of n, byte_of (n div 256), byte_of (n div 65536), byte_of (n div 16777216)]"

definition be32 :: "nat \<Rightarrow> bytes" where
  "be32 n = [byte_of (n div 16777216), byte_of (n div 65536), byte_of (n div 256), byte_of n]"

text \<open>Little and big endian value of a byte string; \<open>Uint16\<close> and \<open>Uint32\<close> read two or four bytes.\<close>

fun le_val :: "bytes \<Rightarrow> nat" where
  "le_val [] = 0"
| "le_val (b # bs) = unat b + 256 * le_val bs"

definition be_val :: "bytes \<Rightarrow> nat" where
  "be_val bs = le_val (rev bs)"

lemma unat_byte_of [simp]: "unat (byte_of n) = n mod 256"
  by (simp add: byte_of_def unat_of_nat)

lemma unat_byte_less [simp]: "unat (b :: byte) < 256"
  using unsigned_less [of b] by simp

lemma byte_of_unat [simp]: "byte_of (unat b) = b"
  by (simp add: byte_of_def)

lemma length_wire [simp, wire_simps]:
  "length (be16 n) = 2" "length (le16 n) = 2" "length (le32 n) = 4" "length (be32 n) = 4"
  by (simp_all add: be16_def le16_def le32_def be32_def)

lemma le_val_append: "le_val (xs @ ys) = le_val xs + 256 ^ length xs * le_val ys"
  by (induction xs) (auto simp: algebra_simps)

lemma le_val_bound: "le_val bs < 256 ^ length bs"
proof (induction bs)
  case (Cons b bs)
  have "unat b + 256 * le_val bs < 256 * (1 + le_val bs)"
    using unat_byte_less [of b] by simp
  also have "\<dots> \<le> 256 * 256 ^ length bs"
    using Cons by simp
  finally show ?case by simp
qed simp

lemma le_val_le16 [simp, wire_simps]: "le_val (le16 n) = n mod 65536"
  by (simp add: le16_def mod_mult2_eq [of n 256 256, simplified])

lemma be_val_be16 [simp, wire_simps]: "be_val (be16 n) = n mod 65536"
  by (simp add: be_val_def be16_def mod_mult2_eq [of n 256 256, simplified])

lemma le_val_le32 [simp, wire_simps]: "le_val (le32 n) = n mod 4294967296"
proof -
  have "n mod 4294967296 = n mod 256 + 256 * (n div 256 mod 16777216)"
    using mod_mult2_eq [of n 256 16777216] by simp
  moreover have "n div 256 mod 16777216 = n div 256 mod 256 + 256 * (n div 65536 mod 65536)"
    using mod_mult2_eq [of "n div 256" 256 65536] by (simp add: div_mult2_eq [symmetric])
  moreover have "n div 65536 mod 65536 = n div 65536 mod 256 + 256 * (n div 16777216 mod 256)"
    using mod_mult2_eq [of "n div 65536" 256 256] by (simp add: div_mult2_eq [symmetric])
  ultimately show ?thesis by (simp add: le32_def)
qed

lemma le_val_inj: "length xs = length ys \<Longrightarrow> le_val xs = le_val ys \<Longrightarrow> xs = ys"
proof (induction xs ys rule: list_induct2)
  case (Cons x xs y ys)
  have "unat x = unat y"
    using arg_cong [OF Cons.prems, of "\<lambda>n. n mod 256"] by simp
  moreover from this Cons.prems have "le_val xs = le_val ys" by simp
  ultimately show ?case using Cons.IH by (simp add: unsigned_word_eqI)
qed simp

section \<open>Readers\<close>

text \<open>
  An \<open>io.Reader\<close> over a network connection hands out its data in chunks whose boundaries the peer
  and the network choose; after the last chunk it returns \<open>io.EOF\<close>. A reader is the list of the
  chunks still to come. \<open>Read\<close> into a buffer of \<open>n\<close> bytes delivers at most the first chunk.
\<close>

type_synonym reader = "bytes list"

fun rd_read :: "nat \<Rightarrow> reader \<Rightarrow> bytes go \<times> reader" where
  "rd_read n [] = (Err EOF, [])"
| "rd_read n (c # cs) =
     (if length c \<le> n then (Ret c, cs) else (Ret (take n c), drop n c # cs))"

text \<open>The loop of \<open>io.ReadFull\<close>: read until \<open>n\<close> bytes are there or the reader ends.\<close>

fun rd_loop :: "nat \<Rightarrow> reader \<Rightarrow> bytes \<times> reader" where
  "rd_loop 0 r = ([], r)"
| "rd_loop (Suc n) [] = ([], [])"
| "rd_loop (Suc n) (c # cs) =
     (if length c \<le> Suc n
      then (let (bs, r) = rd_loop (Suc n - length c) cs in (c @ bs, r))
      else (take (Suc n) c, drop (Suc n) c # cs))"

definition readFull :: "nat \<Rightarrow> (reader, bytes) proc" where
  "readFull n r = (let (bs, r') = rd_loop n r in
     if length bs = n then (Ret bs, r')
     else (Err (if bs = [] then EOF else ErrUnexpectedEOF), r'))"

text \<open>
  \<open>io.ReadFull\<close> on any reader, given by its \<open>Read\<close>: the bytes it got and how it ended. The first argument
  bounds the number of calls; a reader that keeps returning no bytes is never left.
\<close>

fun full_loop :: "nat \<Rightarrow> (nat \<Rightarrow> ('s, bytes) proc) \<Rightarrow> nat \<Rightarrow> 's \<Rightarrow> (bytes \<times> unit go) \<times> 's" where
  "full_loop fuel read 0 s = (([], Ret ()), s)"
| "full_loop 0 read (Suc n) s = (([], Err OutOfFuel), s)"
| "full_loop (Suc fuel) read (Suc n) s = (case read (Suc n) s of
     (Ret x, s') \<Rightarrow> (case full_loop fuel read (Suc n - length x) s' of ((y, e), s'') \<Rightarrow> ((x @ y, e), s''))
   | (Err e, s') \<Rightarrow> (([], Err e), s')
   | (Panic, s') \<Rightarrow> (([], Panic), s'))"

definition io_ReadFull :: "nat \<Rightarrow> (nat \<Rightarrow> ('s, bytes) proc) \<Rightarrow> nat \<Rightarrow> 's \<Rightarrow> (bytes \<times> unit go) \<times> 's" where
  "io_ReadFull fuel read n s = (case full_loop fuel read n s of
     ((bs, e), s') \<Rightarrow> ((bs, if e = Err EOF \<and> bs \<noteq> [] then Err ErrUnexpectedEOF else e), s'))"

text \<open>On a list of chunks.\<close>

definition rd_full :: "nat \<Rightarrow> reader \<Rightarrow> (bytes \<times> unit go) \<times> reader" where
  "rd_full n r = (let (bs, r') = rd_loop n r in
     ((bs, if length bs = n then Ret () else Err (if bs = [] then EOF else ErrUnexpectedEOF)), r'))"

lemma rd_loop_spec:
  "fst (rd_loop n r) = take n (concat r) \<and> concat (snd (rd_loop n r)) = drop n (concat r)"
  by (induction n r rule: rd_loop.induct) (auto split: prod.splits)

lemma readFull_alt:
  "readFull n r =
     (if n \<le> length (concat r) then (Ret (take n (concat r)), snd (rd_loop n r))
      else (Err (if concat r = [] then EOF else ErrUnexpectedEOF), snd (rd_loop n r)))"
proof -
  obtain bs r' where l: "rd_loop n r = (bs, r')" by fastforce
  then have bs: "bs = take n (concat r)" using rd_loop_spec [of n r] by simp
  have "length bs = n \<longleftrightarrow> n \<le> length (concat r)" by (auto simp only: bs length_take min_def split: if_splits)
  moreover have "\<not> n \<le> length (concat r) \<Longrightarrow> bs = concat r" by (simp only: bs take_all)
  ultimately show ?thesis by (simp only: readFull_def l Let_def prod.case bs snd_conv if_True if_False
        split: if_split) auto
qed

lemma readFull_Ret_iff:
  "readFull n r = (Ret bs, r') \<longleftrightarrow>
     n \<le> length (concat r) \<and> bs = take n (concat r) \<and> r' = snd (rd_loop n r)"
  unfolding readFull_alt by auto

lemma readFull_enough:
  assumes "n \<le> length (concat r)"
  shows "\<exists>r'. readFull n r = (Ret (take n (concat r)), r') \<and> concat r' = drop n (concat r)"
  using assms rd_loop_spec [of n r] unfolding readFull_alt by (simp only: if_True) blast

lemma readFull_short:
  assumes "length (concat r) < n"
  shows "\<exists>r'. readFull n r = (Err (if concat r = [] then EOF else ErrUnexpectedEOF), r')"
  using assms unfolding readFull_alt by simp

lemma rd_full_enough:
  assumes "n \<le> length (concat r)"
  shows "\<exists>r'. rd_full n r = ((take n (concat r), Ret ()), r') \<and> concat r' = drop n (concat r)"
proof -
  obtain bs r' where l: "rd_loop n r = (bs, r')" by fastforce
  have "bs = take n (concat r)" "concat r' = drop n (concat r)" using rd_loop_spec [of n r] l by simp_all
  then show ?thesis using assms l by (simp only: rd_full_def Let_def prod.case length_take min_absorb2 simp_thms if_True) blast
qed

text \<open>The general loop on the chunks of a list is the loop above.\<close>

lemma full_loop_rd:
  assumes "n + length r \<le> fuel"
  shows "io_ReadFull fuel rd_read n r = rd_full n r"
proof -
  have "full_loop fuel rd_read n r = (case rd_loop n r of (bs, r') \<Rightarrow> ((bs, if length bs = n then Ret () else Err EOF), r'))"
    using assms
  proof (induction n r arbitrary: fuel rule: rd_loop.induct)
    case (2 n)
    then show ?case by (cases fuel) auto
  next
    case (3 n c cs)
    then show ?case by (cases fuel) (auto split: prod.splits)
  qed auto
  then show ?thesis by (auto simp: io_ReadFull_def rd_full_def split: prod.splits)
qed

lemma readFull_0 [simp]: "readFull 0 r = (Ret [], r)"
  by (simp add: readFull_def)

section \<open>Connections\<close>

text \<open>
  A \<open>net.Conn\<close>: the chunks still to be read, the bytes written so far, and whether the write side
  has failed (every later \<open>Write\<close> then returns an error).
\<close>

record conn =
  inp :: reader
  out :: bytes
  wfail :: bool

definition read_conn :: "nat \<Rightarrow> (conn, bytes) proc" where
  "read_conn n c = (let (x, r) = rd_read n (inp c) in (x, c\<lparr>inp := r\<rparr>))"

definition readFull_conn :: "nat \<Rightarrow> (conn, bytes) proc" where
  "readFull_conn n c = (let (x, r) = readFull n (inp c) in (x, c\<lparr>inp := r\<rparr>))"

definition write_conn :: "bytes \<Rightarrow> (conn, unit) proc" where
  "write_conn bs c = (if wfail c then (Err ErrConnClosed, c) else (Ret (), c\<lparr>out := out c @ bs\<rparr>))"

text \<open>\<open>conn.Write(b)\<close> as a statement: the error is dropped.\<close>

definition write_conn_ign :: "bytes \<Rightarrow> (conn, unit) proc" where
  "write_conn_ign bs c = (Ret (), snd (write_conn bs c))"

lemma readFull_conn_enough:
  assumes "n \<le> length (concat (inp c))"
  shows "\<exists>r'. readFull_conn n c = (Ret (take n (concat (inp c))), c\<lparr>inp := r'\<rparr>)
     \<and> concat r' = drop n (concat (inp c))"
  using readFull_enough [OF assms] by (auto simp: readFull_conn_def)

lemma readFull_conn_EOF:
  assumes "concat (inp c) = []" "0 < n"
  shows "readFull_conn n c = (Err EOF, c\<lparr>inp := snd (rd_loop n (inp c))\<rparr>)"
proof -
  have "\<not> n \<le> length (concat (inp c))" unfolding assms(1) using assms(2) by simp
  then show ?thesis unfolding readFull_conn_def readFull_alt using assms(1) by (simp only: if_False if_True Let_def prod.case refl)
qed

lemma write_conn_ok [simp]:
  "\<not> wfail c \<Longrightarrow> write_conn bs c = (Ret (), c\<lparr>out := out c @ bs\<rparr>)"
  "\<not> wfail c \<Longrightarrow> write_conn_ign bs c = (Ret (), c\<lparr>out := out c @ bs\<rparr>)"
  by (simp_all add: write_conn_def write_conn_ign_def)

text \<open>All the results of reading with a buffer of \<open>n\<close> bytes until the end of the reader.\<close>

function rd_reads :: "nat \<Rightarrow> reader \<Rightarrow> bytes list" where
  "rd_reads n [] = []"
| "rd_reads n (c # cs) =
     (if n = 0 then [] else if length c \<le> n then c # rd_reads n cs
      else take n c # rd_reads n (drop n c # cs))"
  by pat_completeness auto
termination
  by (relation "measure (\<lambda>(n, r). length r + length (concat r))") simp_all

declare rd_reads.simps(2) [simp del]

lemma rd_reads_Cons:
  "0 < n \<Longrightarrow> length c \<le> n \<Longrightarrow> rd_reads n (c # cs) = c # rd_reads n cs"
  "0 < n \<Longrightarrow> \<not> length c \<le> n \<Longrightarrow> rd_reads n (c # cs) = take n c # rd_reads n (drop n c # cs)"
  by (simp_all add: rd_reads.simps(2) [of n c cs])
lemma rd_reads_props:
  "0 < n \<Longrightarrow> concat (rd_reads n r) = concat r \<and> (\<forall>d \<in> set (rd_reads n r). length d \<le> n)"
proof (induction n r rule: rd_reads.induct)
  case (2 n c cs)
  show ?case
  proof (cases "length c \<le> n")
    case True
    show ?thesis unfolding rd_reads_Cons(1) [OF 2(3) True] using 2(1) [OF _ True 2(3)] 2(3) True by simp
  next
    case False
    have "concat (rd_reads n (drop n c # cs)) = drop n c @ concat cs
      \<and> (\<forall>d \<in> set (rd_reads n (drop n c # cs)). length d \<le> n)"
      using 2(2) [OF _ False 2(3)] 2(3) by simp
    then show ?thesis unfolding rd_reads_Cons(2) [OF 2(3) False] by simp
  qed
qed simp

section \<open>Packet connections\<close>

text \<open>
  A \<open>net.PacketConn\<close>: the datagrams still to arrive and those sent, each with the peer's address in
  text form. \<open>ReadFrom\<close> into a buffer of \<open>n\<close> bytes cuts a longer datagram off.
\<close>

record pconn =
  pin :: "(bytes \<times> string) list"
  pout :: "(bytes \<times> string) list"
  pfail :: bool

definition read_pconn :: "nat \<Rightarrow> (pconn, bytes \<times> string) proc" where
  "read_pconn n c = (case pin c of
     [] \<Rightarrow> (Err ErrConnClosed, c)
   | (d, a) # ds \<Rightarrow> (Ret (take n d, a), c\<lparr>pin := ds\<rparr>))"

definition write_pconn :: "bytes \<Rightarrow> string \<Rightarrow> (pconn, unit) proc" where
  "write_pconn b a c = (if pfail c then (Err ErrConnClosed, c) else (Ret (), c\<lparr>pout := pout c @ [(b, a)]\<rparr>))"

section \<open>hash/adler32\<close>

fun adler_loop :: "bytes \<Rightarrow> nat \<Rightarrow> nat \<Rightarrow> nat \<times> nat" where
  "adler_loop [] s1 s2 = (s1, s2)"
| "adler_loop (b # bs) s1 s2 =
     (let s1' = (s1 + unat b) mod 65521 in adler_loop bs s1' ((s2 + s1') mod 65521))"

definition adler32 :: "bytes \<Rightarrow> 32 word" where
  "adler32 bs = (let (s1, s2) = adler_loop bs 1 0 in word_of_nat (s2 * 65536 + s1))"

lemma adler32_example: "adler32 [97, 98, 99] = 0x024D0127"
  by (simp add: adler32_def Let_def)

end
