(* ===== verification/Go_Strings.thy ===== *)
theory Go_Strings
  imports Go_Wire
begin

text \<open>
  The parts of the packages \<open>strings\<close> and \<open>strconv\<close> the program uses. A Go string is a sequence of
  bytes; here it is a list of (8 bit) characters, and \<open>bytes_of\<close>, \<open>string_of\<close> are the conversions
  \<open>[]byte(s)\<close> and \<open>string(b)\<close>.
\<close>

section \<open>Bytes and strings\<close>

definition ord :: "char \<Rightarrow> nat" where
  "ord c = of_char c"

definition bytes_of :: "string \<Rightarrow> bytes" where
  "bytes_of s = map (\<lambda>c. byte_of (ord c)) s"

definition string_of :: "bytes \<Rightarrow> string" where
  "string_of bs = map (\<lambda>b. char_of (unat b)) bs"

lemma ord_less [simp]: "ord c < 256"
  by (simp add: ord_def)

lemma ord_char_of [simp]: "n < 256 \<Longrightarrow> ord (char_of n) = n"
  by (simp add: ord_def)

lemma char_of_ord [simp]: "char_of (ord c) = c"
  by (simp add: ord_def)

lemma ord_inject: "ord c = ord d \<longleftrightarrow> c = d"
  by (simp add: ord_def)

lemma string_bytes_inverse [simp]:
  "string_of (bytes_of s) = s" "bytes_of (string_of bs) = bs"
  by (simp_all add: string_of_def bytes_of_def o_def list.map_ident_strong)

lemma length_bytes_of [simp]:
  "length (bytes_of s) = length s" "length (string_of bs) = length bs"
  by (simp_all add: string_of_def bytes_of_def)

lemma bytes_of_simps [simp]:
  "bytes_of [] = []" "bytes_of (s @ t) = bytes_of s @ bytes_of t"
  "string_of [] = []" "string_of (bs @ cs) = string_of bs @ string_of cs"
  by (simp_all add: string_of_def bytes_of_def)

lemma bytes_of_inject [simp]: "bytes_of s = bytes_of t \<longleftrightarrow> s = t"
  by (metis string_bytes_inverse(1))

section \<open>Searching and splitting\<close>

text \<open>\<open>strings.HasPrefix\<close>, \<open>strings.HasSuffix\<close>, \<open>strings.Contains\<close>.\<close>

fun hasPrefix :: "'a list \<Rightarrow> 'a list \<Rightarrow> bool" where
  "hasPrefix s [] = True"
| "hasPrefix [] (p # ps) = False"
| "hasPrefix (c # s) (p # ps) = (c = p \<and> hasPrefix s ps)"

definition hasSuffix :: "'a list \<Rightarrow> 'a list \<Rightarrow> bool" where
  "hasSuffix s t = hasPrefix (rev s) (rev t)"

fun contains_sub :: "'a list \<Rightarrow> 'a list \<Rightarrow> bool" where
  "contains_sub [] t = (t = [])"
| "contains_sub (c # s) t = (hasPrefix (c # s) t \<or> contains_sub s t)"

lemma hasPrefix_iff: "hasPrefix s t \<longleftrightarrow> (\<exists>u. s = t @ u)"
  by (induction s t rule: hasPrefix.induct) auto

lemma hasSuffix_iff: "hasSuffix s t \<longleftrightarrow> (\<exists>u. s = u @ t)"
  unfolding hasSuffix_def hasPrefix_iff by (metis rev_append rev_rev_ident)

lemma contains_sub_iff: "contains_sub s t \<longleftrightarrow> (\<exists>u v. s = u @ t @ v)"
proof (induction s)
  case (Cons c s)
  have "contains_sub (c # s) t \<longleftrightarrow> (\<exists>v. c # s = t @ v) \<or> (\<exists>u v. s = u @ t @ v)"
    by (simp add: hasPrefix_iff Cons.IH)
  also have "\<dots> \<longleftrightarrow> (\<exists>u v. c # s = u @ t @ v)" (is "?l \<longleftrightarrow> ?r")
  proof
    assume ?l then show ?r by (metis append_Cons append_Nil)
  next
    assume ?r
    then obtain u v where "c # s = u @ t @ v" by blast
    then show ?l by (cases u) auto
  qed
  finally show ?case .
qed auto

text \<open>\<open>strings.Split\<close> with a one character separator, and \<open>strings.Join\<close>.\<close>

fun split_chr :: "'a \<Rightarrow> 'a list \<Rightarrow> 'a list list" where
  "split_chr c [] = [[]]"
| "split_chr c (x # xs) =
     (if x = c then [] # split_chr c xs
      else (x # hd (split_chr c xs)) # tl (split_chr c xs))"

fun join_chr :: "'a \<Rightarrow> 'a list list \<Rightarrow> 'a list" where
  "join_chr c [] = []"
| "join_chr c [p] = p"
| "join_chr c (p # q # ps) = p @ c # join_chr c (q # ps)"

lemma split_chr_neq_Nil [simp]: "split_chr c s \<noteq> []"
  by (cases s) auto

lemma split_chr_parts: "p \<in> set (split_chr c s) \<Longrightarrow> c \<notin> set p"
proof (induction s arbitrary: p)
  case (Cons x xs)
  have "hd (split_chr c xs) \<in> set (split_chr c xs)" "set (tl (split_chr c xs)) \<subseteq> set (split_chr c xs)"
    by (simp_all add: list.set_sel(2) subsetI)
  then show ?case using Cons by (auto split: if_splits)
qed simp

lemma join_chr_Cons: "ps \<noteq> [] \<Longrightarrow> join_chr c (p # ps) = p @ c # join_chr c ps"
  by (cases ps) auto

lemma join_chr_hd: "ps \<noteq> [] \<Longrightarrow> join_chr c ((x # hd ps) # tl ps) = x # join_chr c ps"
  by (cases ps; cases "tl ps") auto

lemma join_split [simp]: "join_chr c (split_chr c s) = s"
  by (induction s) (auto simp: join_chr_Cons join_chr_hd)

lemma split_chr_no_sep: "c \<notin> set p \<Longrightarrow> split_chr c p = [p]"
  by (induction p) auto

lemma split_chr_append: "c \<notin> set p \<Longrightarrow> split_chr c (p @ c # s) = p # split_chr c s"
  by (induction p) auto

lemma split_join: "ps \<noteq> [] \<Longrightarrow> \<forall>p \<in> set ps. c \<notin> set p \<Longrightarrow> split_chr c (join_chr c ps) = ps"
  by (induction c ps rule: join_chr.induct) (auto simp: split_chr_append split_chr_no_sep)

text \<open>Index of the first and of the last occurrence of a character (\<open>IndexByte\<close>, \<open>LastIndexByte\<close>).\<close>

fun index_chr :: "'a \<Rightarrow> 'a list \<Rightarrow> nat option" where
  "index_chr c [] = None"
| "index_chr c (x # xs) = (if x = c then Some 0 else map_option Suc (index_chr c xs))"

definition last_index_chr :: "'a \<Rightarrow> 'a list \<Rightarrow> nat option" where
  "last_index_chr c s = map_option (\<lambda>i. length s - 1 - i) (index_chr c (rev s))"

lemma index_chr_None: "index_chr c s = None \<longleftrightarrow> c \<notin> set s"
  by (induction s) auto

lemma index_chr_append:
  "c \<notin> set s \<Longrightarrow> index_chr c (s @ t) = map_option (\<lambda>i. length s + i) (index_chr c t)"
  by (induction s; cases "index_chr c t") auto

lemma last_index_chr_app:
  "c \<notin> set t \<Longrightarrow> last_index_chr c (s @ c # t) = Some (length s)"
  by (simp add: last_index_chr_def index_chr_append)

text \<open>\<open>strings.Cut\<close>: the parts before and after the separator, and whether it was found.\<close>

definition cut_chr :: "'a \<Rightarrow> 'a list \<Rightarrow> 'a list \<times> 'a list \<times> bool" where
  "cut_chr c s = (case index_chr c s of None \<Rightarrow> (s, [], False) | Some i \<Rightarrow> (take i s, drop (i + 1) s, True))"

lemma cut_chr_app [simp]: "c \<notin> set s \<Longrightarrow> cut_chr c (s @ c # t) = (s, t, True)"
  by (simp add: cut_chr_def index_chr_append)

lemma cut_chr_none [simp]: "c \<notin> set s \<Longrightarrow> cut_chr c s = (s, [], False)"
  by (simp add: cut_chr_def index_chr_None [THEN iffD2])

section \<open>Numbers\<close>

definition is_digit :: "char \<Rightarrow> bool" where
  "is_digit c \<longleftrightarrow> 48 \<le> ord c \<and> ord c \<le> 57"

definition digit_val :: "char \<Rightarrow> nat" where
  "digit_val c = ord c - 48"

definition digit_chr :: "nat \<Rightarrow> char" where
  "digit_chr d = char_of (48 + d)"

text \<open>\<open>strconv.Itoa\<close>.\<close>

fun itoa_nat :: "nat \<Rightarrow> string" where
  "itoa_nat n = (if n < 10 then [digit_chr n] else itoa_nat (n div 10) @ [digit_chr (n mod 10)])"

declare itoa_nat.simps [simp del]

definition itoa :: "int \<Rightarrow> string" where
  "itoa i = (if i < 0 then CHR ''-'' # itoa_nat (nat (- i)) else itoa_nat (nat i))"

text \<open>
  The digit loop of \<open>strconv.ParseUint\<close> in base 10: the first character that is no digit is a syntax
  error, the first digit that takes the value above \<open>m\<close> a range error.
\<close>

fun parse_digits :: "nat \<Rightarrow> nat \<Rightarrow> string \<Rightarrow> nat go" where
  "parse_digits m acc [] = Ret acc"
| "parse_digits m acc (c # cs) =
     (if \<not> is_digit c then Err ErrAtoiSyntax
      else let n = acc * 10 + digit_val c in
        if m < n then Err ErrAtoiRange else parse_digits m n cs)"

text \<open>\<open>strconv.ParseUint(s, 10, bits)\<close>: the value and the error; a range error gives the maximum.\<close>

definition parseUint :: "nat \<Rightarrow> string \<Rightarrow> nat \<times> error option" where
  "parseUint m s = (if s = [] then (0, Some ErrAtoiSyntax)
     else case parse_digits m 0 s of
       Ret n \<Rightarrow> (n, None)
     | Err e \<Rightarrow> (if e = ErrAtoiRange then m else 0, Some e)
     | Panic \<Rightarrow> (0, Some ErrAtoiSyntax))"

text \<open>\<open>strconv.Atoi\<close> on a 64 bit platform.\<close>

definition atoi :: "string \<Rightarrow> int \<times> error option" where
  "atoi s =
     (let neg = (s \<noteq> [] \<and> hd s = CHR ''-'');
          ds = (if s \<noteq> [] \<and> (hd s = CHR ''-'' \<or> hd s = CHR ''+'') then tl s else s);
          (un, e) = parseUint (2 ^ 64 - 1) ds
      in if e = Some ErrAtoiSyntax then (0, e)
         else if \<not> neg \<and> 2 ^ 63 \<le> un then (2 ^ 63 - 1, Some ErrAtoiRange)
         else if neg \<and> 2 ^ 63 < un then (- (2 ^ 63), Some ErrAtoiRange)
         else (if neg then - int un else int un, None))"

lemma digit_chr_props [simp]:
  assumes "d < 10"
  shows "is_digit (digit_chr d)" "digit_val (digit_chr d) = d"
  using assms by (simp_all add: is_digit_def digit_chr_def digit_val_def)

lemma itoa_nat_neq_Nil [simp]: "itoa_nat n \<noteq> []"
  by (subst itoa_nat.simps) simp

lemma itoa_nat_digits: "c \<in> set (itoa_nat n) \<Longrightarrow> is_digit c"
proof (induction n rule: itoa_nat.induct)
  case (1 n)
  from 1(2) have "n < 10 \<and> c = digit_chr n
      \<or> \<not> n < 10 \<and> (c \<in> set (itoa_nat (n div 10)) \<or> c = digit_chr (n mod 10))"
    by (subst (asm) itoa_nat.simps) (auto split: if_splits)
  then show ?case using 1(1) by auto
qed

lemma parse_digits_append:
  "parse_digits m acc (xs @ ys) = bind_go (parse_digits m acc xs) (\<lambda>n. parse_digits m n ys)"
  by (induction xs arbitrary: acc) (auto simp: Let_def)

lemma parse_digits_itoa: "n \<le> m \<Longrightarrow> parse_digits m 0 (itoa_nat n) = Ret n"
proof (induction n rule: itoa_nat.induct)
  case (1 n)
  show ?case
  proof (cases "n < 10")
    case False
    then have "parse_digits m 0 (itoa_nat (n div 10)) = Ret (n div 10)" using 1 by simp
    then have "parse_digits m 0 (itoa_nat (n div 10) @ [digit_chr (n mod 10)]) = Ret n"
      using 1(2) by (simp add: parse_digits_append Let_def)
    then show ?thesis using False by (subst itoa_nat.simps) simp
  qed (use 1(2) in \<open>subst itoa_nat.simps, simp\<close>)
qed

lemma parseUint_itoa [simp]: "n \<le> m \<Longrightarrow> parseUint m (itoa_nat n) = (n, None)"
  by (simp add: parseUint_def parse_digits_itoa)

lemma is_digit_sign [simp]: "\<not> is_digit (CHR ''-'')" "\<not> is_digit (CHR ''+'')"
    "\<not> is_digit (CHR '':'')" "\<not> is_digit (CHR ''.'')" "\<not> is_digit (CHR ''['')" "\<not> is_digit (CHR '']'')"
  by (simp_all add: is_digit_def ord_def)

lemma atoi_itoa_nat [simp]:
  assumes "n < 2 ^ 63"
  shows "atoi (itoa_nat n) = (int n, None)"
proof -
  have "is_digit (hd (itoa_nat n))" using itoa_nat_digits [of _ n] by simp
  then have "hd (itoa_nat n) \<noteq> CHR ''-''" "hd (itoa_nat n) \<noteq> CHR ''+''" by auto
  moreover have "parseUint (2 ^ 64 - 1) (itoa_nat n) = (n, None)" using assms by (intro parseUint_itoa) simp
  ultimately show ?thesis using assms by (simp add: atoi_def Let_def)
qed

lemma parse_digits_bound: "acc \<le> m \<Longrightarrow> parse_digits m acc s = Ret n \<Longrightarrow> n \<le> m"
proof (induction s arbitrary: acc)
  case (Cons c s)
  then show ?case by (auto simp: Let_def not_less split: if_splits)
qed simp

end
