(* ===== verification/Go_Net.thy ===== *)
theory Go_Net
  imports Go_Strings
begin

text \<open>
  The parts of the packages \<open>net\<close> and \<open>net/netip\<close> the program uses: reading and printing IP
  addresses, host:port pairs and address prefixes. An IPv4 address is a list of four bytes, an IPv6
  address one of sixteen.
\<close>

section \<open>IPv4\<close>

text \<open>One decimal field: at least one digit, no leading zero, at most 255.\<close>

definition parse_octet :: "string \<Rightarrow> byte option" where
  "parse_octet s =
     (if s = [] \<or> (1 < length s \<and> hd s = CHR ''0'') then None
      else case parse_digits 255 0 s of Ret n \<Rightarrow> Some (byte_of n) | _ \<Rightarrow> None)"

fun parse_octets :: "string list \<Rightarrow> bytes option" where
  "parse_octets [] = Some []"
| "parse_octets (p # ps) = (case parse_octet p of None \<Rightarrow> None
     | Some b \<Rightarrow> (case parse_octets ps of None \<Rightarrow> None | Some bs \<Rightarrow> Some (b # bs)))"

definition parseIPv4 :: "string \<Rightarrow> bytes option" where
  "parseIPv4 s = (let ps = split_chr (CHR ''.'') s in
     if length ps = 4 then parse_octets ps else None)"

definition ipv4_string :: "bytes \<Rightarrow> string" where
  "ipv4_string bs = join_chr (CHR ''.'') (map (\<lambda>b. itoa_nat (unat b)) bs)"

section \<open>IPv6\<close>

definition hex_val :: "char \<Rightarrow> nat option" where
  "hex_val c = (let n = ord c in
     if 48 \<le> n \<and> n \<le> 57 then Some (n - 48)
     else if 97 \<le> n \<and> n \<le> 102 then Some (n - 87)
     else if 65 \<le> n \<and> n \<le> 70 then Some (n - 55) else None)"

text \<open>The hexadecimal digits at the front: their value, their number and the rest of the string.\<close>

fun hex_run :: "nat \<Rightarrow> nat \<Rightarrow> string \<Rightarrow> nat \<times> nat \<times> string" where
  "hex_run acc k [] = (acc, k, [])"
| "hex_run acc k (c # cs) = (case hex_val c of None \<Rightarrow> (acc, k, c # cs)
     | Some d \<Rightarrow> hex_run (acc * 16 + d) (Suc k) cs)"

text \<open>
  The loop of \<open>netip.parseIPv6\<close>. The first argument counts the 16 bit groups there is room for,
  \<open>ip\<close> holds the bytes read so far, \<open>ell\<close> the position of the ellipsis. The result is the bytes,
  the ellipsis and what is left of the string.
\<close>

fun v6_loop :: "nat \<Rightarrow> bytes \<Rightarrow> nat option \<Rightarrow> string \<Rightarrow> (bytes \<times> nat option \<times> string) option" where
  "v6_loop 0 ip ell s = Some (ip, ell, s)"
| "v6_loop (Suc g) ip ell s =
     (let (acc, k, rest) = hex_run 0 0 s in
      if k = 0 \<or> 4 < k then None
      else if rest \<noteq> [] \<and> hd rest = CHR ''.'' then
        (if (ell = None \<and> length ip \<noteq> 12) \<or> 16 < length ip + 4 then None
         else case parseIPv4 s of None \<Rightarrow> None | Some b4 \<Rightarrow> Some (ip @ b4, ell, []))
      else let ip' = ip @ [byte_of (acc div 256), byte_of acc] in
        if rest = [] then Some (ip', ell, [])
        else if hd rest \<noteq> CHR '':'' \<or> length rest = 1 then None
        else let s' = tl rest in
          if hd s' = CHR '':'' then
            (if ell \<noteq> None then None
             else if tl s' = [] then Some (ip', Some (length ip'), [])
             else v6_loop g ip' (Some (length ip')) (tl s'))
          else v6_loop g ip' ell s')"

definition v6_expand :: "(bytes \<times> nat option \<times> string) option \<Rightarrow> bytes option" where
  "v6_expand r = (case r of None \<Rightarrow> None
     | Some (ip, ell, s) \<Rightarrow>
         if s \<noteq> [] then None
         else if length ip < 16 then
           (case ell of None \<Rightarrow> None
            | Some e \<Rightarrow> Some (take e ip @ replicate (16 - length ip) 0 @ drop e ip))
         else if ell \<noteq> None then None else Some ip)"

definition parseIPv6_nozone :: "string \<Rightarrow> bytes option" where
  "parseIPv6_nozone s =
     (if hasPrefix s ''::'' then
        (if drop 2 s = [] then Some (replicate 16 0)
         else v6_expand (v6_loop 8 [] (Some 0) (drop 2 s)))
      else v6_expand (v6_loop 8 [] None s))"

text \<open>\<open>netip.Addr\<close>: the zero value, an IPv4 address, an IPv6 address with its zone.\<close>

datatype netaddr = NoAddr | Addr4 bytes | Addr6 bytes string

definition parseIPv6 :: "string \<Rightarrow> netaddr option" where
  "parseIPv6 s = (case index_chr (CHR ''%'') s of
     None \<Rightarrow> map_option (\<lambda>b. Addr6 b []) (parseIPv6_nozone s)
   | Some i \<Rightarrow> (let zone = drop (Suc i) s in
       if zone = [] then None else map_option (\<lambda>b. Addr6 b zone) (parseIPv6_nozone (take i s))))"

text \<open>\<open>netip.ParseAddr\<close> dispatches on the first of the characters '.', ':' and '%'.\<close>

fun addr_kind :: "string \<Rightarrow> char option" where
  "addr_kind [] = None"
| "addr_kind (c # cs) = (if c = CHR ''.'' \<or> c = CHR '':'' \<or> c = CHR ''%'' then Some c else addr_kind cs)"

definition netip_ParseAddr :: "string \<Rightarrow> netaddr option" where
  "netip_ParseAddr s = (case addr_kind s of
     None \<Rightarrow> None
   | Some c \<Rightarrow> if c = CHR ''.'' then map_option Addr4 (parseIPv4 s)
               else if c = CHR '':'' then parseIPv6 s else None)"

definition v4InV6Prefix :: bytes where
  "v4InV6Prefix = replicate 10 0 @ [255, 255]"

text \<open>\<open>net.ParseIP\<close> gives the sixteen byte form and refuses zones; \<open>To4\<close> undoes the mapped prefix.\<close>

definition parseIP :: "string \<Rightarrow> bytes option" where
  "parseIP s = (case netip_ParseAddr s of
     Some (Addr4 b) \<Rightarrow> Some (v4InV6Prefix @ b)
   | Some (Addr6 b z) \<Rightarrow> if z = [] then Some b else None
   | _ \<Rightarrow> None)"

definition to4 :: "bytes \<Rightarrow> bytes option" where
  "to4 ip = (if length ip = 4 then Some ip
     else if length ip = 16 \<and> take 12 ip = v4InV6Prefix then Some (drop 12 ip) else None)"

text \<open>\<open>netip.Addr.appendTo6\<close>: the longest run of at least two zero groups is written as \<open>::\<close>.\<close>

fun groups16 :: "bytes \<Rightarrow> nat list" where
  "groups16 (a # b # bs) = (unat a * 256 + unat b) # groups16 bs"
| "groups16 _ = []"

fun zero_run :: "nat list \<Rightarrow> nat" where
  "zero_run (g # gs) = (if g = 0 then Suc (zero_run gs) else 0)"
| "zero_run [] = 0"

fun best_run :: "nat \<Rightarrow> nat list \<Rightarrow> (nat \<times> nat) \<Rightarrow> nat \<times> nat" where
  "best_run i [] best = best"
| "best_run i (g # gs) best =
     (let l = zero_run (g # gs) in
      best_run (Suc i) gs (if 2 \<le> l \<and> snd best < l then (i, l) else best))"

definition hex_chr :: "nat \<Rightarrow> char" where
  "hex_chr d = char_of (if d < 10 then 48 + d else 87 + d)"

fun hex_string :: "nat \<Rightarrow> string" where
  "hex_string n = (if n < 16 then [hex_chr n] else hex_string (n div 16) @ [hex_chr (n mod 16)])"

declare hex_string.simps [simp del]

definition ipv6_string :: "bytes \<Rightarrow> string" where
  "ipv6_string ip = (let gs = groups16 ip; (z, l) = best_run 0 gs (0, 0);
     show_gs = (\<lambda>xs. join_chr (CHR '':'') (map hex_string xs)) in
     if l = 0 then show_gs gs
     else show_gs (take z gs) @ ''::'' @ show_gs (drop (z + l) gs))"

definition hexdigits :: "bytes \<Rightarrow> string" where
  "hexdigits bs = concat (map (\<lambda>b. [hex_chr (unat b div 16), hex_chr (unat b mod 16)]) bs)"

text \<open>\<open>net.IP.String\<close>.\<close>

definition ip_string :: "bytes \<Rightarrow> string" where
  "ip_string ip =
     (if ip = [] then ''<nil>''
      else case to4 ip of Some ip4 \<Rightarrow> ipv4_string ip4
      | None \<Rightarrow> if length ip = 16 then ipv6_string ip else CHR ''?'' # hexdigits ip)"

section \<open>Host and port\<close>

definition splitHostPort :: "string \<Rightarrow> (string \<times> string) go" where
  "splitHostPort s = (case last_index_chr (CHR '':'') s of
     None \<Rightarrow> Err ErrMissingPort
   | Some i \<Rightarrow>
       bind_go
        (if hd s = CHR ''['' then
           (case index_chr (CHR '']'') s of
              None \<Rightarrow> Err ErrMissingBracket
            | Some e \<Rightarrow>
                if e + 1 = length s then Err ErrMissingPort
                else if e + 1 = i then Ret (take (e - 1) (drop 1 s), 1, e + 1)
                else if s ! (e + 1) = CHR '':'' then Err ErrTooManyColons
                else Err ErrMissingPort)
         else if CHR '':'' \<in> set (take i s) then Err ErrTooManyColons
         else Ret (take i s, 0, 0))
        (\<lambda>(host, j, k).
           if CHR ''['' \<in> set (drop j s) then Err ErrUnexpectedBracket
           else if CHR '']'' \<in> set (drop k s) then Err ErrUnexpectedBracket
           else Ret (host, drop (i + 1) s)))"

definition joinHostPort :: "string \<Rightarrow> string \<Rightarrow> string" where
  "joinHostPort host port =
     (if CHR '':'' \<in> set host then CHR ''['' # host @ '']:'' @ port else host @ CHR '':'' # port)"

section \<open>Facts\<close>

lemma length_parse_octets: "parse_octets ps = Some bs \<Longrightarrow> length bs = length ps"
  by (induction ps arbitrary: bs) (auto split: option.splits)

lemma length_parseIPv4: "parseIPv4 s = Some b \<Longrightarrow> length b = 4"
  by (auto simp: parseIPv4_def Let_def length_parse_octets split: if_splits)

lemma parse_octet_itoa [simp]: "parse_octet (itoa_nat (unat (b :: byte))) = Some b"
proof -
  have lead: "hd (itoa_nat n) \<noteq> CHR ''0'' \<or> length (itoa_nat n) = 1" for n
  proof (induction n rule: itoa_nat.induct)
    case (1 n)
    show ?case
    proof (cases "n < 10")
      case False
      have "itoa_nat (n div 10) \<noteq> ''0''"
      proof
        assume "itoa_nat (n div 10) = ''0''"
        then have "parse_digits (n div 10) 0 ''0'' = Ret (n div 10)"
          by (metis parse_digits_itoa order_refl)
        then show False using False by (simp add: is_digit_def digit_val_def ord_def)
      qed
      then have "hd (itoa_nat (n div 10)) \<noteq> CHR ''0''"
        using 1 False by (metis length_0_conv length_Suc_conv list.sel(1) One_nat_def)
      then show ?thesis using False by (subst (1) itoa_nat.simps) simp
    qed (subst itoa_nat.simps, simp)
  qed
  have "unat b \<le> 255" using unat_byte_less [of b] by linarith
  then show ?thesis using lead [of "unat b"]
    by (auto simp: parse_octet_def parse_digits_itoa)
qed

lemma itoa_nat_no_dot [simp]: "CHR ''.'' \<notin> set (itoa_nat n)" "CHR '':'' \<notin> set (itoa_nat n)"
  "CHR ''['' \<notin> set (itoa_nat n)" "CHR '']'' \<notin> set (itoa_nat n)"
  using itoa_nat_digits by force+

lemma parse_octets_map [simp]: "parse_octets (map (\<lambda>b. itoa_nat (unat b)) bs) = Some bs"
  by (induction bs) auto

lemma ipv4_string_split:
  "b \<noteq> [] \<Longrightarrow> split_chr (CHR ''.'') (ipv4_string b) = map (\<lambda>b. itoa_nat (unat b)) b"
  unfolding ipv4_string_def by (rule split_join) auto

lemma parseIPv4_string [simp]:
  assumes "length b = 4"
  shows "parseIPv4 (ipv4_string b) = Some b"
proof -
  have "b \<noteq> []" using assms by auto
  then show ?thesis using assms by (simp add: parseIPv4_def Let_def ipv4_string_split)
qed

lemma itoa_nat_snoc:
  "0 < n \<Longrightarrow> d < 10 \<Longrightarrow> itoa_nat (n * 10 + d) = itoa_nat n @ [digit_chr d]"
  by (subst itoa_nat.simps) simp

lemma digit_chr_val [simp]: "is_digit c \<Longrightarrow> digit_chr (digit_val c) = c"
  by (simp add: is_digit_def digit_chr_def digit_val_def)

lemma digit_val_less: "is_digit c \<Longrightarrow> digit_val c < 10"
  unfolding is_digit_def digit_val_def by linarith

lemma itoa_parse_digits:
  assumes "parse_digits m acc s = Ret n" "0 < acc"
  shows "itoa_nat n = itoa_nat acc @ s"
  using assms
proof (induction s arbitrary: acc)
  case (Cons c s)
  then have d: "is_digit c" and r: "parse_digits m (acc * 10 + digit_val c) s = Ret n"
    by (auto simp: Let_def split: if_splits)
  then have "itoa_nat n = itoa_nat (acc * 10 + digit_val c) @ s"
    using Cons.IH Cons.prems(2) by simp
  then show ?case using d Cons.prems(2) digit_val_less by (simp add: itoa_nat_snoc)
qed simp

lemma itoa_nat_less10: "d < 10 \<Longrightarrow> itoa_nat d = [digit_chr d]"
  by (subst itoa_nat.simps) simp

lemma parse_octet_canonical:
  assumes "parse_octet s = Some b"
  shows "s = itoa_nat (unat b)"
proof -
  from assms obtain c cs where s: "s = c # cs" and lead: "cs = [] \<or> c \<noteq> CHR ''0''"
    by (cases s) (auto simp: parse_octet_def split: if_splits)
  from assms obtain n where n: "parse_digits 255 0 s = Ret n" and b: "b = byte_of n"
    by (auto simp: parse_octet_def split: if_splits go.splits)
  have "n \<le> 255" using parse_digits_bound n by blast
  then have un: "unat b = n" by (simp add: b)
  from n s have d: "is_digit c" and r: "parse_digits 255 (digit_val c) cs = Ret n"
    by (auto simp: Let_def split: if_splits)
  show ?thesis
  proof (cases cs)
    case Nil
    then show ?thesis using r d s un digit_val_less [OF d] itoa_nat_less10 [of "digit_val c"] digit_chr_val [OF d]
      by simp
  next
    case (Cons x xs)
    then have "c \<noteq> CHR ''0''" using lead by simp
    moreover have "c = CHR ''0''" if "ord c = 48"
    proof -
      have "ord c = ord (CHR ''0'')" using that by (simp add: ord_def)
      then show ?thesis by (simp add: ord_inject)
    qed
    ultimately have "ord c \<noteq> 48" by blast
    then have "0 < digit_val c" using d by (simp add: is_digit_def digit_val_def)
    from itoa_parse_digits [OF r this] show ?thesis
      using d s un digit_val_less by (simp add: itoa_nat_less10)
  qed
qed

lemma parse_octets_canonical:
  "parse_octets ps = Some bs \<Longrightarrow> map (\<lambda>b. itoa_nat (unat b)) bs = ps"
  by (induction ps arbitrary: bs) (auto split: option.splits dest: parse_octet_canonical)

lemma parseIPv4_canonical: "parseIPv4 s = Some b \<Longrightarrow> ipv4_string b = s"
  by (auto simp: parseIPv4_def Let_def ipv4_string_def parse_octets_canonical split: if_splits)

lemma addr_kind_ipv4: "b \<noteq> [] \<Longrightarrow> tl b \<noteq> [] \<Longrightarrow> addr_kind (ipv4_string b) = Some (CHR ''.'')"
proof -
  assume "b \<noteq> []" "tl b \<noteq> []"
  then obtain x y r where b: "b = x # y # r" by (metis list.collapse)
  have "addr_kind (s @ CHR ''.'' # t) = Some (CHR ''.'')" if "\<forall>c \<in> set s. is_digit c" for s t
    using that by (induction s) (auto simp: is_digit_def ord_def)
  then show ?thesis using itoa_nat_digits [of _ "unat x"] by (simp add: b ipv4_string_def)
qed

lemma netip_ParseAddr_ipv4 [simp]:
  "length b = 4 \<Longrightarrow> netip_ParseAddr (ipv4_string b) = Some (Addr4 b)"
  by (cases b; cases "tl b") (simp_all add: netip_ParseAddr_def addr_kind_ipv4)

lemma parseIP_ipv4 [simp]: "length b = 4 \<Longrightarrow> parseIP (ipv4_string b) = Some (v4InV6Prefix @ b)"
  by (simp add: parseIP_def)

lemma length_v4InV6Prefix [simp]: "length v4InV6Prefix = 12"
  by (simp add: v4InV6Prefix_def)

lemma to4_mapped [simp]: "length b = 4 \<Longrightarrow> to4 (v4InV6Prefix @ b) = Some b"
  by (simp add: to4_def)

lemma ip_string_v4 [simp]: "length b = 4 \<Longrightarrow> ip_string b = ipv4_string b"
  by (auto simp: ip_string_def to4_def)

lemma v4InV6Prefix_neq_Nil [simp]: "v4InV6Prefix \<noteq> []"
  by (simp add: v4InV6Prefix_def)

lemma split_join_host_port:
  assumes "CHR ''['' \<notin> set h" "CHR '']'' \<notin> set h"
    and "CHR '':'' \<notin> set p" "CHR ''['' \<notin> set p" "CHR '']'' \<notin> set p"
  shows "splitHostPort (joinHostPort h p) = Ret (h, p)"
proof (cases "CHR '':'' \<in> set h")
  case True
  let ?s = "CHR ''['' # h @ '']:'' @ p"
  have "last_index_chr (CHR '':'') ((CHR ''['' # h @ [CHR '']'']) @ CHR '':'' # p) = Some (length h + 2)"
    using last_index_chr_app [OF assms(3), of "CHR ''['' # h @ [CHR '']'']"] by simp
  moreover have "index_chr (CHR '']'') ?s = Some (length h + 1)"
    using index_chr_append [of "CHR '']''" "CHR ''['' # h" "'']:'' @ p"] assms by simp
  ultimately show ?thesis using True assms
    by (simp add: splitHostPort_def joinHostPort_def)
next
  case False
  have "last_index_chr (CHR '':'') (h @ CHR '':'' # p) = Some (length h)"
    by (rule last_index_chr_app [OF assms(3)])
  moreover have "hd (h @ CHR '':'' # p) \<noteq> CHR ''[''"
    using assms(1) by (cases h) auto
  ultimately show ?thesis using False assms
    by (simp add: splitHostPort_def joinHostPort_def)
qed

lemma v6_loop_length:
  "v6_loop g ip ell s = Some (ip', ell', s') \<Longrightarrow> length ip + 2 * g = 16 \<Longrightarrow>
     (case ell of None \<Rightarrow> True | Some e \<Rightarrow> e \<le> length ip) \<Longrightarrow>
     length ip' \<le> 16 \<and> (case ell' of None \<Rightarrow> True | Some e \<Rightarrow> e \<le> length ip')"
proof (induction g ip ell s rule: v6_loop.induct)
  case (2 g ip ell s)
  then show ?case
    by (auto simp: Let_def length_parseIPv4 split: prod.splits if_splits option.splits)
qed auto

lemma length_parseIPv6_nozone: "parseIPv6_nozone s = Some b \<Longrightarrow> length b = 16"
  by (auto simp: parseIPv6_nozone_def v6_expand_def split: if_splits option.splits
      dest!: v6_loop_length)

lemma length_parseIP: "parseIP s = Some b \<Longrightarrow> length b = 16"
  by (auto simp: parseIP_def netip_ParseAddr_def parseIPv6_def Let_def length_parseIPv4
      length_parseIPv6_nozone split: option.splits if_splits netaddr.splits)

lemma to4_length: "to4 ip = Some b \<Longrightarrow> length b = 4"
  by (auto simp: to4_def split: if_splits)

end
