(* ===== verification/Interfaces.thy ===== *)
theory Interfaces
  imports Go_Wire Go_Strings
begin

text \<open>
  Contracts between the components. Each locale lists the operations a client calls and the laws
  their provider promises, and holds what clients derive from those laws. The providers interpret
  them on their own definitions.
\<close>

section \<open>Keyed stores\<close>

text \<open>A store with one value per key: a later \<open>put\<close> replaces an earlier one, no other key changes.\<close>

locale keyed_store =
  fixes inv :: "'s \<Rightarrow> bool"
    and empty :: 's
    and put :: "'k \<Rightarrow> 'v \<Rightarrow> 's \<Rightarrow> 's"
    and get :: "'s \<Rightarrow> 'k \<Rightarrow> 'v option"
  assumes inv_empty: "inv empty"
    and inv_put: "inv s \<Longrightarrow> inv (put k v s)"
    and get_empty: "get empty k = None"
    and get_put: "inv s \<Longrightarrow> get (put k v s) k' = (if k' = k then Some v else get s k')"
begin

definition puts :: "('k \<times> 'v) list \<Rightarrow> 's \<Rightarrow> 's" where
  "puts kvs s = fold (\<lambda>(k, v). put k v) kvs s"

lemma inv_puts: "inv s \<Longrightarrow> inv (puts kvs s)"
  unfolding puts_def by (induction kvs arbitrary: s) (auto simp: inv_put)

lemma get_puts: "inv s \<Longrightarrow> get (puts kvs s) k = (case map_of (rev kvs) k of Some v \<Rightarrow> Some v | None \<Rightarrow> get s k)"
proof (induction kvs rule: rev_induct)
  case (snoc kv kvs)
  obtain a b where kv: "kv = (a, b)" by fastforce
  have "inv (puts kvs s)" by (rule inv_puts [OF snoc.prems])
  then show ?case using snoc kv by (simp add: puts_def get_put)
qed (simp add: puts_def)

lemma get_puts_empty: "get (puts kvs empty) k = map_of (rev kvs) k"
  by (simp add: get_puts [OF inv_empty] get_empty split: option.splits)

lemma get_puts_in_dom: "get (puts kvs empty) k \<noteq> None \<longleftrightarrow> k \<in> fst ` set kvs"
  using map_of_eq_None_iff [of "rev kvs" k] unfolding get_puts_empty by simp

lemma get_puts_in: "get (puts kvs empty) k = Some v \<Longrightarrow> (k, v) \<in> set kvs"
  unfolding get_puts_empty using map_of_SomeD by fastforce

end

section \<open>Matchers\<close>

text \<open>
  What the ruler relies on: a match stores its result, and what a matcher finds does not depend on
  the results of earlier matches, which \<open>fresh\<close> forgets.
\<close>

locale matcher =
  fixes match :: "'m \<Rightarrow> 't \<Rightarrow> bool go \<times> 'm \<times> 't"
    and result :: "'m \<Rightarrow> 'i option"
    and fresh :: "'m \<Rightarrow> 'm"
  assumes match_result: "match m t = (Ret True, m', t') \<Longrightarrow> result m' \<noteq> None"
    and match_fresh: "fresh (fst (snd (match m t))) = fresh m"
    and match_history: "fresh m1 = fresh m2 \<Longrightarrow> fst (match m1 t) = fst (match m2 t)
       \<and> snd (snd (match m1 t)) = snd (snd (match m2 t))
       \<and> (fst (match m1 t) = Ret True \<longrightarrow> result (fst (snd (match m1 t))) = result (fst (snd (match m2 t))))"

section \<open>Framed streams\<close>

text \<open>
  A writer that turns messages into frames and a reader that takes one frame at a time from a byte
  stream. \<open>sync s r b\<close>: the reader \<open>r\<close> is where the writer was in state \<open>s\<close>, with the bytes \<open>b\<close> still to
  come. From the law for one frame, clients get the one for any sequence of frames.
\<close>

locale framed_stream =
  fixes wf :: "bytes \<Rightarrow> bool"
    and frame :: "'s \<Rightarrow> bytes \<Rightarrow> bytes \<times> 's"
    and unframe :: "'r \<Rightarrow> bytes go \<times> 'r"
    and sync :: "'s \<Rightarrow> 'r \<Rightarrow> bytes \<Rightarrow> bool"
  assumes unframe_frame: "wf m \<Longrightarrow> frame s m = (f, s') \<Longrightarrow> sync s r (f @ rest) \<Longrightarrow>
     \<exists>r'. unframe r = (Ret m, r') \<and> sync s' r' rest"
begin

fun frames :: "'s \<Rightarrow> bytes list \<Rightarrow> bytes \<times> 's" where
  "frames s [] = ([], s)"
| "frames s (m # ms) = (case frame s m of (f, s1) \<Rightarrow> (case frames s1 ms of (fs, s2) \<Rightarrow> (f @ fs, s2)))"

fun unframes :: "nat \<Rightarrow> 'r \<Rightarrow> bytes list go \<times> 'r" where
  "unframes 0 r = (Ret [], r)"
| "unframes (Suc n) r = (case unframe r of
     (Ret m, r1) \<Rightarrow> (case unframes n r1 of (Ret ms, r2) \<Rightarrow> (Ret (m # ms), r2) | (x, r2) \<Rightarrow> (x, r2))
   | (Err e, r1) \<Rightarrow> (Err e, r1) | (Panic, r1) \<Rightarrow> (Panic, r1))"

lemma frames_append:
  "frames s (ms @ ns) = (case frames s ms of (f, s1) \<Rightarrow> (case frames s1 ns of (g, s2) \<Rightarrow> (f @ g, s2)))"
  by (induction ms arbitrary: s) (auto split: prod.splits)

lemma unframes_frames:
  "\<forall>m \<in> set ms. wf m \<Longrightarrow> frames s ms = (f, s') \<Longrightarrow> sync s r (f @ rest) \<Longrightarrow>
     \<exists>r'. unframes (length ms) r = (Ret ms, r') \<and> sync s' r' rest"
proof (induction ms arbitrary: s f r)
  case (Cons m ms)
  obtain f1 s1 where 1: "frame s m = (f1, s1)" by fastforce
  obtain f2 where 2: "frames s1 ms = (f2, s')" "f = f1 @ f2"
    using Cons.prems 1 by (auto split: prod.splits)
  obtain r1 where r1: "unframe r = (Ret m, r1)" "sync s1 r1 (f2 @ rest)"
    using unframe_frame [OF _ 1, of r "f2 @ rest"] Cons.prems 2 by auto
  obtain r2 where "unframes (length ms) r1 = (Ret ms, r2)" "sync s' r2 rest"
    using Cons.IH [OF _ 2(1) r1(2)] Cons.prems(1) by auto
  then show ?case using r1 by simp
qed simp

end

section \<open>Readers\<close>

text \<open>
  A reader seen through its \<open>Read\<close>: with the bytes \<open>p\<close> still to be delivered a call returns some of
  them, or the end of the stream when there are none. \<open>io.ReadFull\<close> then gets every prefix of \<open>p\<close>.
\<close>

locale byte_reader =
  fixes read :: "nat \<Rightarrow> ('s, bytes) proc"
    and delivers :: "'s \<Rightarrow> bytes \<Rightarrow> bool"
  assumes read_end: "delivers s [] \<Longrightarrow> 0 < k \<Longrightarrow> \<exists>s'. read k s = (Err EOF, s')"
    and read_some: "delivers s p \<Longrightarrow> p \<noteq> [] \<Longrightarrow> 0 < k \<Longrightarrow>
      \<exists>x q s'. read k s = (Ret x, s') \<and> x \<noteq> [] \<and> length x \<le> k \<and> p = x @ q \<and> delivers s' q"
begin

lemma full_loop_enough:
  assumes "delivers s p" "n \<le> length p" "n \<le> fuel"
  shows "\<exists>s'. full_loop fuel read n s = ((take n p, Ret ()), s') \<and> delivers s' (drop n p)"
  using assms
proof (induction fuel arbitrary: n s p)
  case (Suc fuel)
  show ?case
  proof (cases n)
    case (Suc m)
    then obtain x q s' where x: "read n s = (Ret x, s')" "x \<noteq> []" "length x \<le> n" "p = x @ q" "delivers s' q"
      using read_some [OF Suc.prems(1), of n] Suc.prems(2) by (cases p) auto
    have "Suc 0 \<le> length x" using x(2) by (cases x) auto
    then have "n - length x \<le> length q" "n - length x \<le> fuel" using Suc.prems(2,3) x(4) by (simp, linarith)
    then obtain s'' where "full_loop fuel read (n - length x) s' = ((take (n - length x) q, Ret ()), s'')" "delivers s'' (drop (n - length x) q)"
      using Suc.IH [OF x(5)] by blast
    then show ?thesis using x Suc by simp
  qed (use Suc.prems in simp)
qed simp

lemma ReadFull_enough:
  assumes "delivers s p" "n \<le> length p" "n \<le> fuel"
  shows "\<exists>s'. io_ReadFull fuel read n s = ((take n p, Ret ()), s') \<and> delivers s' (drop n p)"
  using full_loop_enough [OF assms] by (auto simp: io_ReadFull_def)

end

text \<open>A reader seen through \<open>io.ReadFull\<close>.\<close>

locale full_reader =
  fixes rf :: "nat \<Rightarrow> 's \<Rightarrow> (bytes \<times> unit go) \<times> 's"
    and delivers :: "'s \<Rightarrow> bytes \<Rightarrow> bool"
  assumes rf_enough: "delivers s p \<Longrightarrow> n \<le> length p \<Longrightarrow> \<exists>s'. rf n s = ((take n p, Ret ()), s') \<and> delivers s' (drop n p)"

section \<open>Pools of slots\<close>

text \<open>
  A pool hands out slots that nobody holds and takes them back. The client lemmas are about a client
  that holds the slots \<open>A\<close> of a pool of which \<open>R\<close> are reserved.
\<close>

locale slot_pool =
  fixes inv :: "'p \<Rightarrow> bool"
    and slots :: "'p \<Rightarrow> 'a set"
    and taken :: "'p \<Rightarrow> 'a set"
    and alloc :: "'h \<Rightarrow> 'p \<Rightarrow> ('a \<times> 'p) go"
    and free :: "'a \<Rightarrow> 'p \<Rightarrow> (bool \<times> 'p) go"
  assumes taken_slots: "inv p \<Longrightarrow> taken p \<subseteq> slots p"
    and alloc_full: "inv p \<Longrightarrow> taken p = slots p \<Longrightarrow> alloc h p = Err ErrNoAvailableFakeIP"
    and alloc_free: "inv p \<Longrightarrow> taken p \<noteq> slots p \<Longrightarrow>
      \<exists>a p'. alloc h p = Ret (a, p') \<and> inv p' \<and> slots p' = slots p \<and> a \<in> slots p - taken p \<and> taken p' = insert a (taken p)"
    and free_taken: "inv p \<Longrightarrow> a \<in> slots p \<Longrightarrow>
      \<exists>p'. free a p = Ret (True, p') \<and> inv p' \<and> slots p' = slots p \<and> taken p' = taken p - {a}"
begin

definition holds :: "'a set \<Rightarrow> 'a list \<Rightarrow> 'p \<Rightarrow> bool" where
  "holds R as p \<longleftrightarrow> inv p \<and> distinct as \<and> set as \<inter> R = {} \<and> taken p = R \<union> set as"

lemma holds_alloc:
  assumes "holds R as p" "alloc h p = Ret (a, p')"
  shows "a \<in> slots p - (R \<union> set as)" "holds R (as @ [a]) p'" "slots p' = slots p"
proof -
  have "taken p \<noteq> slots p" using alloc_full [of p h] assms by (auto simp: holds_def)
  with alloc_free [of p h] assms show "a \<in> slots p - (R \<union> set as)" "holds R (as @ [a]) p'" "slots p' = slots p"
    by (auto simp: holds_def)
qed

lemma holds_free:
  assumes "holds R as p" "a \<in> set as"
  obtains p' where "free a p = Ret (True, p')" "holds R (filter (\<lambda>x. x \<noteq> a) as) p'" "slots p' = slots p"
proof -
  have "a \<in> slots p" using assms taken_slots by (auto simp: holds_def)
  with free_taken [of p a] assms obtain p' where p': "free a p = Ret (True, p')" "inv p'" "slots p' = slots p" "taken p' = taken p - {a}"
    by (auto simp: holds_def)
  moreover have "R \<union> set as - {a} = R \<union> {x \<in> set as. x \<noteq> a}" using assms by (auto simp: holds_def)
  then have "holds R (filter (\<lambda>x. x \<noteq> a) as) p'" using assms p' by (auto simp: holds_def)
  ultimately show ?thesis using that by blast
qed

lemma holds_perm: "holds R as p \<Longrightarrow> set bs = set as \<Longrightarrow> distinct bs \<Longrightarrow> holds R bs p"
  by (simp add: holds_def)

lemma holds_room: "holds R as p \<Longrightarrow> R \<union> set as \<noteq> slots p \<Longrightarrow> \<exists>a p'. alloc h p = Ret (a, p')"
  using alloc_free [of p h] by (auto simp: holds_def)

lemma holds_full: "holds R as p \<Longrightarrow> R \<union> set as = slots p \<Longrightarrow> alloc h p = Err ErrNoAvailableFakeIP"
  using alloc_full [of p h] by (auto simp: holds_def)

end

end
