(* ===== verification/Address.thy ===== *)
theory Address
  imports Go_Net Interfaces
begin

text \<open>
  The package \<open>address\<close>: SOCKS5 addresses as byte strings (type, host, port). \<open>encode\<close> is the wire
  format the functions agree on; the parsers are shown to accept exactly its values and to leave
  what follows them untouched.
\<close>

section \<open>Model of address.go\<close>

type_synonym Address = bytes

text \<open>
  \<open>io.ReadFull(r, b[i:j])\<close> for the caller's buffer \<open>b\<close>: the state is the reader and the buffer,
  which also receives the bytes of a read that ends too early. The reader \<open>r\<close> is any \<open>io.Reader\<close>; what
  is used of it is \<open>io.ReadFull\<close>, the argument \<open>rf\<close>.
\<close>

definition readFull_at :: "(nat \<Rightarrow> 'r \<Rightarrow> (bytes \<times> unit go) \<times> 'r) \<Rightarrow> nat \<Rightarrow> nat \<Rightarrow> ('r \<times> bytes, unit) proc" where
  "readFull_at rf i j = (\<lambda>(r, b).
     if i \<le> j \<and> j \<le> length b then (case rf (j - i) r of ((bs, e), r') \<Rightarrow> (e, (r', copy_into b i bs)))
     else (Panic, (r, b)))"

definition ParseAddressFrom :: "(nat \<Rightarrow> 'r \<Rightarrow> (bytes \<times> unit go) \<times> 'r) \<Rightarrow> ('r \<times> bytes, Address) proc" where
  "ParseAddressFrom rf = (\<lambda>(r, b).
     if length b < 1 then (Err ErrShortBuffer, (r, b))
     else bindP (readFull_at rf 0 1) (\<lambda>_ (r, b).
       if b ! 0 = 3 then
         bindP (readFull_at rf 1 2) (\<lambda>_ (r, b).
           bindP (readFull_at rf 2 (2 + unat (b ! 1) + 2)) (\<lambda>_ (r, b).
             (Ret (take (1 + 1 + unat (b ! 1) + 2) b), (r, b))) (r, b)) (r, b)
       else if b ! 0 = 1 then
         bindP (readFull_at rf 1 (1 + 4 + 2)) (\<lambda>_ (r, b). (Ret (take (1 + 4 + 2) b), (r, b))) (r, b)
       else if b ! 0 = 4 then
         bindP (readFull_at rf 1 (1 + 16 + 2)) (\<lambda>_ (r, b). (Ret (take (1 + 16 + 2) b), (r, b))) (r, b)
       else (Err ErrAddrTypeNotSupported, (r, b))) (r, b))"

text \<open>Reading from a plain connection, a list of chunks.\<close>

definition ParseAddressFromReader :: "(reader \<times> bytes, Address) proc" where
  "ParseAddressFromReader = ParseAddressFrom rd_full"

definition ParseAddressFromBuffer :: "bytes \<Rightarrow> Address go" where
  "ParseAddressFromBuffer b =
     (if length b < 1 then Err ErrShortBuffer
      else bind_go
        (if b ! 0 = 3 then
           (if length b < 2 then Err ErrShortBuffer else Ret (1 + 1 + unat (b ! 1) + 2))
         else if b ! 0 = 1 then Ret (1 + 4 + 2)
         else if b ! 0 = 4 then Ret (1 + 16 + 2)
         else Err ErrAddrTypeNotSupported)
        (\<lambda>addrLen. if length b < addrLen then Err ErrShortBuffer else Ret (take addrLen b)))"

text \<open>The address and the caller's buffer after the call; the address is a prefix of the buffer.\<close>

definition ParseAddressFromHostPort :: "string \<Rightarrow> int \<Rightarrow> (bytes, Address) proc" where
  "ParseAddressFromHostPort host port b =
     (if length host = 0 \<or> port < 0 \<or> 65535 < port then (Err ErrInvalidHostOrPort, b)
      else
        let finish = (\<lambda>b portindex.
              let b' = (b[portindex := byte_of (nat port div 256)])[portindex + 1 := byte_of (nat port)]
              in (Ret (take (portindex + 2) b'), b'))
        in case parseIP host of
          Some ip \<Rightarrow>
            (case to4 ip of
               Some ip4 \<Rightarrow>
                 if length b < 1 + 4 + 2 then (Err ErrShortBuffer, b)
                 else finish (copy_into (b[0 := 1]) 1 ip4) (1 + 4)
             | None \<Rightarrow>
                 if length b < 1 + 16 + 2 then (Err ErrShortBuffer, b)
                 else finish (copy_into (b[0 := 4]) 1 ip) (1 + 16))
        | None \<Rightarrow>
            if 255 < length host then (Err ErrDomainLengthToLong, b)
            else if length b < 1 + 1 + length host + 2 then (Err ErrShortBuffer, b)
            else finish (copy_into (b[0 := 3, 1 := byte_of (length host)]) 2 (bytes_of host))
                   (1 + 1 + length host))"

definition ParseAddress :: "string \<Rightarrow> (bytes, Address) proc" where
  "ParseAddress addr b = (case splitHostPort addr of
     Ret (host, port) \<Rightarrow> ParseAddressFromHostPort host (fst (atoi port)) b
   | Err e \<Rightarrow> (Err e, b)
   | Panic \<Rightarrow> (Panic, b))"

definition Address_Host :: "Address \<Rightarrow> string" where
  "Address_Host a = (let n = length a in
     if n < 1 then []
     else if a ! 0 = 3 then
       (if 1 < n \<and> 2 + unat (a ! 1) \<le> n then string_of (take (unat (a ! 1)) (drop 2 a)) else [])
     else if a ! 0 = 1 then (if 1 + 4 \<le> n then ip_string (take 4 (drop 1 a)) else [])
     else if a ! 0 = 4 then (if 1 + 16 \<le> n then ip_string (take 16 (drop 1 a)) else [])
     else [])"

definition Address_Port :: "Address \<Rightarrow> nat" where
  "Address_Port a = (let n = length a in
     if n < 1 then 0
     else if a ! 0 = 3 then
       (if 1 < n \<and> 4 + unat (a ! 1) \<le> n
        then unat (a ! (2 + unat (a ! 1))) * 256 + unat (a ! (2 + unat (a ! 1) + 1)) else 0)
     else if a ! 0 = 1 then (if 3 + 4 \<le> n then unat (a ! 5) * 256 + unat (a ! 6) else 0)
     else if a ! 0 = 4 then (if 3 + 16 \<le> n then unat (a ! 17) * 256 + unat (a ! 18) else 0)
     else 0)"

definition Address_String :: "Address \<Rightarrow> string" where
  "Address_String a = joinHostPort (Address_Host a) (itoa_nat (Address_Port a))"

section \<open>The wire format\<close>

datatype saddr = DomainA string nat | IPv4A bytes nat | IPv6A bytes nat

fun wf_saddr :: "saddr \<Rightarrow> bool" where
  "wf_saddr (DomainA h p) = (length h \<le> 255 \<and> p \<le> 65535)"
| "wf_saddr (IPv4A ip p) = (length ip = 4 \<and> p \<le> 65535)"
| "wf_saddr (IPv6A ip p) = (length ip = 16 \<and> p \<le> 65535)"

fun encode :: "saddr \<Rightarrow> bytes" where
  "encode (DomainA h p) = 3 # byte_of (length h) # bytes_of h @ be16 p"
| "encode (IPv4A ip p) = 1 # ip @ be16 p"
| "encode (IPv6A ip p) = 4 # ip @ be16 p"

text \<open>What \<open>ParseAddressFromHostPort\<close> means a host and a port to be.\<close>

definition saddr_of :: "string \<Rightarrow> nat \<Rightarrow> saddr" where
  "saddr_of host port = (case parseIP host of
     None \<Rightarrow> DomainA host port
   | Some ip \<Rightarrow> (case to4 ip of Some ip4 \<Rightarrow> IPv4A ip4 port | None \<Rightarrow> IPv6A ip port))"

fun saddr_host :: "saddr \<Rightarrow> string" where
  "saddr_host (DomainA h p) = h"
| "saddr_host (IPv4A ip p) = ip_string ip"
| "saddr_host (IPv6A ip p) = ip_string ip"

fun saddr_port :: "saddr \<Rightarrow> nat" where
  "saddr_port (DomainA h p) = p"
| "saddr_port (IPv4A ip p) = p"
| "saddr_port (IPv6A ip p) = p"

lemma length_encode:
  "length (encode sa) = (case sa of DomainA h p \<Rightarrow> 4 + length h
     | IPv4A ip p \<Rightarrow> 3 + length ip | IPv6A ip p \<Rightarrow> 3 + length ip)"
  by (cases sa) auto

lemma length_encode_le: "wf_saddr sa \<Longrightarrow> length (encode sa) \<le> 259"
  by (cases sa) auto

lemma unat_byte_of_small [simp]: "n \<le> 255 \<Longrightarrow> unat (byte_of n) = n"
  by simp

lemma be16_nth: "be16 n ! 0 = byte_of (n div 256)" "be16 n ! Suc 0 = byte_of n"
  by (simp_all add: be16_def)

lemma be16_value [simp]: "n div 256 mod 256 * 256 + n mod 256 = n" if "n \<le> 65535" for n :: nat
proof -
  from that
 have "n div 256 < 256" by linarith
  then show ?thesis by simp
qed

lemma Address_Port_encode [simp]: "wf_saddr sa \<Longrightarrow> Address_Port (encode sa) = saddr_port sa"
  by (cases sa) (auto simp: Address_Port_def Let_def nth_append be16_nth)

lemma Address_Host_encode [simp]: "wf_saddr sa \<Longrightarrow> Address_Host (encode sa) = saddr_host sa"
  by (cases sa) (auto simp: Address_Host_def Let_def)

lemma split_port:
  assumes "length q = 2"
  shows "\<exists>p \<le> 65535. q = be16 p"
proof -
  from assms obtain x y where q: "q = [x, y]"
    by (auto simp: numeral_2_eq_2 length_Suc_conv)
  have "unat x * 256 + unat y \<le> 65535"
    using unat_byte_less [of x] unat_byte_less [of y] by linarith
  moreover have "q = be16 (unat x * 256 + unat y)"
    by (simp add: q be16_def word_unat_eq_iff)
  ultimately show ?thesis by blast
qed

lemma split_host_port:
  assumes "k + 2 \<le> length c"
  shows "\<exists>h p. length h = k \<and> p \<le> 65535 \<and> take (k + 2) c = h @ be16 p"
proof -
  obtain p where "p \<le> 65535" "take 2 (drop k c) = be16 p"
    using split_port [of "take 2 (drop k c)"] assms by auto
  then show ?thesis using assms by (intro exI [of _ "take k c"] exI [of _ p])
      (simp add: take_add del: add_2_eq_Suc')
qed

lemma ParseAddressFromBuffer_encode:
  "wf_saddr sa \<Longrightarrow> ParseAddressFromBuffer (encode sa @ rest) = Ret (encode sa)"
  by (cases sa) (auto simp: ParseAddressFromBuffer_def)

lemma ParseAddressFromBuffer_RetD:
  assumes "ParseAddressFromBuffer b = Ret a"
  shows "\<exists>sa rest. wf_saddr sa \<and> b = encode sa @ rest \<and> a = encode sa"
proof -
  from assms have ne: "b \<noteq> []" by (auto simp: ParseAddressFromBuffer_def)
  then obtain t c where b: "b = t # c" by (cases b) auto
  have pre: "\<exists>sa. wf_saddr sa \<and> a = encode sa"
  proof -
    consider (dom) n d where "c = n # d" "unat n + 2 \<le> length d" "a = 3 # n # take (unat n + 2) d"
      | (v4) "t = 1" "a = take 7 b" "7 \<le> length b"
      | (v6) "t = 4" "a = take 19 b" "19 \<le> length b"
      using assms by (cases c) (auto simp: ParseAddressFromBuffer_def b split: if_splits)
    then show ?thesis
    proof cases
      case dom
      from split_host_port [OF dom(2)] obtain h p
        where h: "length h = unat n" "p \<le> 65535" "take (unat n + 2) d = h @ be16 p" by blast
      have "unat n \<le> 255" using unat_byte_less [of n] by linarith
      moreover have "a = encode (DomainA (string_of h) p)" using dom h by simp
      ultimately show ?thesis using h by (intro exI [of _ "DomainA (string_of h) p"]) simp
    next
      case v4
      then have "4 + 2 \<le> length c" using b by simp
      from split_host_port [OF this] obtain h p
        where "length h = 4" "p \<le> 65535" "take (4 + 2) c = h @ be16 p" by blast
      then show ?thesis using v4 b by (intro exI [of _ "IPv4A h p"]) simp
    next
      case v6
      then have "16 + 2 \<le> length c" using b by simp
      from split_host_port [OF this] obtain h p
        where "length h = 16" "p \<le> 65535" "take (16 + 2) c = h @ be16 p" by blast
      then show ?thesis using v6 b by (intro exI [of _ "IPv6A h p"]) simp
    qed
  qed
  moreover obtain n where "a = take n b"
    using assms by (auto simp: ParseAddressFromBuffer_def split: if_splits)
  then have "b = a @ drop n b" by simp
  ultimately show ?thesis by blast
qed

lemma copy_into_head [simp]: "copy_into (x # b) 0 [y] = y # b"
  by (simp add: copy_into_def)

lemma copy_into_Cons [simp]: "copy_into (x # b) (Suc n) ys = x # copy_into b n ys"
  by (simp add: copy_into_def)

lemma take_copy_into_0 [simp]:
  "n = length ys \<Longrightarrow> n \<le> length b \<Longrightarrow> take n (copy_into b 0 ys) = ys"
  by (simp add: copy_into_def)

context full_reader
begin

lemma readFull_at_ok:
  assumes "i \<le> j" "j \<le> length b" "delivers r (bs @ rest)" "length bs = j - i"
  shows "\<exists>r'. readFull_at rf i j (r, b) = (Ret (), (r', copy_into b i bs)) \<and> delivers r' rest"
proof -
  have "j - i \<le> length (bs @ rest)" using assms(4) by simp
  then show ?thesis using assms rf_enough [OF assms(3), of "j - i"] by (auto simp: readFull_at_def)
qed

lemma ParseAddressFrom_encode:
  assumes wf: "wf_saddr sa" and r: "delivers r (encode sa @ rest)" and len: "259 \<le> length b"
  shows "\<exists>r' b'. ParseAddressFrom rf (r, b) = (Ret (encode sa), (r', b')) \<and> delivers r' rest"
proof -
  from len obtain x y d where b: "b = x # y # d" and d: "257 \<le> length d"
    by (cases b; cases "tl b") auto
  obtain t body where enc: "encode sa = t # body" by (cases sa) auto
  from readFull_at_ok [of 0 1 b r "[t]" "body @ rest"] r b enc obtain r1
    where r1: "readFull_at rf 0 1 (r, b) = (Ret (), (r1, t # y # d))" "delivers r1 (body @ rest)" by auto
  show ?thesis
  proof (cases sa)
    case (DomainA h p)
    let ?tl = "bytes_of h @ be16 p"
    from DomainA enc wf have t: "t = 3" "body = byte_of (length h) # ?tl" "length h \<le> 255" by auto
    from readFull_at_ok [of 1 2 "t # y # d" r1 "[byte_of (length h)]" "?tl @ rest"] r1 t obtain r2
      where r2: "readFull_at rf 1 2 (r1, t # y # d) = (Ret (), (r2, t # byte_of (length h) # d))"
        "delivers r2 (?tl @ rest)" by auto
    from readFull_at_ok [of 2 "2 + length h + 2" "t # byte_of (length h) # d" r2 ?tl rest] r2 t d
    obtain r3 where r3: "readFull_at rf 2 (2 + length h + 2) (r2, t # byte_of (length h) # d)
        = (Ret (), (r3, t # byte_of (length h) # copy_into d 0 ?tl))" "delivers r3 (rest)"
      by (auto simp: numeral_2_eq_2)
    have "take (2 + length h) (copy_into d 0 ?tl) = ?tl" using d t by simp
    then show ?thesis using r1 r2 r3 t d b enc
      by (auto simp: ParseAddressFrom_def go_simps)
  next
    case (IPv4A ip p)
    from IPv4A enc wf have t: "t = 1" "body = ip @ be16 p" "length body = 6" by auto
    from readFull_at_ok [of 1 7 "t # y # d" r1 body rest] r1 t d obtain r2
      where r2: "readFull_at rf 1 7 (r1, t # y # d) = (Ret (), (r2, t # copy_into (y # d) 0 body))"
        "delivers r2 (rest)" by auto
    have "take 6 (copy_into (y # d) 0 body) = body" using d t by simp
    then show ?thesis using r1 r2 t d b enc
      by (auto simp: ParseAddressFrom_def go_simps)
  next
    case (IPv6A ip p)
    from IPv6A enc wf have t: "t = 4" "body = ip @ be16 p" "length body = 18" by auto
    from readFull_at_ok [of 1 19 "t # y # d" r1 body rest] r1 t d obtain r2
      where r2: "readFull_at rf 1 19 (r1, t # y # d) = (Ret (), (r2, t # copy_into (y # d) 0 body))"
        "delivers r2 (rest)" by auto
    have "take 18 (copy_into (y # d) 0 body) = body" using d t by simp
    then show ?thesis using r1 r2 t d b enc
      by (auto simp: ParseAddressFrom_def go_simps)
  qed
qed

end

interpretation rd: full_reader rd_full "\<lambda>r p. concat r = p"
  by unfold_locales (use rd_full_enough in auto)

lemma ParseAddressFromReader_encode:
  assumes "wf_saddr sa" "concat r = encode sa @ rest" "259 \<le> length b"
  shows "\<exists>r' b'. ParseAddressFromReader (r, b) = (Ret (encode sa), (r', b')) \<and> concat r' = rest"
  unfolding ParseAddressFromReader_def by (rule rd.ParseAddressFrom_encode [OF assms])

lemma fill_address:
  assumes "k = length hdr" "n = k + length body" "n + 2 \<le> length b"
  shows "(copy_into (hdr @ drop k b) k body)[n := x, n + 1 := y] = hdr @ body @ [x, y] @ drop (n + 2) b"
proof -
  have "drop n b = b ! n # b ! Suc n # drop (n + 2) b"
    using assms(3) Cons_nth_drop_Suc [of n b] Cons_nth_drop_Suc [of "Suc n" b] by simp
  then obtain u v where uv: "drop n b = u # v # drop (n + 2) b" by blast
  have "copy_into (hdr @ drop k b) k body = hdr @ body @ u # v # drop (n + 2) b"
    unfolding uv [symmetric] using assms by (simp add: copy_into_def add.commute)
  then show ?thesis using assms(1,2) by (simp add: list_update_append)
qed

lemma update_head: "1 < length b \<Longrightarrow> b[0 := x] = [x] @ drop 1 b"
  "2 < length b \<Longrightarrow> b[0 := x, 1 := y] = [x, y] @ drop 2 b"
  by (cases b; cases "tl b"; simp)+

lemma saddr_of_cases:
  obtains (dom) "parseIP host = None" "saddr_of host port = DomainA host port"
  | (v4) ip ip4 where "parseIP host = Some ip" "to4 ip = Some ip4" "length ip4 = 4"
      "saddr_of host port = IPv4A ip4 port"
  | (v6) ip where "parseIP host = Some ip" "to4 ip = None" "length ip = 16"
      "saddr_of host port = IPv6A ip port"
  by (cases "parseIP host"; cases "to4 (the (parseIP host))")
    (auto simp: saddr_of_def to4_length length_parseIP)

lemma ParseAddressFromHostPort_spec:
  "ParseAddressFromHostPort host port b =
     (let sa = saddr_of host (nat port); n = length (encode sa) in
      if host = [] \<or> port < 0 \<or> 65535 < port then (Err ErrInvalidHostOrPort, b)
      else if parseIP host = None \<and> 255 < length host then (Err ErrDomainLengthToLong, b)
      else if length b < n then (Err ErrShortBuffer, b)
      else (Ret (encode sa), encode sa @ drop n b))"
proof (cases "host = [] \<or> port < 0 \<or> 65535 < port")
  case False
  let ?x = "byte_of (nat port div 256)" and ?y = "byte_of (nat port)"
  show ?thesis
  proof (cases rule: saddr_of_cases [of host "nat port"])
    case dom
    show ?thesis
    proof (cases "255 < length host \<or> length b < 4 + length host")
      case True
      then show ?thesis using dom False by (auto simp: ParseAddressFromHostPort_def)
    next
      case small: False
      have "(copy_into (b[0 := 3, 1 := byte_of (length host)]) 2 (bytes_of host))
          [2 + length host := ?x, 2 + length host + 1 := ?y]
        = [3, byte_of (length host)] @ bytes_of host @ [?x, ?y] @ drop (2 + length host + 2) b"
        using small by (subst update_head(2)) (simp, rule fill_address, simp_all)
      then show ?thesis using dom False small
        by (simp add: ParseAddressFromHostPort_def be16_def)
    qed
  next
    case (v4 ip ip4)
    show ?thesis
    proof (cases "length b < 7")
      case False
      then have "(copy_into (b[0 := 1]) 1 ip4)[5 := ?x, 5 + 1 := ?y] = [1] @ ip4 @ [?x, ?y] @ drop (5 + 2) b"
        using v4 by (subst update_head(1)) (simp, rule fill_address, simp_all)
      then show ?thesis using v4 \<open>\<not> (host = [] \<or> port < 0 \<or> 65535 < port)\<close> False
        by (simp add: ParseAddressFromHostPort_def be16_def)
    qed (use v4 False in \<open>simp add: ParseAddressFromHostPort_def\<close>)
  next
    case (v6 ip)
    show ?thesis
    proof (cases "length b < 19")
      case False
      then have "(copy_into (b[0 := 4]) 1 ip)[17 := ?x, 17 + 1 := ?y] = [4] @ ip @ [?x, ?y] @ drop (17 + 2) b"
        using v6 by (subst update_head(1)) (simp, rule fill_address, simp_all)
      then show ?thesis using v6 \<open>\<not> (host = [] \<or> port < 0 \<or> 65535 < port)\<close> False
        by (simp add: ParseAddressFromHostPort_def be16_def)
    qed (use v6 False in \<open>simp add: ParseAddressFromHostPort_def\<close>)
  qed
qed (auto simp: ParseAddressFromHostPort_def)

lemma wf_saddr_of: "port \<le> 65535 \<Longrightarrow> parseIP host \<noteq> None \<or> length host \<le> 255 \<Longrightarrow> wf_saddr (saddr_of host port)"
  by (cases rule: saddr_of_cases [of host port]) auto

lemma ParseAddressFromHostPort_no_panic [simp]: "fst (ParseAddressFromHostPort host port b) \<noteq> Panic"
  by (simp add: ParseAddressFromHostPort_spec Let_def)

lemma splitHostPort_no_panic [simp]: "splitHostPort s \<noteq> Panic"
  by (auto simp: splitHostPort_def bind_go_def split: option.splits go.splits if_splits)

lemma parseIP_no_colon:
  assumes "parseIP s = Some ip" "CHR '':'' \<notin> set s"
  shows "\<exists>b. parseIPv4 s = Some b \<and> ip = v4InV6Prefix @ b"
proof -
  have "addr_kind t \<noteq> Some (CHR '':'')" if "CHR '':'' \<notin> set t" for t
    using that by (induction t) auto
  with assms(2) have k: "addr_kind s \<noteq> Some (CHR '':'')" by blast
  from assms(1) obtain na where na: "netip_ParseAddr s = Some na"
    by (cases "netip_ParseAddr s") (simp_all add: parseIP_def)
  with k obtain b where "parseIPv4 s = Some b" "na = Addr4 b"
    by (auto simp: netip_ParseAddr_def split: option.splits if_splits)
  then show ?thesis using assms(1) na by (simp add: parseIP_def)
qed

lemma saddr_host_no_colon:
  assumes "CHR '':'' \<notin> set host"
  shows "saddr_host (saddr_of host port) = host"
proof (cases "parseIP host")
  case (Some ip)
  with parseIP_no_colon assms obtain b where b: "parseIPv4 host = Some b" "ip = v4InV6Prefix @ b"
    by blast
  with length_parseIPv4 have "length b = 4" by blast
  with b Some show ?thesis by (simp add: saddr_of_def parseIPv4_canonical)
qed (simp add: saddr_of_def)

lemma saddr_port_of [simp]: "saddr_port (saddr_of host port) = port"
  by (cases rule: saddr_of_cases [of host port]) auto

section \<open>Properties\<close>

text \<open>
  C17. \<open>ParseAddressFromReader\<close> with a buffer of \<open>MaxAddressBufferSize\<close> bytes reads every well-formed
  address whatever chunks the network delivers it in: it returns exactly the address and consumes
  nothing of what follows.
\<close>

theorem reader_parses_address:
  assumes "wf_saddr sa" "concat r = encode sa @ rest" "259 \<le> length b"
  shows "\<exists>r' b'. ParseAddressFromReader (r, b) = (Ret (encode sa), (r', b')) \<and> concat r' = rest"
  using assms by (rule ParseAddressFromReader_encode)

theorem reader_parses_address_witness:
  "\<exists>r' b'. ParseAddressFromReader ([[1, 127], [0, 0, 1, 0], [80, 71, 69]], replicate 259 0)
     = (Ret [1, 127, 0, 0, 1, 0, 80], (r', b')) \<and> concat r' = [71, 69]"
  using reader_parses_address [of "IPv4A [127, 0, 0, 1] 80" "[[1, 127], [0, 0, 1, 0], [80, 71, 69]]"
      "[71, 69]" "replicate 259 0"]
  by (simp add: be16_def byte_of_def)

text \<open>
  C19. \<open>ParseAddressFromBuffer\<close> succeeds exactly on the byte strings that start with a well-formed
  address, and returns that address and nothing else.
\<close>

theorem buffer_parses_exactly_addresses:
  "ParseAddressFromBuffer b = Ret a \<longleftrightarrow>
     (\<exists>sa rest. wf_saddr sa \<and> b = encode sa @ rest \<and> a = encode sa)"
  using ParseAddressFromBuffer_RetD ParseAddressFromBuffer_encode by blast

text \<open>
  C23. Round trip through text: an address that \<open>ParseAddressFromHostPort\<close> built from a host which is
  a domain name or an IPv4 literal (no colons and no brackets) prints, with \<open>Host\<close>, \<open>Port\<close> and
  \<open>String\<close>, as that host and port, and \<open>ParseAddress\<close> reads the text back to the same address.
\<close>

theorem address_text_round_trip:
  assumes "ParseAddressFromHostPort host (int port) b = (Ret a, b')"
    and "\<forall>c \<in> set host. c \<noteq> CHR '':'' \<and> c \<noteq> CHR ''['' \<and> c \<noteq> CHR '']''"
    and "length a \<le> length c"
  shows "Address_Host a = host \<and> Address_Port a = port
     \<and> Address_String a = host @ CHR '':'' # itoa_nat port
     \<and> fst (ParseAddress (Address_String a) c) = Ret a"
proof -
  let ?sa = "saddr_of host port"
  from assms(1) have h: "host \<noteq> []" "port \<le> 65535" and a: "a = encode ?sa"
    and ok: "parseIP host \<noteq> None \<or> length host \<le> 255"
    by (auto simp: ParseAddressFromHostPort_spec Let_def split: if_splits)
  have wf: "wf_saddr ?sa" using wf_saddr_of h ok by blast
  have "CHR '':'' \<notin> set host" using assms(2) by blast
  then have "saddr_host ?sa = host" by (rule saddr_host_no_colon)
  moreover have "CHR '':'' \<notin> set host" using assms(2) by blast
  moreover have "splitHostPort (joinHostPort host (itoa_nat port)) = Ret (host, itoa_nat port)"
    using assms(2) by (intro split_join_host_port) auto
  moreover have "atoi (itoa_nat port) = (int port, None)" using h by (intro atoi_itoa_nat) simp
  ultimately show ?thesis using h ok wf a assms(3)
    by (simp add: Address_String_def ParseAddress_def ParseAddressFromHostPort_spec Let_def joinHostPort_def
        not_less)
qed

theorem address_text_round_trip_witness:
  "Address_String [1, 10, 0, 0, 7, 1, 187] = ''10.0.0.7:443''
   \<and> fst (ParseAddress ''10.0.0.7:443'' (replicate 7 0)) = Ret [1, 10, 0, 0, 7, 1, 187]"
proof -
  have "ParseAddressFromHostPort ''10.0.0.7'' (int 443) (replicate 7 0)
      = (Ret [1, 10, 0, 0, 7, 1, 187], [1, 10, 0, 0, 7, 1, 187])"
    by code_simp
  moreover have "itoa_nat 443 = ''443''" by code_simp
  ultimately show ?thesis
    using address_text_round_trip [of "''10.0.0.7''" 443 _ _ _ "replicate 7 0"] by force
qed

end
