(* ===== verification/Ord_Map.thy ===== *)
theory Ord_Map
  imports Interfaces
begin

text \<open>
  The package \<open>util/ordmap\<close>: a map with insertion order, built from a Go map to elements of a
  \<open>container/list\<close>, and the package \<open>selector\<close> that keeps the relayers of the proxy nodes in two of
  them. List elements have an identity, which is a number here.
\<close>

section \<open>Model of util/ordmap/map.go\<close>

record ('k, 'v) OrderedMap =
  elems :: "'k \<Rightarrow> nat option"
  ll :: "(nat \<times> 'k \<times> 'v) list option"
  next_elem :: nat

definition OrderedMap_zero :: "('k, 'v) OrderedMap" where
  "OrderedMap_zero = \<lparr>elems = (\<lambda>_. None), ll = None, next_elem = 0\<rparr>"

definition Size :: "('k, 'v) OrderedMap \<Rightarrow> nat" where
  "Size m = (case ll m of None \<Rightarrow> 0 | Some l \<Rightarrow> length l)"

definition Store :: "'k \<Rightarrow> 'v \<Rightarrow> ('k, 'v) OrderedMap \<Rightarrow> ('k, 'v) OrderedMap" where
  "Store key value m =
     (let m1 = (case ll m of None \<Rightarrow> m\<lparr>elems := (\<lambda>_. None), ll := Some []\<rparr> | Some _ \<Rightarrow> m);
          insE = next_elem m1
      in m1\<lparr>ll := map_option (\<lambda>l. l @ [(insE, key, value)]) (ll m1),
            elems := (elems m1)(key := Some insE), next_elem := Suc insE\<rparr>)"

text \<open>The entry an element holds; an element that was removed from its list keeps its value.\<close>

fun elem_entry :: "(nat \<times> 'k \<times> 'v) list \<Rightarrow> nat \<Rightarrow> ('k \<times> 'v) option" where
  "elem_entry [] i = None"
| "elem_entry ((j, e) # l) i = (if i = j then Some e else elem_entry l i)"

definition Load :: "('k, 'v) OrderedMap \<Rightarrow> 'k \<Rightarrow> 'v option" where
  "Load m key = (case elems m key of None \<Rightarrow> None
     | Some e \<Rightarrow> (case ll m of None \<Rightarrow> None | Some l \<Rightarrow> map_option snd (elem_entry l e)))"

definition Delete :: "'k \<Rightarrow> ('k, 'v) OrderedMap \<Rightarrow> ('k, 'v) OrderedMap" where
  "Delete key m = (case elems m key of None \<Rightarrow> m
     | Some e \<Rightarrow> m\<lparr>ll := map_option (filter (\<lambda>(i, _). i \<noteq> e)) (ll m), elems := (elems m)(key := None)\<rparr>)"

definition First :: "('k, 'v) OrderedMap \<Rightarrow> 'v option" where
  "First m = (case ll m of None \<Rightarrow> None
     | Some l \<Rightarrow> (case l of [] \<Rightarrow> None | (_, _, v) # _ \<Rightarrow> Some v))"

text \<open>The callbacks of \<open>Range\<close> and \<open>UnorderedRange\<close> act on a state and say whether to go on.\<close>

fun range_loop :: "('k \<Rightarrow> 'v \<Rightarrow> 's \<Rightarrow> bool \<times> 's) \<Rightarrow> ('k \<times> 'v) list \<Rightarrow> 's \<Rightarrow> 's" where
  "range_loop f [] s = s"
| "range_loop f ((k, v) # kvs) s = (case f k v s of (go_on, s') \<Rightarrow> if \<not> go_on then s' else range_loop f kvs s')"

definition Range :: "('k \<Rightarrow> 'v \<Rightarrow> 's \<Rightarrow> bool \<times> 's) \<Rightarrow> ('k, 'v) OrderedMap \<Rightarrow> 's \<Rightarrow> 's" where
  "Range f m s = (case ll m of None \<Rightarrow> s | Some l \<Rightarrow> range_loop f (map snd l) s)"

text \<open>A Go map is iterated in an arbitrary order of its keys, which is the argument \<open>order\<close>.\<close>

definition UnorderedRange :: "'k list \<Rightarrow> ('k \<Rightarrow> 'v \<Rightarrow> 's \<Rightarrow> bool \<times> 's) \<Rightarrow> ('k, 'v) OrderedMap \<Rightarrow> 's \<Rightarrow> 's" where
  "UnorderedRange order f m s =
     range_loop f (List.map_filter (\<lambda>k. map_option (Pair k) (Load m k)) order) s"

section \<open>Invariant and contract\<close>

definition om_list :: "('k, 'v) OrderedMap \<Rightarrow> (nat \<times> 'k \<times> 'v) list" where
  "om_list m = (case ll m of None \<Rightarrow> [] | Some l \<Rightarrow> l)"

definition om_inv :: "('k, 'v) OrderedMap \<Rightarrow> bool" where
  "om_inv m \<longleftrightarrow> (ll m = None \<longrightarrow> elems m = (\<lambda>_. None)) \<and> distinct (map fst (om_list m))
     \<and> (\<forall>(i, k, v) \<in> set (om_list m). i < next_elem m)
     \<and> (\<forall>k i. elems m k = Some i \<longrightarrow> (\<exists>v. (i, k, v) \<in> set (om_list m)))"

lemma elem_entry_in: "distinct (map fst l) \<Longrightarrow> (i, e) \<in> set l \<Longrightarrow> elem_entry l i = Some e"
  by (induction l) (force split: if_splits)+

lemma elem_entry_append:
  "elem_entry (l @ l') i = (case elem_entry l i of Some e \<Rightarrow> Some e | None \<Rightarrow> elem_entry l' i)"
  by (induction l) (auto split: option.splits)

lemma elem_entry_None: "elem_entry l i = None \<longleftrightarrow> i \<notin> fst ` set l"
  by (induction l) (auto split: if_splits)

lemma elems_entry:
  "om_inv m \<Longrightarrow> elems m k = Some i \<Longrightarrow> \<exists>v. elem_entry (om_list m) i = Some (k, v)"
  unfolding om_inv_def using elem_entry_in by fast

lemma elems_inj: "om_inv m \<Longrightarrow> elems m k = Some i \<Longrightarrow> elems m k' = Some i \<Longrightarrow> k = k'"
  using elems_entry [of m k i] elems_entry [of m k' i] by auto

lemma om_inv_zero [simp]: "om_inv OrderedMap_zero"
  by (simp add: om_inv_def OrderedMap_zero_def om_list_def)

lemma Store_simps:
  "om_list (Store k v m) = om_list m @ [(next_elem m, k, v)]"
  "ll (Store k v m) = Some (om_list m @ [(next_elem m, k, v)])"
  "next_elem (Store k v m) = Suc (next_elem m)"
  by (auto simp: Store_def om_list_def Let_def split: option.splits)

lemma elems_Store: "om_inv m \<Longrightarrow> elems (Store k v m) = (elems m)(k := Some (next_elem m))"
  by (auto simp: Store_def Let_def om_inv_def split: option.splits)

lemma om_inv_Store: "om_inv m \<Longrightarrow> om_inv (Store k v m)"
  unfolding om_inv_def [of "Store k v m"] elems_Store Store_simps
  by (auto simp: om_inv_def split: if_splits)

lemma Load_alt: "om_inv m \<Longrightarrow> Load m k = (case elems m k of None \<Rightarrow> None
     | Some e \<Rightarrow> map_option snd (elem_entry (om_list m) e))"
  by (auto simp: Load_def om_list_def om_inv_def split: option.splits)

lemma Load_Store: "om_inv m \<Longrightarrow> Load (Store k v m) k' = (if k' = k then Some v else Load m k')"
proof -
  assume inv: "om_inv m"
  have new: "elem_entry (om_list m) (next_elem m) = None"
    using inv by (force simp: elem_entry_None om_inv_def)
  have old: "\<exists>e. elem_entry (om_list m) i = Some e" if "elems m k' = Some i" for i
    using elems_entry [OF inv that] by blast
  show ?thesis
    using inv old by (auto simp: Load_alt [OF om_inv_Store [OF inv]] Load_alt [OF inv] elems_Store
        Store_simps elem_entry_append new split: option.splits)
qed

interpretation ordmap: keyed_store om_inv OrderedMap_zero Store Load
  by unfold_locales (simp_all add: om_inv_Store Load_Store, simp add: Load_def OrderedMap_zero_def)

lemma om_inv_Delete: "om_inv m \<Longrightarrow> om_inv (Delete k m)"
proof (cases "elems m k")
  case (Some i)
  assume inv: "om_inv m"
  have l: "om_list (Delete k m) = filter (\<lambda>(j, _). j \<noteq> i) (om_list m)"
    using Some by (auto simp: Delete_def om_list_def split: option.splits)
  have e: "elems (Delete k m) = (elems m)(k := None)" "next_elem (Delete k m) = next_elem m"
    "ll (Delete k m) = None \<longleftrightarrow> ll m = None" using Some by (simp_all add: Delete_def)
  have "j \<noteq> i" if "elems m k' = Some j" "k' \<noteq> k" for k' j
    using elems_inj [OF inv] Some that by blast
  then show ?thesis using inv unfolding om_inv_def l e
    by (auto simp: distinct_map_filter)
qed (simp add: Delete_def)

lemma Load_Delete: "om_inv m \<Longrightarrow> Load (Delete k m) k' = (if k' = k then None else Load m k')"
proof (cases "elems m k")
  case None
  then show "om_inv m \<Longrightarrow> ?thesis" by (simp add: Delete_def Load_def)
next
  case (Some i)
  assume inv: "om_inv m"
  have l: "om_list (Delete k m) = filter (\<lambda>(j, _). j \<noteq> i) (om_list m)"
    using Some by (auto simp: Delete_def om_list_def split: option.splits)
  have e: "elems (Delete k m) = (elems m)(k := None)" using Some by (simp add: Delete_def)
  have f: "elem_entry (filter (\<lambda>(j, _). j \<noteq> i) xs) j = (if j = i then None else elem_entry xs j)"
    for j and xs :: "(nat \<times> 'a \<times> 'b) list"
    by (induction xs) auto
  have "j \<noteq> i" if "elems m k' = Some j" "k' \<noteq> k" for j
    using elems_inj [OF inv] Some that by blast
  then show ?thesis
    by (auto simp: Load_alt [OF om_inv_Delete [OF inv]] Load_alt [OF inv] l e f split: option.splits)
qed

section \<open>Properties\<close>

text \<open>Sequences of updates, on the ordered map and on the mathematical map it stands for.\<close>

datatype ('k, 'v) om_op = StoreOp 'k 'v | DeleteOp 'k

fun om_step :: "('k, 'v) om_op \<Rightarrow> ('k, 'v) OrderedMap \<Rightarrow> ('k, 'v) OrderedMap" where
  "om_step (StoreOp k v) m = Store k v m"
| "om_step (DeleteOp k) m = Delete k m"

fun map_step :: "('k, 'v) om_op \<Rightarrow> ('k \<Rightarrow> 'v option) \<Rightarrow> ('k \<Rightarrow> 'v option)" where
  "map_step (StoreOp k v) f = f(k := Some v)"
| "map_step (DeleteOp k) f = f(k := None)"

lemma om_step_refines: "om_inv m \<Longrightarrow> om_inv (om_step a m) \<and> Load (om_step a m) = map_step a (Load m)"
  by (cases a) (auto simp: om_inv_Store Load_Store om_inv_Delete Load_Delete fun_eq_iff)

text \<open>
  The ordered map refines a map: after any sequence of \<open>Store\<close> and \<open>Delete\<close> calls, \<open>Load\<close> returns
  for every key what the same sequence of updates leaves in a mathematical map.
\<close>

theorem ordmap_refines_map:
  "Load (fold om_step ops OrderedMap_zero) = fold map_step ops (\<lambda>_. None)"
proof -
  have run: "om_inv (fold om_step ops m) \<and> Load (fold om_step ops m) = fold map_step ops (Load m)"
    if "om_inv m" for m :: "('a, 'b) OrderedMap"
    using that by (induction ops arbitrary: m) (simp_all add: om_step_refines)
  have "Load (OrderedMap_zero :: ('a, 'b) OrderedMap) = (\<lambda>_. None)"
    by (simp add: fun_eq_iff Load_def OrderedMap_zero_def)
  with run [OF om_inv_zero] show ?thesis by simp
qed

text \<open>
  Storing a key that is already present leaves its old entry in the list: the size counts both,
  and when the key is deleted afterwards the stale entry is still there, visible to \<open>Size\<close>.
\<close>

theorem store_keeps_stale_entry:
  assumes "om_inv m" "Load m k = Some v"
  shows "Size (Store k v' m) = Suc (Size m) \<and> Load (Delete k (Store k v' m)) k = None
     \<and> Size (Delete k (Store k v' m)) = Size m"
proof -
  have sz: "Size m = length (om_list m)" for m :: "('a, 'b) OrderedMap"
    by (simp add: Size_def om_list_def split: option.splits)
  have "elems (Store k v' m) k = Some (next_elem m)" using assms(1) by (simp add: elems_Store)
  then have "om_list (Delete k (Store k v' m)) = filter (\<lambda>(j, _). j \<noteq> next_elem m) (om_list m)"
    by (simp add: Delete_def om_list_def Store_simps)
  moreover have "filter (\<lambda>(j, _). j \<noteq> next_elem m) (om_list m) = om_list m"
    using assms(1) by (auto simp: om_inv_def filter_id_conv)
  ultimately show ?thesis using assms
    by (simp add: sz Store_simps Load_Delete om_inv_Store)
qed

theorem store_keeps_stale_entry_witness:
  "let m = Store ''a'' (1::nat) OrderedMap_zero in
   Size (Store ''a'' 2 m) = Suc (Size m) \<and> Load (Delete ''a'' (Store ''a'' 2 m)) ''a'' = None
   \<and> Size (Delete ''a'' (Store ''a'' 2 m)) = Size m"
  unfolding Let_def
  by (rule store_keeps_stale_entry [where v = 1]) (simp_all add: om_inv_Store Load_Store)

end
