(* ===== verification/Cipher.thy ===== *)
theory Cipher
  imports Go_Strings
begin

text \<open>
  The package \<open>cipher\<close>: the tables of methods, the key derivation, and the constructors of the stream
  and AEAD ciphers. The primitives of \<open>crypto/...\<close> and \<open>golang.org/x/crypto\<close> are the fields of the
  record \<open>prims\<close>; what is used of them is stated by \<open>aead_laws\<close>, \<open>stream_laws\<close> and \<open>md5_laws\<close>.
\<close>

section \<open>Primitives\<close>

text \<open>A \<open>cipher.AEAD\<close>: \<open>Seal\<close> and \<open>Open\<close> with their nonce, the overhead and the nonce size.\<close>

record aead =
  Seal :: "bytes \<Rightarrow> bytes \<Rightarrow> bytes"
  Open :: "bytes \<Rightarrow> bytes \<Rightarrow> bytes option"
  Overhead :: nat
  NonceSize :: nat

text \<open>
  Block ciphers are values of \<open>'blk\<close>, the states of the library's key streams values of \<open>'st\<close>;
  \<open>xks\<close> is \<open>XORKeyStream\<close> of such a state.
\<close>

record ('blk, 'st) prims =
  md5 :: "bytes \<Rightarrow> bytes"
  hkdf_sha1 :: "bytes \<Rightarrow> bytes \<Rightarrow> bytes \<Rightarrow> nat \<Rightarrow> bytes"
  aes_NewCipher :: "bytes \<Rightarrow> 'blk go"
  blowfish_NewCipher :: "bytes \<Rightarrow> 'blk go"
  NewCTR :: "'blk \<Rightarrow> bytes \<Rightarrow> 'st go"
  NewCFBEncrypter :: "'blk \<Rightarrow> bytes \<Rightarrow> 'st go"
  NewCFBDecrypter :: "'blk \<Rightarrow> bytes \<Rightarrow> 'st go"
  rc4_NewCipher :: "bytes \<Rightarrow> 'st go"
  chacha20_New :: "bytes \<Rightarrow> bytes \<Rightarrow> 'st go"
  salsa20_XOR :: "bytes \<Rightarrow> bytes \<Rightarrow> bytes \<Rightarrow> bytes"
  xks :: "'st \<Rightarrow> bytes \<Rightarrow> bytes \<times> 'st"
  NewGCM :: "'blk \<Rightarrow> aead go"
  chacha20poly1305_New :: "bytes \<Rightarrow> aead go"
  chacha20poly1305_NewX :: "bytes \<Rightarrow> aead go"

section \<open>Model of stream\_cipher.go\<close>

text \<open>A \<open>cipher.Stream\<close>: one of the library's, or the repository's wrapper around salsa20.\<close>

datatype 'st Stream = LibStream 'st | Salsa20Wrapper bytes bytes

text \<open>\<open>s.key[:32]\<close> panics on a shorter key, which the method table excludes.\<close>

fun XORKeyStream :: "('blk, 'st) prims \<Rightarrow> 'st Stream \<Rightarrow> bytes \<Rightarrow> bytes \<times> 'st Stream" where
  "XORKeyStream P (LibStream s) src = (case xks P s src of (dst, s') \<Rightarrow> (dst, LibStream s'))"
| "XORKeyStream P (Salsa20Wrapper key nonce) src =
     (salsa20_XOR P (take 32 key) nonce src, Salsa20Wrapper key nonce)"

record 'st StreamCipher =
  sc_key :: bytes
  sc_ivSize :: nat
  makeEncrypter :: "bytes \<Rightarrow> bytes \<Rightarrow> 'st Stream go"
  makeDecrypter :: "bytes \<Rightarrow> bytes \<Rightarrow> 'st Stream go"

definition KeySize :: "'st StreamCipher \<Rightarrow> nat" where
  "KeySize m = length (sc_key m)"

definition IVSize :: "'st StreamCipher \<Rightarrow> nat" where
  "IVSize m = sc_ivSize m"

definition GetEncrypter :: "'st StreamCipher \<Rightarrow> bytes \<Rightarrow> 'st Stream go" where
  "GetEncrypter m iv = makeEncrypter m (sc_key m) iv"

definition GetDecrypter :: "'st StreamCipher \<Rightarrow> bytes \<Rightarrow> 'st Stream go" where
  "GetDecrypter m iv = makeDecrypter m (sc_key m) iv"

definition lib :: "'st go \<Rightarrow> 'st Stream go" where
  "lib r = bind_go r (\<lambda>s. Ret (LibStream s))"

definition aesCTR :: "('blk, 'st) prims \<Rightarrow> bytes \<Rightarrow> bytes \<Rightarrow> 'st Stream go" where
  "aesCTR P key iv = lib (bind_go (aes_NewCipher P key) (\<lambda>blk. NewCTR P blk iv))"

definition AesCtr :: "('blk, 'st) prims \<Rightarrow> bytes \<Rightarrow> nat \<Rightarrow> 'st StreamCipher" where
  "AesCtr P key ivSize = \<lparr>sc_key = key, sc_ivSize = ivSize, makeEncrypter = aesCTR P, makeDecrypter = aesCTR P\<rparr>"

definition AesCfb :: "('blk, 'st) prims \<Rightarrow> bytes \<Rightarrow> nat \<Rightarrow> 'st StreamCipher" where
  "AesCfb P key ivSize = \<lparr>sc_key = key, sc_ivSize = ivSize,
     makeEncrypter = (\<lambda>key iv. lib (bind_go (aes_NewCipher P key) (\<lambda>blk. NewCFBEncrypter P blk iv))),
     makeDecrypter = (\<lambda>key iv. lib (bind_go (aes_NewCipher P key) (\<lambda>blk. NewCFBDecrypter P blk iv)))\<rparr>"

definition BfCfb :: "('blk, 'st) prims \<Rightarrow> bytes \<Rightarrow> nat \<Rightarrow> 'st StreamCipher" where
  "BfCfb P key ivSize = \<lparr>sc_key = key, sc_ivSize = ivSize,
     makeEncrypter = (\<lambda>key iv. lib (bind_go (blowfish_NewCipher P key) (\<lambda>blk. NewCFBEncrypter P blk iv))),
     makeDecrypter = (\<lambda>key iv. lib (bind_go (blowfish_NewCipher P key) (\<lambda>blk. NewCFBDecrypter P blk iv)))\<rparr>"

definition rc4MD5 :: "('blk, 'st) prims \<Rightarrow> bytes \<Rightarrow> bytes \<Rightarrow> 'st Stream go" where
  "rc4MD5 P key iv = lib (rc4_NewCipher P (md5 P (key @ iv)))"

definition Rc4Md5 :: "('blk, 'st) prims \<Rightarrow> bytes \<Rightarrow> nat \<Rightarrow> 'st StreamCipher" where
  "Rc4Md5 P key ivSize = \<lparr>sc_key = key, sc_ivSize = ivSize, makeEncrypter = rc4MD5 P, makeDecrypter = rc4MD5 P\<rparr>"

definition newSalsa20 :: "bytes \<Rightarrow> bytes \<Rightarrow> 'st Stream go" where
  "newSalsa20 key iv = Ret (Salsa20Wrapper key iv)"

definition Salsa20 :: "bytes \<Rightarrow> nat \<Rightarrow> 'st StreamCipher" where
  "Salsa20 key ivSize = \<lparr>sc_key = key, sc_ivSize = ivSize, makeEncrypter = newSalsa20, makeDecrypter = newSalsa20\<rparr>"

definition newChacha20 :: "('blk, 'st) prims \<Rightarrow> bytes \<Rightarrow> bytes \<Rightarrow> 'st Stream go" where
  "newChacha20 P key iv = lib (chacha20_New P key iv)"

definition Chacha20 :: "('blk, 'st) prims \<Rightarrow> bytes \<Rightarrow> nat \<Rightarrow> 'st StreamCipher" where
  "Chacha20 P key ivSize = \<lparr>sc_key = key, sc_ivSize = ivSize,
     makeEncrypter = newChacha20 P, makeDecrypter = newChacha20 P\<rparr>"

definition Chacha20Ietf :: "('blk, 'st) prims \<Rightarrow> bytes \<Rightarrow> nat \<Rightarrow> 'st StreamCipher" where
  "Chacha20Ietf P key ivSize = Chacha20 P key ivSize"

section \<open>Model of aead\_cipher.go\<close>

definition info :: bytes where
  "info = bytes_of ''ss-subkey''"

record AEADCipher =
  ac_key :: bytes
  ac_saltSize :: nat
  makeAEAD :: "bytes \<Rightarrow> aead go"

definition SaltSize :: "AEADCipher \<Rightarrow> nat" where
  "SaltSize c = ac_saltSize c"

text \<open>\<open>hkdfSha1\<close> fills the sub key; a read error of the key stream would only be logged.\<close>

definition hkdfSha1 :: "('blk, 'st) prims \<Rightarrow> bytes \<Rightarrow> bytes \<Rightarrow> bytes \<Rightarrow> nat \<Rightarrow> bytes" where
  "hkdfSha1 P key salt inf1 n = hkdf_sha1 P key salt inf1 n"

definition AEAD_GetEncrypter :: "('blk, 'st) prims \<Rightarrow> AEADCipher \<Rightarrow> bytes \<Rightarrow> aead go" where
  "AEAD_GetEncrypter P c salt = makeAEAD c (hkdfSha1 P (ac_key c) salt info (length (ac_key c)))"

definition AEAD_GetDecrypter :: "('blk, 'st) prims \<Rightarrow> AEADCipher \<Rightarrow> bytes \<Rightarrow> aead go" where
  "AEAD_GetDecrypter P c salt = makeAEAD c (hkdfSha1 P (ac_key c) salt info (length (ac_key c)))"

definition AesGcm :: "('blk, 'st) prims \<Rightarrow> bytes \<Rightarrow> nat \<Rightarrow> AEADCipher" where
  "AesGcm P key saltSize = \<lparr>ac_key = key, ac_saltSize = saltSize,
     makeAEAD = (\<lambda>key. bind_go (aes_NewCipher P key) (NewGCM P))\<rparr>"

definition Chacha20Poly1305 :: "('blk, 'st) prims \<Rightarrow> bytes \<Rightarrow> nat \<Rightarrow> AEADCipher" where
  "Chacha20Poly1305 P key saltSize = \<lparr>ac_key = key, ac_saltSize = saltSize, makeAEAD = chacha20poly1305_New P\<rparr>"

definition XChacha20Poly1305 :: "('blk, 'st) prims \<Rightarrow> bytes \<Rightarrow> nat \<Rightarrow> AEADCipher" where
  "XChacha20Poly1305 P key saltSize = \<lparr>ac_key = key, ac_saltSize = saltSize, makeAEAD = chacha20poly1305_NewX P\<rparr>"

section \<open>Model of cipher.go\<close>

text \<open>The constructors that the tables refer to, and the tables: key size, IV or salt size (and for
  AEAD the nonce and tag size), constructor.\<close>

datatype StreamCtor = AesCtrC | AesCfbC | Salsa20C | BfCfbC | Rc4Md5C | Chacha20C | Chacha20IetfC

datatype AEADCtor = AesGcmC | Chacha20Poly1305C | XChacha20Poly1305C

fun newStream :: "('blk, 'st) prims \<Rightarrow> StreamCtor \<Rightarrow> bytes \<Rightarrow> nat \<Rightarrow> 'st StreamCipher" where
  "newStream P AesCtrC = AesCtr P"
| "newStream P AesCfbC = AesCfb P"
| "newStream P Salsa20C = Salsa20"
| "newStream P BfCfbC = BfCfb P"
| "newStream P Rc4Md5C = Rc4Md5 P"
| "newStream P Chacha20C = Chacha20 P"
| "newStream P Chacha20IetfC = Chacha20Ietf P"

fun newAEAD :: "('blk, 'st) prims \<Rightarrow> AEADCtor \<Rightarrow> bytes \<Rightarrow> nat \<Rightarrow> AEADCipher" where
  "newAEAD P AesGcmC = AesGcm P"
| "newAEAD P Chacha20Poly1305C = Chacha20Poly1305 P"
| "newAEAD P XChacha20Poly1305C = XChacha20Poly1305 P"

definition streamCipherMap :: "(string \<times> nat \<times> nat \<times> StreamCtor) list" where
  "streamCipherMap = [
     (''aes-128-ctr'', 16, 16, AesCtrC), (''aes-192-ctr'', 24, 16, AesCtrC), (''aes-256-ctr'', 32, 16, AesCtrC),
     (''aes-128-cfb'', 16, 16, AesCfbC), (''aes-192-cfb'', 24, 16, AesCfbC), (''aes-256-cfb'', 32, 16, AesCfbC),
     (''salsa20'', 32, 8, Salsa20C), (''bf-cfb'', 16, 8, BfCfbC), (''rc4-md5'', 16, 16, Rc4Md5C),
     (''chacha20'', 32, 8, Chacha20C), (''chacha20-ietf'', 32, 12, Chacha20IetfC)]"

definition aeadCipherMap :: "(string \<times> nat \<times> nat \<times> nat \<times> nat \<times> AEADCtor) list" where
  "aeadCipherMap = [
     (''aes-128-gcm'', 16, 16, 12, 16, AesGcmC), (''aes-192-gcm'', 24, 24, 12, 16, AesGcmC),
     (''aes-256-gcm'', 32, 32, 12, 16, AesGcmC),
     (''chacha20-ietf-poly1305'', 32, 32, 12, 16, Chacha20Poly1305C),
     (''xchacha20-ietf-poly1305'', 32, 32, 12, 16, XChacha20Poly1305C)]"

text \<open>
  \<open>Kdf\<close>: \<open>h.Sum(res)\<close> appends the digest, \<open>prev\<close> is the last digest. The first argument bounds the
  number of rounds; \<open>None\<close> is running out of it.
\<close>

fun kdf_loop :: "nat \<Rightarrow> (bytes \<Rightarrow> bytes) \<Rightarrow> bytes \<Rightarrow> nat \<Rightarrow> bytes \<Rightarrow> bytes \<Rightarrow> bytes option" where
  "kdf_loop 0 h pw keyLen res prev = (if length res < keyLen then None else Some (take keyLen res))"
| "kdf_loop (Suc n) h pw keyLen res prev =
     (if length res < keyLen
      then (let d = h (prev @ pw) in kdf_loop n h pw keyLen (res @ d) d)
      else Some (take keyLen res))"

definition Kdf :: "('blk, 'st) prims \<Rightarrow> string \<Rightarrow> nat \<Rightarrow> bytes option" where
  "Kdf P password keyLen = kdf_loop keyLen (md5 P) (bytes_of password) keyLen [] []"

definition NewStreamCipher :: "('blk, 'st) prims \<Rightarrow> string \<Rightarrow> string \<Rightarrow> 'st StreamCipher go" where
  "NewStreamCipher P mname password = (case map_of streamCipherMap mname of
     None \<Rightarrow> Err ErrUnsupportedCipher
   | Some (ks, ivs, mk) \<Rightarrow> (case Kdf P password ks of None \<Rightarrow> Panic | Some key \<Rightarrow> Ret (newStream P mk key ivs)))"

definition NewAEADCipher :: "('blk, 'st) prims \<Rightarrow> string \<Rightarrow> string \<Rightarrow> AEADCipher go" where
  "NewAEADCipher P mname password = (case map_of aeadCipherMap mname of
     None \<Rightarrow> Err ErrUnsupportedCipher
   | Some (ks, salts, ns, ts, mk) \<Rightarrow> (case Kdf P password ks of None \<Rightarrow> Panic | Some key \<Rightarrow> Ret (newAEAD P mk key salts)))"

definition GetCipher ::
  "('blk, 'st) prims \<Rightarrow> string \<Rightarrow> string \<Rightarrow> ('st StreamCipher option \<times> AEADCipher option) go" where
  "GetCipher P mname password =
     (if mname = ''none'' then Ret (None, None)
      else if map_of streamCipherMap mname \<noteq> None
      then bind_go (NewStreamCipher P mname password) (\<lambda>sc. Ret (Some sc, None))
      else if map_of aeadCipherMap mname \<noteq> None
      then bind_go (NewAEADCipher P mname password) (\<lambda>ac. Ret (None, Some ac))
      else Err ErrUnsupportedCipher)"

section \<open>Documented behaviour of the primitives\<close>

definition md5_laws :: "('blk, 'st) prims \<Rightarrow> bool" where
  "md5_laws P \<longleftrightarrow> (\<forall>bs. length (md5 P bs) = 16)"

text \<open>What was sealed opens, and a ciphertext is \<open>Overhead\<close> bytes longer than its plaintext.\<close>

definition aead_laws :: "aead \<Rightarrow> bool" where
  "aead_laws A \<longleftrightarrow> (\<forall>nonce pt. length nonce = NonceSize A \<longrightarrow>
     Open A nonce (Seal A nonce pt) = Some pt \<and> length (Seal A nonce pt) = length pt + Overhead A)"

text \<open>
  A key stream goes on where the last call stopped, keeps lengths, and decrypting with the state made
  from the same key and IV undoes the encryption.
\<close>

definition stream_laws :: "('blk, 'st) prims \<Rightarrow> 'st \<Rightarrow> 'st \<Rightarrow> bool" where
  "stream_laws P e d \<longleftrightarrow>
     (\<forall>s a b. fst (xks P s (a @ b)) = fst (xks P s a) @ fst (xks P (snd (xks P s a)) b)
        \<and> snd (xks P s (a @ b)) = snd (xks P (snd (xks P s a)) b))
   \<and> (\<forall>s a. length (fst (xks P s a)) = length a)
   \<and> (\<forall>a. fst (xks P d (fst (xks P e a))) = a)"

section \<open>Key derivation\<close>

text \<open>\<open>EVP_BytesToKey\<close> with MD5, no salt and one iteration: the digests D(0), D(1), ... of the chain.\<close>

fun evp_digest :: "(bytes \<Rightarrow> bytes) \<Rightarrow> bytes \<Rightarrow> nat \<Rightarrow> bytes" where
  "evp_digest h pw 0 = h pw"
| "evp_digest h pw (Suc i) = h (evp_digest h pw i @ pw)"

definition evp_bytes :: "(bytes \<Rightarrow> bytes) \<Rightarrow> bytes \<Rightarrow> nat \<Rightarrow> bytes" where
  "evp_bytes h pw k = concat (map (evp_digest h pw) [0..<k])"

lemma length_evp_digest: "\<forall>bs. length (h bs) = 16 \<Longrightarrow> length (evp_digest h pw i) = 16"
  by (cases i) simp_all

lemma length_evp_bytes: "\<forall>bs. length (h bs) = 16 \<Longrightarrow> length (evp_bytes h pw k) = 16 * k"
  by (induction k) (simp_all add: evp_bytes_def length_evp_digest)

lemma evp_bytes_prefix:
  assumes "\<forall>bs. length (h bs) = 16" "n \<le> 16 * k" "k \<le> m"
  shows "take n (evp_bytes h pw m) = take n (evp_bytes h pw k)"
proof -
  have "[0..<m] = [0..<k] @ [k..<m]" using upt_add_eq_append [of 0 k "m - k"] assms(3) by simp
  then have "evp_bytes h pw m = evp_bytes h pw k @ concat (map (evp_digest h pw) [k..<m])"
    by (simp add: evp_bytes_def)
  then show ?thesis using assms(2) length_evp_bytes [OF assms(1), of pw k] by simp
qed

lemma kdf_loop_chain:
  assumes h: "\<forall>bs. length (h bs) = 16"
  shows "keyLen \<le> k + n \<Longrightarrow> prev = (if k = 0 then [] else evp_digest h pw (k - 1)) \<Longrightarrow>
    kdf_loop n h pw keyLen (evp_bytes h pw k) prev = Some (take keyLen (evp_bytes h pw keyLen))"
proof (induction n arbitrary: k prev)
  case 0
  then show ?case using length_evp_bytes [OF h, of pw k] evp_bytes_prefix [OF h, of keyLen keyLen k pw]
    by simp
next
  case (Suc n)
  show ?case
  proof (cases "16 * k < keyLen")
    case True
    have d: "h (prev @ pw) = evp_digest h pw k" using Suc.prems(2) by (cases k) simp_all
    have "evp_bytes h pw (Suc k) = evp_bytes h pw k @ evp_digest h pw k" by (simp add: evp_bytes_def)
    then show ?thesis using True Suc.IH [of "Suc k" "evp_digest h pw k"] Suc.prems(1) d
      by (simp add: length_evp_bytes [OF h])
  next
    case False
    then show ?thesis
      using length_evp_bytes [OF h, of pw k] evp_bytes_prefix [OF h, of keyLen k "max k keyLen" pw]
        evp_bytes_prefix [OF h, of keyLen keyLen "max k keyLen" pw] by simp
  qed
qed

lemma Kdf_chain:
  assumes "md5_laws P"
  shows "Kdf P password n = Some (take n (evp_bytes (md5 P) (bytes_of password) n))"
    and "length (take n (evp_bytes (md5 P) (bytes_of password) n)) = n"
proof -
  have h: "\<forall>bs. length (md5 P bs) = 16" using assms by (simp add: md5_laws_def)
  show "Kdf P password n = Some (take n (evp_bytes (md5 P) (bytes_of password) n))"
    unfolding Kdf_def using kdf_loop_chain [OF h, of n 0 n "[]"] by (simp add: evp_bytes_def)
  show "length (take n (evp_bytes (md5 P) (bytes_of password) n)) = n"
    using length_evp_bytes [OF h] by simp
qed

lemma newStream_sizes: "KeySize (newStream P c key ivs) = length key" "IVSize (newStream P c key ivs) = ivs"
  by (cases c; simp add: KeySize_def IVSize_def AesCtr_def AesCfb_def BfCfb_def Salsa20_def Rc4Md5_def
      Chacha20_def Chacha20Ietf_def)+

lemma newAEAD_sizes: "ac_key (newAEAD P c key salts) = key" "SaltSize (newAEAD P c key salts) = salts"
  by (cases c; simp add: SaltSize_def AesGcm_def Chacha20Poly1305_def XChacha20Poly1305_def)+

text \<open>A concrete instance of the primitives: a keystream of zeros and a tag of constant bytes.\<close>

definition toy_aead :: aead where
  "toy_aead = \<lparr>Seal = (\<lambda>n pt. pt @ replicate 16 7),
     Open = (\<lambda>n ct. if 16 \<le> length ct \<and> drop (length ct - 16) ct = replicate 16 7
                     then Some (take (length ct - 16) ct) else None),
     Overhead = 16, NonceSize = 12\<rparr>"

definition toy_prims :: "(unit, unit) prims" where
  "toy_prims = \<lparr>md5 = (\<lambda>bs. replicate 16 (byte_of (length bs))), hkdf_sha1 = (\<lambda>k s i n. replicate n 0),
     aes_NewCipher = (\<lambda>_. Ret ()), blowfish_NewCipher = (\<lambda>_. Ret ()),
     NewCTR = (\<lambda>_ _. Ret ()), NewCFBEncrypter = (\<lambda>_ _. Ret ()), NewCFBDecrypter = (\<lambda>_ _. Ret ()),
     rc4_NewCipher = (\<lambda>_. Ret ()), chacha20_New = (\<lambda>_ _. Ret ()), salsa20_XOR = (\<lambda>_ _ src. src),
     xks = (\<lambda>s src. (src, s)), NewGCM = (\<lambda>_. Ret toy_aead),
     chacha20poly1305_New = (\<lambda>_. Ret toy_aead), chacha20poly1305_NewX = (\<lambda>_. Ret toy_aead)\<rparr>"

lemma toy_laws: "md5_laws toy_prims" "aead_laws toy_aead" "stream_laws toy_prims () ()"
  by (simp_all add: md5_laws_def aead_laws_def stream_laws_def toy_prims_def toy_aead_def)

section \<open>Properties\<close>

text \<open>
  C36. The key derivation terminates and is OpenSSL's \<open>EVP_BytesToKey\<close>: for every password and key
  length the loop ends and returns the first bytes of the chain of MD5 digests, as many as asked for.
\<close>

theorem Kdf_is_EVP_BytesToKey:
  assumes "md5_laws P"
  shows "\<exists>key. Kdf P password n = Some key \<and> length key = n
    \<and> key = take n (evp_bytes (md5 P) (bytes_of password) n)"
  using Kdf_chain [OF assms] by blast

theorem Kdf_is_EVP_BytesToKey_witness:
  "\<exists>key. Kdf toy_prims ''secret'' 24 = Some key \<and> length key = 24"
  using Kdf_is_EVP_BytesToKey [OF toy_laws(1), of "''secret''" 24] by blast

text \<open>
  C40. Every method of the two tables yields a cipher with the key and the IV or salt size of its
  table entry, \<open>none\<close> yields no cipher, any other name is refused, and no call panics.
\<close>

theorem GetCipher_sizes:
  assumes "md5_laws P"
  shows "case GetCipher P mname password of
     Ret (Some sc, None) \<Rightarrow> (\<exists>ctor. (mname, KeySize sc, IVSize sc, ctor) \<in> set streamCipherMap)
   | Ret (None, Some ac) \<Rightarrow> (\<exists>ns ts ctor. (mname, length (ac_key ac), SaltSize ac, ns, ts, ctor) \<in> set aeadCipherMap)
   | Ret (None, None) \<Rightarrow> mname = ''none''
   | Err e \<Rightarrow> e = ErrUnsupportedCipher \<and> mname \<notin> fst ` set streamCipherMap \<and> mname \<notin> fst ` set aeadCipherMap
   | _ \<Rightarrow> False"
proof (cases "mname = ''none''")
  case False
  show ?thesis
  proof (cases "map_of streamCipherMap mname")
    case (Some e)
    then obtain ks ivs c where "map_of streamCipherMap mname = Some (ks, ivs, c)" by (cases e) auto
    then show ?thesis using map_of_SomeD [of streamCipherMap mname] False
      by (auto simp: GetCipher_def NewStreamCipher_def Kdf_chain [OF assms] newStream_sizes
          Kdf_chain(2) [OF assms, simplified])
  next
    case ns: None
    show ?thesis
    proof (cases "map_of aeadCipherMap mname")
      case (Some e)
      then obtain ks ss nz ts c where "map_of aeadCipherMap mname = Some (ks, ss, nz, ts, c)" by (cases e) auto
      then show ?thesis using map_of_SomeD [of aeadCipherMap mname] False ns
        by (auto simp: GetCipher_def NewAEADCipher_def Kdf_chain [OF assms] newAEAD_sizes
            Kdf_chain(2) [OF assms, simplified])
    next
      case None
      then show ?thesis using ns False by (simp add: GetCipher_def map_of_eq_None_iff)
    qed
  qed
qed (simp add: GetCipher_def)

theorem GetCipher_sizes_witness:
  "\<exists>ac. GetCipher toy_prims ''aes-256-gcm'' ''secret'' = Ret (None, Some ac) \<and> SaltSize ac = 32"
proof -
  obtain ac where ac: "GetCipher toy_prims ''aes-256-gcm'' ''secret'' = Ret (None, Some ac)"
    by (simp add: GetCipher_def NewAEADCipher_def streamCipherMap_def aeadCipherMap_def Kdf_chain(1) [OF toy_laws(1)])
  then have "SaltSize ac = 32"
    using GetCipher_sizes [OF toy_laws(1), of "''aes-256-gcm''" "''secret''"] by (simp add: aeadCipherMap_def)
  with ac show ?thesis by blast
qed

end
