(* ===== verification/Bufferpool.thy ===== *)
theory Bufferpool
  imports Go_Wire
begin

text \<open>
  The package \<open>bufferpool\<close>: the sizes of the pooled buffers, and how a source is cut into pieces when
  it is copied through such a buffer. A pool hands out whole buffers whose old contents no caller
  reads, so the pools themselves need no state.
\<close>

definition MaxAddressBufferSize :: nat where "MaxAddressBufferSize = 259"
definition MaxSocksBufferSize :: nat where "MaxSocksBufferSize = 515"
definition MaxUdpBufferSize :: nat where "MaxUdpBufferSize = 16 * 1024"
definition MaxTcpBufferSize :: nat where "MaxTcpBufferSize = 16 * 1024"

text \<open>The non-empty reads of a source through a buffer of \<open>MaxTcpBufferSize\<close> bytes.\<close>

definition chunks_of :: "reader \<Rightarrow> bytes list" where
  "chunks_of r = filter (\<lambda>d. d \<noteq> []) (rd_reads MaxTcpBufferSize r)"

lemma concat_filter_Nil: "concat (filter (\<lambda>d. d \<noteq> []) xs) = concat xs"
  by (induction xs) auto

lemma MaxTcpBufferSize_pos: "0 < MaxTcpBufferSize"
  by (simp add: MaxTcpBufferSize_def)

lemma concat_reads: "concat (rd_reads MaxTcpBufferSize r) = concat r"
  using rd_reads_props [OF MaxTcpBufferSize_pos] by blast

lemma chunks_of_concat: "concat (chunks_of r) = concat r"
  by (simp add: chunks_of_def concat_filter_Nil concat_reads)

lemma chunks_of_length: "\<forall>d \<in> set (chunks_of r). length d \<le> MaxTcpBufferSize \<and> d \<noteq> []"
  using rd_reads_props [OF MaxTcpBufferSize_pos, of r] by (simp add: chunks_of_def)

text \<open>A byte slice as a source, as \<open>bytes.NewReader(b)\<close> delivers it.\<close>

definition slice_reader :: "bytes \<Rightarrow> reader" where
  "slice_reader b = (if b = [] then [] else [b])"

lemma concat_slice_reader: "concat (slice_reader b) = b"
  by (simp add: slice_reader_def)

definition msg_chunks :: "bytes \<Rightarrow> bytes list" where
  "msg_chunks b = chunks_of (slice_reader b)"

lemma msg_chunks_concat: "concat (msg_chunks b) = b"
  by (simp add: msg_chunks_def chunks_of_concat concat_slice_reader)

lemma msg_chunks_length: "\<forall>d \<in> set (msg_chunks b). length d \<le> MaxTcpBufferSize \<and> d \<noteq> []"
  unfolding msg_chunks_def by (rule chunks_of_length)

end
