(* ===== verification/Aead_Conn.thy ===== *)
theory Aead_Conn
  imports Cipher Interfaces Bufferpool
begin

unbundle bit_operations_syntax

text \<open>
  The package \<open>ss/aead\<close>: the AEAD framing of TCP streams and UDP packets. A stream is a salt followed
  by chunks, each an encrypted length and an encrypted payload with consecutive nonces. A reader's or
  writer's internal buffer is only live during a call, except for the undelivered rest of a chunk.
\<close>

section \<open>Model of stream\_conn.go\<close>

fun increment :: "bytes \<Rightarrow> bytes" where
  "increment [] = []"
| "increment (b # nonce) = (if b + 1 \<noteq> 0 then (b + 1) # nonce else (b + 1) # increment nonce)"

record streamReader =
  r_AEAD :: aead
  remainbuf :: bytes
  r_nonce :: bytes

definition newStreamReader :: "aead \<Rightarrow> streamReader" where
  "newStreamReader A = \<lparr>r_AEAD = A, remainbuf = [], r_nonce = replicate (NonceSize A) 0\<rparr>"

text \<open>\<open>r.Open(buf[:0], r.nonce, buf, nil)\<close> followed by \<open>increment(r.nonce)\<close>: decrypts in place.\<close>

definition open_in_place :: "bytes \<Rightarrow> (streamReader \<times> conn, bytes) proc" where
  "open_in_place buf = (\<lambda>(r, c).
     (case Open (r_AEAD r) (r_nonce r) buf of
        None \<Rightarrow> (Err ErrDecrypt, (r\<lparr>r_nonce := increment (r_nonce r)\<rparr>, c))
      | Some pt \<Rightarrow> (Ret (copy_into buf 0 pt), (r\<lparr>r_nonce := increment (r_nonce r)\<rparr>, c))))"

definition read_raw :: "nat \<Rightarrow> (streamReader \<times> conn, bytes) proc" where
  "read_raw n = (\<lambda>(r, c). case readFull_conn n c of (x, c') \<Rightarrow> (x, (r, c')))"

text \<open>One chunk. The buffer of the reader has \<open>MaxTcpBufferSize + Overhead\<close> bytes.\<close>

definition streamReader_read :: "(streamReader \<times> conn, bytes) proc" where
  "streamReader_read s = (case s of (r, _) \<Rightarrow>
     (let oh = Overhead (r_AEAD r); bufLen = MaxTcpBufferSize + oh in
      bindP (read_raw (2 + oh)) (\<lambda>buf.
      bindP (open_in_place buf) (\<lambda>buf.
        let size = unat (buf ! 0) * 256 + unat ((buf ! 1) AND 0xFF) in
        if MaxTcpBufferSize + oh < size then errP ErrPayloadOverflow
        else if bufLen < size + oh then liftP Panic
        else bindP (read_raw (size + oh)) (\<lambda>buf.
             bindP (open_in_place buf) (\<lambda>buf. retP (take size buf))))) s))"

text \<open>\<open>Read(b)\<close> with \<open>len(b) = k\<close>: the bytes it copies to \<open>b\<close>.\<close>

definition streamReader_Read :: "nat \<Rightarrow> (streamReader \<times> conn, bytes) proc" where
  "streamReader_Read k = (\<lambda>(r, c).
     if remainbuf r \<noteq> [] then (Ret (take k (remainbuf r)), (r\<lparr>remainbuf := drop k (remainbuf r)\<rparr>, c))
     else (case streamReader_read (r, c) of
         (Ret p, (r', c')) \<Rightarrow>
           (Ret (take k p), (if min k (length p) < length p then r'\<lparr>remainbuf := drop k p\<rparr> else r', c'))
       | (Err e, s') \<Rightarrow> (Err e, s')
       | (Panic, s') \<Rightarrow> (Panic, s')))"

text \<open>
  \<open>WriteTo(w)\<close>: the number of bytes written, the error, and the sink. The first argument bounds the
  number of chunks; \<open>None\<close> is running out of it or a panic of the reader.
\<close>

fun writeTo_loop :: "nat \<Rightarrow> nat \<Rightarrow> conn \<Rightarrow> streamReader \<times> conn
    \<Rightarrow> (nat \<times> error option \<times> conn) option \<times> streamReader \<times> conn" where
  "writeTo_loop 0 n w s = (None, s)"
| "writeTo_loop (Suc fuel) n w s = (case streamReader_read s of
     (Ret p, s') \<Rightarrow>
       (if p \<noteq> [] then
          (case write_conn p w of
             (Ret _, w') \<Rightarrow> writeTo_loop fuel (n + length p) w' s'
           | (Err e, w') \<Rightarrow> (Some (n, Some e, w'), s')
           | (Panic, w') \<Rightarrow> (None, s'))
        else writeTo_loop fuel n w s')
   | (Err e, s') \<Rightarrow> (Some (n, if e = EOF then None else Some e, w), s')
   | (Panic, s') \<Rightarrow> (None, s'))"

definition streamReader_WriteTo :: "conn \<Rightarrow> streamReader \<times> conn
    \<Rightarrow> (nat \<times> error option \<times> conn) option \<times> streamReader \<times> conn" where
  "streamReader_WriteTo w = (\<lambda>(r, c).
     let fuel = Suc (length (concat (inp c))) in
     if remainbuf r \<noteq> [] then
       (case write_conn (remainbuf r) w of
          (Ret _, w') \<Rightarrow> writeTo_loop fuel (length (remainbuf r)) w' (r\<lparr>remainbuf := []\<rparr>, c)
        | (Err e, w') \<Rightarrow> (Some (0, Some e, w'), (r, c))
        | (Panic, w') \<Rightarrow> (None, (r, c)))
     else writeTo_loop fuel 0 w (r, c))"

record streamWriter =
  w_AEAD :: aead
  w_nonce :: bytes

definition newStreamWriter :: "aead \<Rightarrow> streamWriter" where
  "newStreamWriter A = \<lparr>w_AEAD = A, w_nonce = replicate (NonceSize A) 0\<rparr>"

text \<open>One chunk on the wire and the writer after it; both calls of \<open>Seal\<close> fill the buffer exactly.\<close>

definition seal_chunk :: "streamWriter \<Rightarrow> bytes \<Rightarrow> bytes \<times> streamWriter" where
  "seal_chunk w data =
     (let nr = length data;
          hdr = Seal (w_AEAD w) (w_nonce w) [byte_of (nr div 256), byte_of nr];
          n1 = increment (w_nonce w);
          body = Seal (w_AEAD w) n1 data
      in (hdr @ body, w\<lparr>w_nonce := increment n1\<rparr>))"

text \<open>The loop of \<open>ReadFrom(r)\<close> over what the successive reads from \<open>r\<close> return.\<close>

fun readFrom_loop :: "nat \<Rightarrow> bytes list \<Rightarrow> streamWriter \<times> conn \<Rightarrow> (nat \<times> error option) \<times> streamWriter \<times> conn" where
  "readFrom_loop n [] s = ((n, None), s)"
| "readFrom_loop n (data # reads) (w, c) =
     (if data \<noteq> [] then
        (case seal_chunk w data of (buf, w') \<Rightarrow>
          (case write_conn buf c of
             (Ret _, c') \<Rightarrow> readFrom_loop (n + length data) reads (w', c')
           | (Err e, c') \<Rightarrow> ((n + length data, Some e), (w', c'))
           | (Panic, c') \<Rightarrow> ((n + length data, Some ErrConnClosed), (w', c'))))
      else readFrom_loop n reads (w, c))"

definition streamWriter_ReadFrom :: "reader \<Rightarrow> streamWriter \<times> conn \<Rightarrow> (nat \<times> error option) \<times> streamWriter \<times> conn" where
  "streamWriter_ReadFrom r s = readFrom_loop 0 (rd_reads MaxTcpBufferSize r) s"

text \<open>\<open>bytes.NewReader(b)\<close> is at its end at once when \<open>b\<close> is empty.\<close>

definition streamWriter_Write :: "bytes \<Rightarrow> streamWriter \<times> conn \<Rightarrow> (nat \<times> error option) \<times> streamWriter \<times> conn" where
  "streamWriter_Write b s = streamWriter_ReadFrom (slice_reader b) s"

text \<open>The connection; \<open>rnd n\<close> is what \<open>io.ReadFull(rand.Reader, ...)\<close> delivers for \<open>n\<close> bytes.\<close>

record streamConn =
  sConn :: conn
  sCipher :: AEADCipher
  sR :: "streamReader option"
  sW :: "streamWriter option"

definition NewStreamConn :: "conn \<Rightarrow> AEADCipher \<Rightarrow> streamConn" where
  "NewStreamConn c ci = \<lparr>sConn = c, sCipher = ci, sR = None, sW = None\<rparr>"

definition initReader :: "('blk, 'st) prims \<Rightarrow> (streamConn, unit) proc" where
  "initReader P sc = (case readFull_conn (SaltSize (sCipher sc)) (sConn sc) of
     (Ret salt, c') \<Rightarrow> (case AEAD_GetDecrypter P (sCipher sc) salt of
         Ret cp \<Rightarrow> (Ret (), sc\<lparr>sConn := c', sR := Some (newStreamReader cp)\<rparr>)
       | Err e \<Rightarrow> (Err e, sc\<lparr>sConn := c'\<rparr>)
       | Panic \<Rightarrow> (Panic, sc\<lparr>sConn := c'\<rparr>))
   | (Err e, c') \<Rightarrow> (Err e, sc\<lparr>sConn := c'\<rparr>)
   | (Panic, c') \<Rightarrow> (Panic, sc\<lparr>sConn := c'\<rparr>))"

definition initWriter :: "('blk, 'st) prims \<Rightarrow> (nat \<Rightarrow> bytes go) \<Rightarrow> (streamConn, unit) proc" where
  "initWriter P rnd sc = (case rnd (SaltSize (sCipher sc)) of
     Ret salt \<Rightarrow> (case write_conn salt (sConn sc) of
         (Ret _, c') \<Rightarrow> (case AEAD_GetEncrypter P (sCipher sc) salt of
             Ret cp \<Rightarrow> (Ret (), sc\<lparr>sConn := c', sW := Some (newStreamWriter cp)\<rparr>)
           | Err e \<Rightarrow> (Err e, sc\<lparr>sConn := c'\<rparr>)
           | Panic \<Rightarrow> (Panic, sc\<lparr>sConn := c'\<rparr>))
       | (Err e, c') \<Rightarrow> (Err e, sc\<lparr>sConn := c'\<rparr>)
       | (Panic, c') \<Rightarrow> (Panic, sc\<lparr>sConn := c'\<rparr>))
   | Err e \<Rightarrow> (Err e, sc)
   | Panic \<Rightarrow> (Panic, sc))"

definition with_reader :: "('blk, 'st) prims \<Rightarrow> (streamReader \<times> conn, 'a) proc \<Rightarrow> (streamConn, 'a) proc" where
  "with_reader P f =
     bindP (\<lambda>sc. if sR sc = None then initReader P sc else (Ret (), sc))
       (\<lambda>_ sc. case f (the (sR sc), sConn sc) of (x, (r, c)) \<Rightarrow> (x, sc\<lparr>sR := Some r, sConn := c\<rparr>))"

definition streamConn_Read :: "('blk, 'st) prims \<Rightarrow> nat \<Rightarrow> (streamConn, bytes) proc" where
  "streamConn_Read P k = with_reader P (streamReader_Read k)"

definition streamConn_WriteTo :: "('blk, 'st) prims \<Rightarrow> conn \<Rightarrow> (streamConn, (nat \<times> error option \<times> conn) option) proc" where
  "streamConn_WriteTo P w = with_reader P (\<lambda>s. case streamReader_WriteTo w s of (res, s') \<Rightarrow> (Ret res, s'))"

definition with_writer :: "('blk, 'st) prims \<Rightarrow> (nat \<Rightarrow> bytes go)
    \<Rightarrow> (streamWriter \<times> conn \<Rightarrow> (nat \<times> error option) \<times> streamWriter \<times> conn) \<Rightarrow> (streamConn, nat \<times> error option) proc" where
  "with_writer P rnd f =
     bindP (\<lambda>sc. if sW sc = None then initWriter P rnd sc else (Ret (), sc))
       (\<lambda>_ sc. case f (the (sW sc), sConn sc) of (x, (w, c)) \<Rightarrow> (Ret x, sc\<lparr>sW := Some w, sConn := c\<rparr>))"

definition streamConn_Write :: "('blk, 'st) prims \<Rightarrow> (nat \<Rightarrow> bytes go) \<Rightarrow> bytes \<Rightarrow> (streamConn, nat \<times> error option) proc" where
  "streamConn_Write P rnd b = with_writer P rnd (streamWriter_Write b)"

definition streamConn_ReadFrom :: "('blk, 'st) prims \<Rightarrow> (nat \<Rightarrow> bytes go) \<Rightarrow> reader \<Rightarrow> (streamConn, nat \<times> error option) proc" where
  "streamConn_ReadFrom P rnd r = with_writer P rnd (streamWriter_ReadFrom r)"

section \<open>Model of packet\_conn.go\<close>

definition zerononce :: bytes where "zerononce = replicate 128 0"

definition packet_WriteTo :: "('blk, 'st) prims \<Rightarrow> (nat \<Rightarrow> bytes go) \<Rightarrow> AEADCipher \<Rightarrow> bytes \<Rightarrow> string
    \<Rightarrow> (pconn, nat) proc" where
  "packet_WriteTo P rnd ci b addr c =
     (case bind_go (rnd (SaltSize ci)) (\<lambda>salt. bind_go (AEAD_GetEncrypter P ci salt) (\<lambda>A.
        if MaxUdpBufferSize < SaltSize ci + length b + Overhead A then Err ErrShortBuffer
        else Ret (salt @ Seal A (take (NonceSize A) zerononce) b)))
      of Ret pkt \<Rightarrow> (case write_pconn pkt addr c of
             (Ret _, c') \<Rightarrow> (Ret (length b), c') | (Err e, c') \<Rightarrow> (Err e, c') | (Panic, c') \<Rightarrow> (Panic, c'))
       | Err e \<Rightarrow> (Err e, c) | Panic \<Rightarrow> (Panic, c))"

text \<open>\<open>ReadFrom(b)\<close> with \<open>len(b) = k\<close>: the payload it leaves at the front of \<open>b\<close>, and the sender.\<close>

definition packet_decrypt :: "('blk, 'st) prims \<Rightarrow> AEADCipher \<Rightarrow> nat \<Rightarrow> bytes \<Rightarrow> bytes go" where
  "packet_decrypt P ci k pkt =
     (let n = length pkt; saltLen = SaltSize ci in
      if n < saltLen then Err ErrShortBuffer
      else bind_go (AEAD_GetDecrypter P ci (take saltLen pkt)) (\<lambda>A.
        let dataLen = int n - int (saltLen + Overhead A) in
        if dataLen < 0 \<or> int (k - saltLen) < dataLen then Err ErrShortBuffer
        else of_option ErrDecrypt (Open A (take (NonceSize A) zerononce) (drop saltLen pkt))))"

definition packet_ReadFrom :: "('blk, 'st) prims \<Rightarrow> AEADCipher \<Rightarrow> nat \<Rightarrow> (pconn, bytes \<times> string) proc" where
  "packet_ReadFrom P ci k c = (case read_pconn k c of
     (Ret (pkt, addr), c') \<Rightarrow> (bind_go (packet_decrypt P ci k pkt) (\<lambda>res. Ret (res, addr)), c')
   | (Err e, c') \<Rightarrow> (Err e, c')
   | (Panic, c') \<Rightarrow> (Panic, c'))"

section \<open>Nonces\<close>

lemma length_increment [simp]: "length (increment n) = length n"
  by (induction n rule: increment.induct) auto

lemma unat_byte_Suc: "(b :: byte) + 1 \<noteq> 0 \<Longrightarrow> unat (b + 1) = unat b + 1"
  by (metis Suc_eq_plus1 unatSuc add.commute)

lemma unat_255: "unat (255 :: byte) = 255"
  by simp

lemma le_val_increment: "le_val (increment n) = (le_val n + 1) mod 256 ^ length n"
proof (induction n)
  case (Cons b n)
  show ?case
  proof (cases "b + 1 = 0")
    case True
    then have "b = - 1" by (simp add: eq_neg_iff_add_eq_0)
    then have "b = 255" by simp
    then have "unat b = 255" by (simp only: unat_255)
    then show ?thesis using True Cons
      by (simp add: mult_mod_right) 
  next
    case False
    have "le_val ((b + 1) # n) < 256 ^ length ((b + 1) # n)" by (rule le_val_bound)
    then show ?thesis using False unat_byte_Suc [OF False] by simp
  qed
qed simp

lemma le_val_increments: "le_val ((increment ^^ i) n) = (le_val n + i) mod 256 ^ length n"
proof (induction i)
  case 0
  then show ?case using le_val_bound [of n] by simp
next
  case (Suc i)
  have "length ((increment ^^ i) n) = length n" by (induction i) simp_all
  then show ?case using Suc by (simp add: le_val_increment mod_Suc_eq)
qed

lemma mod_add_inj_aux:
  fixes a i j M :: nat
  assumes "(a + i) mod M = (a + j) mod M" "j < M" "i < j"
  shows False
proof -
  have "M dvd (a + j) - (a + i)"
    using assms(1,3) mod_eq_dvd_iff_nat [of "a + i" "a + j" M] by simp
  then have "M dvd j - i" by simp
  then have "M \<le> j - i" using assms(3) by (intro dvd_imp_le) simp_all
  then show False using assms(2) by linarith
qed

lemma mod_add_inj:
  fixes a i j M :: nat
  assumes "(a + i) mod M = (a + j) mod M" "i < M" "j < M"
  shows "i = j"
  using assms mod_add_inj_aux [of a i M j] mod_add_inj_aux [of a j M i] by (metis nat_neq_iff)

section \<open>Chunks\<close>

definition chunk_ok :: "bytes \<Rightarrow> bool" where
  "chunk_ok m \<longleftrightarrow> length m \<le> MaxTcpBufferSize"

definition chunk_sync :: "streamWriter \<Rightarrow> streamReader \<times> conn \<Rightarrow> bytes \<Rightarrow> bool" where
  "chunk_sync w s b \<longleftrightarrow> r_AEAD (fst s) = w_AEAD w \<and> r_nonce (fst s) = w_nonce w
     \<and> length (w_nonce w) = NonceSize (w_AEAD w) \<and> aead_laws (w_AEAD w)
     \<and> remainbuf (fst s) = [] \<and> concat (inp (snd s)) = b"

lemma read_raw_ok:
  assumes "concat (inp c) = bs @ rest" "length bs = n"
  shows "\<exists>c'. read_raw n (r, c) = (Ret bs, (r, c')) \<and> concat (inp c') = rest"
  using readFull_conn_enough [of n c] assms by (auto simp: read_raw_def)

lemma open_sealed:
  assumes "aead_laws (r_AEAD r)" "length (r_nonce r) = NonceSize (r_AEAD r)"
  shows "open_in_place (Seal (r_AEAD r) (r_nonce r) pt) (r, c)
     = (Ret (pt @ drop (length pt) (Seal (r_AEAD r) (r_nonce r) pt)), (r\<lparr>r_nonce := increment (r_nonce r)\<rparr>, c))"
  using assms by (simp add: open_in_place_def aead_laws_def copy_into_def)

lemma and_FF: "(b :: byte) AND 0xFF = b"
proof -
  have "(0xFF :: byte) = - 1" by simp
  then show ?thesis by (simp only: and.right_neutral)
qed

lemma read_chunk:
  assumes sync: "chunk_sync w (r, c) (fst (seal_chunk w m) @ rest)" and m: "chunk_ok m"
  shows "\<exists>r' c'. streamReader_read (r, c) = (Ret m, (r', c')) \<and> chunk_sync (snd (seal_chunk w m)) (r', c') rest"
proof -
  let ?A = "w_AEAD w" and ?n = "w_nonce w"
  let ?len = "[byte_of (length m div 256), byte_of (length m)]"
  let ?hdr = "Seal ?A ?n ?len" and ?body = "Seal ?A (increment ?n) m"
  from sync have r: "r_AEAD r = ?A" "r_nonce r = ?n" and ln: "length ?n = NonceSize ?A" and laws: "aead_laws ?A"
    and c: "concat (inp c) = ?hdr @ ?body @ rest" and rb: "remainbuf r = []"
    by (simp_all add: chunk_sync_def seal_chunk_def Let_def)
  have lh: "length ?hdr = 2 + Overhead ?A" and lb: "length ?body = length m + Overhead ?A"
    using laws ln by (simp_all add: aead_laws_def)
  obtain c1 where c1: "read_raw (2 + Overhead ?A) (r, c) = (Ret ?hdr, (r, c1))" "concat (inp c1) = ?body @ rest"
    using read_raw_ok [OF c lh] by blast
  define r1 where "r1 = r\<lparr>r_nonce := increment ?n\<rparr>"
  have o1: "open_in_place ?hdr (r, c1) = (Ret (?len @ drop 2 ?hdr), (r1, c1))"
    using open_sealed [of r ?len c1] r ln laws by (simp add: r1_def numeral_2_eq_2)
  obtain c2 where c2: "read_raw (length m + Overhead ?A) (r1, c1) = (Ret ?body, (r1, c2))" "concat (inp c2) = rest"
    using read_raw_ok [OF c1(2) lb] by blast
  define r2 where "r2 = r1\<lparr>r_nonce := increment (increment ?n)\<rparr>"
  have o2: "open_in_place ?body (r1, c2) = (Ret (m @ drop (length m) ?body), (r2, c2))"
    using open_sealed [of r1 m c2] r ln laws by (simp add: r1_def r2_def)
  have "length m div 256 mod 256 * 256 + length m mod 256 = length m" "length m \<le> MaxTcpBufferSize"
    using m by (simp_all add: chunk_ok_def MaxTcpBufferSize_def)
  then have "streamReader_read (r, c) = (Ret m, (r2, c2))"
    using r c1 o1 c2 o2 by (simp add: streamReader_read_def Let_def go_simps and_FF)
  moreover have "chunk_sync (snd (seal_chunk w m)) (r2, c2) rest"
    using r ln laws rb c2 by (simp add: chunk_sync_def seal_chunk_def Let_def r1_def r2_def)
  ultimately show ?thesis by blast
qed

interpretation aead: framed_stream chunk_ok seal_chunk streamReader_read chunk_sync
proof
  fix m s f s' r rest
  assume "chunk_ok m" "seal_chunk s m = (f, s')" "chunk_sync s r (f @ rest)"
  then show "\<exists>r'. streamReader_read r = (Ret m, r') \<and> chunk_sync s' r' rest"
    using read_chunk [of s "fst r" "snd r" m rest] by auto
qed

section \<open>Streams\<close>

lemma readFrom_loop_ok:
  assumes "\<not> wfail c" "aead.frames w (filter (\<lambda>d. d \<noteq> []) reads) = (f, w')"
  shows "readFrom_loop n reads (w, c) = ((n + length (concat reads), None), (w', c\<lparr>out := out c @ f\<rparr>))"
  using assms
proof (induction reads arbitrary: n w c f)
  case (Cons data reads)
  show ?case
  proof (cases "data = []")
    case False
    obtain buf w1 where s: "seal_chunk w data = (buf, w1)" by fastforce
    then obtain g where g: "aead.frames w1 (filter (\<lambda>d. d \<noteq> []) reads) = (g, w')" "f = buf @ g"
      using Cons.prems False by (auto split: prod.splits)
    then show ?thesis using Cons.IH [of "c\<lparr>out := out c @ buf\<rparr>" w1 g] Cons.prems s False
      by (simp add: algebra_simps)
  qed (use Cons in simp)
qed simp

lemma streamWriter_ReadFrom_ok:
  assumes "\<not> wfail c" "aead.frames w (chunks_of r) = (f, w')"
  shows "streamWriter_ReadFrom r (w, c) = ((length (concat r), None), (w', c\<lparr>out := out c @ f\<rparr>))"
  using readFrom_loop_ok [of c w "rd_reads MaxTcpBufferSize r" f w' 0] assms
  by (simp add: streamWriter_ReadFrom_def chunks_of_def concat_reads)

lemma msg_chunks_ok: "\<forall>d \<in> set (msg_chunks b). chunk_ok d \<and> d \<noteq> []"
  using msg_chunks_length by (simp add: chunk_ok_def)

text \<open>A sequence of \<open>Write\<close> calls.\<close>

fun write_all :: "('blk, 'st) prims \<Rightarrow> (nat \<Rightarrow> bytes go) \<Rightarrow> bytes list \<Rightarrow> streamConn \<Rightarrow> streamConn" where
  "write_all P rnd [] sc = sc"
| "write_all P rnd (b # bs) sc = write_all P rnd bs (snd (streamConn_Write P rnd b sc))"

lemma streamConn_Write_ok:
  assumes "sW sc = Some w" "\<not> wfail (sConn sc)" "aead.frames w (msg_chunks b) = (f, w')"
  shows "streamConn_Write P rnd b sc =
    (Ret (length b, None), sc\<lparr>sW := Some w', sConn := (sConn sc)\<lparr>out := out (sConn sc) @ f\<rparr>\<rparr>)"
  using streamWriter_ReadFrom_ok [of "sConn sc" w "slice_reader b" f w'] assms concat_slice_reader [of b]
  by (auto simp: streamConn_Write_def with_writer_def bindP_def streamWriter_Write_def msg_chunks_def)

lemma write_all_ok:
  assumes "sW sc = Some w" "\<not> wfail (sConn sc)" "aead.frames w (concat (map msg_chunks bs)) = (f, w')"
  shows "write_all P rnd bs sc = sc\<lparr>sW := Some w', sConn := (sConn sc)\<lparr>out := out (sConn sc) @ f\<rparr>\<rparr>"
  using assms
proof (induction bs arbitrary: sc w f)
  case (Cons b bs)
  obtain g w1 where g: "aead.frames w (msg_chunks b) = (g, w1)" by fastforce
  then obtain h where h: "aead.frames w1 (concat (map msg_chunks bs)) = (h, w')" "f = g @ h"
    using Cons.prems(3) by (auto simp: aead.frames_append split: prod.splits)
  show ?case
    using streamConn_Write_ok [OF Cons.prems(1,2) g, of P rnd] Cons.IH [OF _ _ h(1)] Cons.prems(2) h(2)
    by simp
qed simp

lemma initWriter_ok:
  assumes "rnd (SaltSize ci) = Ret salt" "AEAD_GetEncrypter P ci salt = Ret A" "\<not> wfail c"
  shows "initWriter P rnd (NewStreamConn c ci) =
     (Ret (), (NewStreamConn (c\<lparr>out := out c @ salt\<rparr>) ci)\<lparr>sW := Some (newStreamWriter A)\<rparr>)"
  using assms by (simp add: initWriter_def NewStreamConn_def)

lemma write_all_first:
  assumes "initWriter P rnd sc = (Ret (), sc')" "sW sc = None" "sW sc' \<noteq> None" "bs \<noteq> []"
  shows "write_all P rnd bs sc = write_all P rnd bs sc'"
  using assms by (cases bs) (auto simp: streamConn_Write_def with_writer_def bindP_def)

section \<open>Reading a stream back\<close>

lemma writeTo_loop_ok:
  assumes "\<forall>m \<in> set ms. chunk_ok m \<and> m \<noteq> []" "aead.frames s ms = (f, s')" "chunk_sync s rc f"
    "\<not> wfail w" "length ms < fuel"
  shows "\<exists>rc'. writeTo_loop fuel n w rc =
      (Some (n + length (concat ms), None, w\<lparr>out := out w @ concat ms\<rparr>), rc')"
  using assms
proof (induction ms arbitrary: s f rc w fuel n)
  case Nil
  then obtain k where "fuel = Suc k" by (cases fuel) auto
  moreover have "concat (inp (snd rc)) = []" using Nil.prems by (simp add: chunk_sync_def)
  then obtain c' where "readFull_conn (2 + Overhead (r_AEAD (fst rc))) (snd rc) = (Err EOF, c')"
    using readFull_conn_EOF by fastforce
  then have "streamReader_read rc = (Err EOF, (fst rc, c'))"
    by (cases rc) (simp add: streamReader_read_def Let_def bindP_def read_raw_def)
  ultimately show ?case by simp
next
  case (Cons m ms)
  obtain k where k: "fuel = Suc k" using Cons.prems by (cases fuel) auto
  obtain f1 s1 where 1: "seal_chunk s m = (f1, s1)" by fastforce
  obtain f2 where 2: "aead.frames s1 ms = (f2, s')" "f = f1 @ f2"
    using Cons.prems(2) 1 by (auto split: prod.splits)
  obtain rc1 where rc1: "streamReader_read rc = (Ret m, rc1)" "chunk_sync s1 rc1 f2"
    using aead.unframe_frame [OF _ 1, of rc f2] Cons.prems 2 by auto
  obtain rc2 where "writeTo_loop k (n + length m) (w\<lparr>out := out w @ m\<rparr>) rc1 =
      (Some (n + length m + length (concat ms), None, w\<lparr>out := out w @ m @ concat ms\<rparr>), rc2)"
    using Cons.IH [OF _ 2(1) rc1(2), of "w\<lparr>out := out w @ m\<rparr>" k "n + length m"] Cons.prems k by auto
  then show ?case using k rc1 Cons.prems by (simp add: algebra_simps)
qed

lemma frames_longer:
  assumes "aead.frames s ms = (f, s')" "aead_laws (w_AEAD s)" "length (w_nonce s) = NonceSize (w_AEAD s)"
  shows "length ms \<le> length f"
  using assms
proof (induction ms arbitrary: s f)
  case (Cons m ms)
  obtain f1 s1 where 1: "seal_chunk s m = (f1, s1)" by fastforce
  obtain f2 where 2: "aead.frames s1 ms = (f2, s')" "f = f1 @ f2"
    using Cons.prems(1) 1 by (auto split: prod.splits)
  have "w_AEAD s1 = w_AEAD s" "length (w_nonce s1) = length (w_nonce s)" "2 \<le> length f1"
    using 1 Cons.prems by (auto simp: seal_chunk_def Let_def aead_laws_def)
  then show ?case using Cons.IH [OF 2(1)] Cons.prems 2(2) by simp
qed simp

lemma initReader_ok:
  assumes "concat (inp d) = salt @ rest" "length salt = SaltSize ci" "AEAD_GetDecrypter P ci salt = Ret A"
  shows "\<exists>d'. initReader P (NewStreamConn d ci) =
      (Ret (), (NewStreamConn d' ci)\<lparr>sR := Some (newStreamReader A)\<rparr>) \<and> concat (inp d') = rest"
  using readFull_conn_enough [of "SaltSize ci" d] assms
  by (auto simp: initReader_def NewStreamConn_def)

lemma wire_of_writes:
  assumes "rnd (SaltSize ci) = Ret salt" "AEAD_GetEncrypter P ci salt = Ret A" "\<not> wfail c" "bs \<noteq> []"
    "aead.frames (newStreamWriter A) (concat (map msg_chunks bs)) = (f, w')"
  shows "out (sConn (write_all P rnd bs (NewStreamConn c ci))) = out c @ salt @ f"
proof -
  let ?sc = "(NewStreamConn (c\<lparr>out := out c @ salt\<rparr>) ci)\<lparr>sW := Some (newStreamWriter A)\<rparr>"
  have "write_all P rnd bs (NewStreamConn c ci) = write_all P rnd bs ?sc"
    using assms by (intro write_all_first [OF initWriter_ok]) (simp_all add: NewStreamConn_def)
  then show ?thesis using write_all_ok [OF _ _ assms(5), of ?sc P rnd] assms(3)
    by (simp add: NewStreamConn_def)
qed

lemma AEAD_same: "AEAD_GetDecrypter P ci salt = AEAD_GetEncrypter P ci salt"
  by (simp add: AEAD_GetDecrypter_def AEAD_GetEncrypter_def)

lemma stream_sync_start:
  assumes "aead_laws A" "concat (inp d) = f"
  shows "chunk_sync (newStreamWriter A) (newStreamReader A, d) f"
  using assms by (simp add: chunk_sync_def newStreamWriter_def newStreamReader_def)

text \<open>Reading piece by piece: what is still to be delivered is the rest of the last chunk and the chunks to come.\<close>

definition pending :: "streamReader \<times> conn \<Rightarrow> bytes \<Rightarrow> bool" where
  "pending rc p \<longleftrightarrow> (\<exists>w ms f w'. (\<forall>m \<in> set ms. chunk_ok m \<and> m \<noteq> []) \<and> aead.frames w ms = (f, w')
     \<and> chunk_sync w ((fst rc)\<lparr>remainbuf := []\<rparr>, snd rc) f \<and> p = remainbuf (fst rc) @ concat ms)"

lemma Read_EOF:
  assumes "remainbuf r = []" "concat (inp c) = []"
  shows "\<exists>c'. streamReader_Read k (r, c) = (Err EOF, (r, c'))"
  using readFull_conn_EOF [OF assms(2), of "2 + Overhead (r_AEAD r)"] assms(1)
  by (simp add: streamReader_Read_def streamReader_read_def Let_def bindP_def read_raw_def)

lemma Read_pending:
  assumes "pending (r, c) p" "0 < k"
  shows "if p = [] then \<exists>c'. streamReader_Read k (r, c) = (Err EOF, (r, c'))
     else \<exists>x q rc'. streamReader_Read k (r, c) = (Ret x, rc') \<and> x \<noteq> [] \<and> p = x @ q \<and> pending rc' q"
proof -
  obtain w ms f w' where ms: "\<forall>m \<in> set ms. chunk_ok m \<and> m \<noteq> []" and f: "aead.frames w ms = (f, w')"
    and sync: "chunk_sync w (r\<lparr>remainbuf := []\<rparr>, c) f" and p: "p = remainbuf r @ concat ms"
    using assms(1) by (auto simp: pending_def)
  show ?thesis
  proof (cases "remainbuf r = []")
    case False
    have "pending (r\<lparr>remainbuf := drop k (remainbuf r)\<rparr>, c) (drop k (remainbuf r) @ concat ms)"
      using ms f sync by (auto simp: pending_def)
    then show ?thesis using False p assms(2)
      by (intro if_not_P [THEN iffD2] exI [of _ "take k (remainbuf r)"] exI [of _ "drop k (remainbuf r) @ concat ms"]
          exI [of _ "(r\<lparr>remainbuf := drop k (remainbuf r)\<rparr>, c)"]) (simp_all add: streamReader_Read_def)
  next
    case rb: True
    then have rr: "r\<lparr>remainbuf := []\<rparr> = r" by simp
    show ?thesis
    proof (cases ms)
      case Nil
      then show ?thesis using Read_EOF [OF rb, of c k] f sync p rb by (simp add: chunk_sync_def)
    next
      case (Cons m ns)
      obtain f1 w1 where 1: "seal_chunk w m = (f1, w1)" by fastforce
      then obtain f2 where 2: "aead.frames w1 ns = (f2, w')" "f = f1 @ f2"
        using f Cons by (auto split: prod.splits)
      obtain r1 c1 where rd: "streamReader_read (r, c) = (Ret m, (r1, c1))" and s1: "chunk_sync w1 (r1, c1) f2"
        using aead.unframe_frame [OF _ 1, of "(r, c)" f2] ms sync rr 2 Cons by auto
      have rb1: "remainbuf r1 = []" using s1 by (simp add: chunk_sync_def)
      let ?r2 = "if min k (length m) < length m then r1\<lparr>remainbuf := drop k m\<rparr> else r1"
      have "streamReader_Read k (r, c) = (Ret (take k m), (?r2, c1))"
        using rb rd by (simp add: streamReader_Read_def)
      moreover have "remainbuf ?r2 = drop k m" "?r2\<lparr>remainbuf := []\<rparr> = r1" using rb1 by (auto simp: min_def)
      then have "pending (?r2, c1) (drop k m @ concat ns)"
        unfolding pending_def fst_conv snd_conv using ms 2(1) s1 Cons by (metis list.set_intros(2))
      moreover have "p = take k m @ drop k m @ concat ns" "p \<noteq> []" "take k m \<noteq> []"
        using p rb Cons ms assms(2) by auto
      ultimately show ?thesis by (simp only: if_False) blast
    qed
  qed
qed

text \<open>A sequence of \<open>Read\<close> calls with the given buffer sizes, up to the first error: the bytes delivered.\<close>

fun read_all :: "('blk, 'st) prims \<Rightarrow> nat list \<Rightarrow> streamConn \<Rightarrow> bytes" where
  "read_all P [] sc = []"
| "read_all P (k # ks) sc = (case streamConn_Read P k sc of
     (Ret x, sc') \<Rightarrow> x @ read_all P ks sc' | (Err e, sc') \<Rightarrow> [] | (Panic, sc') \<Rightarrow> [])"

lemma streamConn_Read_step:
  assumes "sR sc = Some r" "streamReader_Read k (r, sConn sc) = (x, (r', c'))"
  shows "streamConn_Read P k sc = (x, sc\<lparr>sR := Some r', sConn := c'\<rparr>)"
  using assms by (simp add: streamConn_Read_def with_reader_def bindP_def)

lemma read_all_pending:
  assumes "sR sc = Some r" "pending (r, sConn sc) p" "\<forall>k \<in> set ks. 0 < k" "length p \<le> length ks"
  shows "read_all P ks sc = p"
  using assms
proof (induction ks arbitrary: sc r p)
  case (Cons k ks)
  show ?case
  proof (cases "p = []")
    case True
    then obtain c' where c': "streamReader_Read k (r, sConn sc) = (Err EOF, (r, c'))"
      using Read_pending [OF Cons.prems(2), of k] Cons.prems(3) by auto
    show ?thesis using True streamConn_Read_step [OF Cons.prems(1) c', of P] by simp
  next
    case False
    then obtain x q r' c' where x: "streamReader_Read k (r, sConn sc) = (Ret x, (r', c'))" "x \<noteq> []" "p = x @ q"
      "pending (r', c') q"
      using Read_pending [OF Cons.prems(2), of k] Cons.prems(3) by auto
    have "length q \<le> length ks" using x Cons.prems(4) by (cases x) auto
    then have "read_all P ks (sc\<lparr>sR := Some r', sConn := c'\<rparr>) = q"
      using Cons.IH [of "sc\<lparr>sR := Some r', sConn := c'\<rparr>" r' q] x Cons.prems(3) by simp
    then show ?thesis using x streamConn_Read_step [OF Cons.prems(1) x(1), of P] by simp
  qed
qed simp

lemma read_all_first:
  assumes "initReader P sc = (Ret (), sc')" "sR sc = None" "sR sc' \<noteq> None"
  shows "read_all P ks sc = read_all P ks sc'"
  using assms by (cases ks) (auto simp: streamConn_Read_def with_reader_def bindP_def)

text \<open>What a peer that holds the bytes of a written stream finds after reading the salt.\<close>

lemma received_stream:
  assumes "rnd (SaltSize ci) = Ret salt" "length salt = SaltSize ci"
    and "AEAD_GetEncrypter P ci salt = Ret A" "aead_laws A"
    and "\<not> wfail c" "out c = []" "bs \<noteq> []"
    and "concat (inp d) = out (sConn (write_all P rnd bs (NewStreamConn c ci)))"
  obtains ms f w' d' where "\<forall>m \<in> set ms. chunk_ok m \<and> m \<noteq> []" "concat ms = concat bs"
    "aead.frames (newStreamWriter A) ms = (f, w')" "concat (inp d') = f"
    "chunk_sync (newStreamWriter A) (newStreamReader A, d') f"
    "initReader P (NewStreamConn d ci) = (Ret (), (NewStreamConn d' ci)\<lparr>sR := Some (newStreamReader A)\<rparr>)"
proof -
  let ?ms = "concat (map msg_chunks bs)"
  obtain f w' where f: "aead.frames (newStreamWriter A) ?ms = (f, w')" by fastforce
  have ms: "\<forall>m \<in> set ?ms. chunk_ok m \<and> m \<noteq> []" using msg_chunks_ok by simp
  have cc: "concat ?ms = concat bs" by (induction bs) (simp_all add: msg_chunks_concat)
  have wire: "concat (inp d) = salt @ f"
    using wire_of_writes [of rnd ci salt P A c bs f w'] f assms(1,3,5,6,7,8) by simp
  obtain d' where d': "initReader P (NewStreamConn d ci) =
      (Ret (), (NewStreamConn d' ci)\<lparr>sR := Some (newStreamReader A)\<rparr>)" "concat (inp d') = f"
    using initReader_ok [OF wire assms(2), of P A] assms(3) by (auto simp: AEAD_same)
  show thesis by (rule that [OF ms cc f d'(2) stream_sync_start [OF assms(4) d'(2)] d'(1)])
qed

text \<open>A concrete cipher, source of salts and connection for the instances of the properties.\<close>

definition toy_ci :: AEADCipher where
  "toy_ci = AesGcm toy_prims (replicate 16 1) 16"

definition toy_rnd :: "nat \<Rightarrow> bytes go" where
  "toy_rnd n = Ret (replicate n 9)"

definition no_conn :: conn where
  "no_conn = \<lparr>inp = [], out = [], wfail = False\<rparr>"

definition toy_wire :: "bytes list \<Rightarrow> bytes" where
  "toy_wire bs = out (sConn (write_all toy_prims toy_rnd bs (NewStreamConn no_conn toy_ci)))"

lemma toy_cipher:
  "toy_rnd (SaltSize toy_ci) = Ret (replicate 16 9)" "length (replicate 16 (9::byte)) = SaltSize toy_ci"
  "AEAD_GetEncrypter toy_prims toy_ci salt = Ret toy_aead" "\<not> wfail no_conn" "out no_conn = []"
  by (simp_all add: AEAD_GetEncrypter_def AesGcm_def toy_prims_def toy_ci_def toy_rnd_def SaltSize_def no_conn_def)

section \<open>Properties\<close>

text \<open>
  C3. End to end round trip of the encrypted TCP stream: whatever messages are written to a fresh
  connection (of any sizes, cut into chunks of at most 16 KiB, each length and payload sealed with the
  next nonce, after a random salt), a peer with the same cipher that receives these bytes in any
  segmentation copies exactly the messages to its sink and ends without an error.
\<close>

theorem aead_stream_round_trip:
  assumes "rnd (SaltSize ci) = Ret salt" "length salt = SaltSize ci"
    and "AEAD_GetEncrypter P ci salt = Ret A" "aead_laws A"
    and "\<not> wfail c" "out c = []" "bs \<noteq> []" "\<not> wfail w"
    and "concat (inp d) = out (sConn (write_all P rnd bs (NewStreamConn c ci)))"
  shows "\<exists>sc. streamConn_WriteTo P w (NewStreamConn d ci) =
     (Ret (Some (length (concat bs), None, w\<lparr>out := out w @ concat bs\<rparr>)), sc)"
proof -
  obtain ms f w' d' where ms: "\<forall>m \<in> set ms. chunk_ok m \<and> m \<noteq> []" "concat ms = concat bs"
    and f: "aead.frames (newStreamWriter A) ms = (f, w')" and cf: "concat (inp d') = f"
    and sync: "chunk_sync (newStreamWriter A) (newStreamReader A, d') f"
    and d': "initReader P (NewStreamConn d ci) = (Ret (), (NewStreamConn d' ci)\<lparr>sR := Some (newStreamReader A)\<rparr>)"
    using received_stream [OF assms(1-7,9)] by metis
  have "length ms < Suc (length f)"
    using frames_longer [OF f] assms(4) by (simp add: newStreamWriter_def less_Suc_eq_le)
  then obtain rc' where "writeTo_loop (Suc (length f)) 0 w (newStreamReader A, d') =
      (Some (length (concat bs), None, w\<lparr>out := out w @ concat bs\<rparr>), rc')"
    using writeTo_loop_ok [OF ms(1) f sync assms(8), of "Suc (length f)" 0] ms(2) by auto
  then show ?thesis using d' cf
    by (cases rc') (simp add: streamConn_WriteTo_def with_reader_def bindP_def NewStreamConn_def
        streamReader_WriteTo_def newStreamReader_def Let_def)
qed

theorem aead_stream_round_trip_witness:
  "\<exists>sc. streamConn_WriteTo toy_prims no_conn (NewStreamConn
       (no_conn\<lparr>inp := [take 5 (toy_wire [[1, 2, 3], [4]]), drop 5 (toy_wire [[1, 2, 3], [4]])]\<rparr>) toy_ci)
     = (Ret (Some (Suc (Suc (Suc 1)), None, no_conn\<lparr>out := [1, 2, 3, 4]\<rparr>)), sc)"
  using aead_stream_round_trip [of toy_rnd toy_ci "replicate 16 9" toy_prims toy_aead no_conn "[[1, 2, 3], [4]]" no_conn
      "no_conn\<lparr>inp := [take 5 (toy_wire [[1, 2, 3], [4]]), drop 5 (toy_wire [[1, 2, 3], [4]])]\<rparr>",
      OF toy_cipher(1,2,3) toy_laws(2) toy_cipher(4,5)]
  by (simp add: toy_cipher toy_wire_def del: write_all.simps)

text \<open>
  C7. Reading piece by piece loses nothing: on the bytes of such a stream, any sequence of \<open>Read\<close>
  calls with buffers of arbitrary positive sizes, when there are enough of them, delivers exactly the
  messages, in order; each call delivers at least one byte until everything has arrived.
\<close>

theorem aead_reads_deliver_all:
  assumes "rnd (SaltSize ci) = Ret salt" "length salt = SaltSize ci"
    and "AEAD_GetEncrypter P ci salt = Ret A" "aead_laws A"
    and "\<not> wfail c" "out c = []" "bs \<noteq> []"
    and "concat (inp d) = out (sConn (write_all P rnd bs (NewStreamConn c ci)))"
    and "\<forall>k \<in> set ks. 0 < k" "length (concat bs) \<le> length ks"
  shows "read_all P ks (NewStreamConn d ci) = concat bs"
proof -
  obtain ms f w' d' where ms: "\<forall>m \<in> set ms. chunk_ok m \<and> m \<noteq> []" "concat ms = concat bs"
    and f: "aead.frames (newStreamWriter A) ms = (f, w')"
    and sync: "chunk_sync (newStreamWriter A) (newStreamReader A, d') f"
    and d': "initReader P (NewStreamConn d ci) = (Ret (), (NewStreamConn d' ci)\<lparr>sR := Some (newStreamReader A)\<rparr>)"
    using received_stream [OF assms(1-8)] by metis
  have fresh: "(newStreamReader A)\<lparr>remainbuf := []\<rparr> = newStreamReader A" "remainbuf (newStreamReader A) = []"
    by (simp_all add: newStreamReader_def)
  have "pending (newStreamReader A, d') (concat bs)"
    unfolding pending_def fst_conv snd_conv fresh
    by (intro exI [of _ "newStreamWriter A"] exI [of _ ms] exI [of _ f] exI [of _ w'] conjI)
      (use ms f sync in simp_all)
  then have "read_all P ks ((NewStreamConn d' ci)\<lparr>sR := Some (newStreamReader A)\<rparr>) = concat bs"
    using assms(9,10) by (intro read_all_pending [where r = "newStreamReader A"]) (simp_all add: NewStreamConn_def)
  then show ?thesis using read_all_first [OF d'] by (simp add: NewStreamConn_def)
qed

theorem aead_reads_deliver_all_witness:
  "read_all toy_prims [1, 1, 5, 5] (NewStreamConn (no_conn\<lparr>inp := [toy_wire [[1, 2, 3], [4]]]\<rparr>) toy_ci)
     = [1, 2, 3, 4]"
  using aead_reads_deliver_all [of toy_rnd toy_ci "replicate 16 9" toy_prims toy_aead no_conn "[[1, 2, 3], [4]]"
      "no_conn\<lparr>inp := [toy_wire [[1, 2, 3], [4]]]\<rparr>" "[1, 1, 5, 5]",
      OF toy_cipher(1,2,3) toy_laws(2) toy_cipher(4,5)]
  by (simp add: toy_wire_def del: write_all.simps)

text \<open>
  C11. Nonces never repeat: the nonces that follow one another by \<open>increment\<close> are all different for
  as long as the number of them stays below 256 to the power of the nonce length.
\<close>

theorem nonces_never_repeat:
  assumes "i < 256 ^ length n" "j < 256 ^ length n" "(increment ^^ i) n = (increment ^^ j) n"
  shows "i = j"
proof -
  have "(le_val n + i) mod 256 ^ length n = (le_val n + j) mod 256 ^ length n"
    using assms(3) le_val_increments [of i n] le_val_increments [of j n] by simp
  then show ?thesis using assms(1,2) by (rule mod_add_inj)
qed

theorem nonces_never_repeat_witness: "(increment ^^ 3) [255, 0] \<noteq> (increment ^^ 5) [255, 0]"
  using nonces_never_repeat [of 3 "[255, 0]" 5] by auto

text \<open>
  The length check of the reader is too weak: a peer that announces a payload of more than
  16 KiB, by at most the overhead of the cipher, passes the check, and slicing the buffer panics.
\<close>

theorem oversized_chunk_panics:
  assumes "aead_laws (r_AEAD r)" "length (r_nonce r) = NonceSize (r_AEAD r)"
    and "MaxTcpBufferSize < sz" "sz \<le> MaxTcpBufferSize + Overhead (r_AEAD r)" "sz \<le> 65535"
    and "concat (inp c) = Seal (r_AEAD r) (r_nonce r) (be16 sz) @ rest"
  shows "fst (streamReader_read (r, c)) = Panic"
proof -
  let ?A = "r_AEAD r" and ?n = "r_nonce r"
  let ?hdr = "Seal ?A ?n (be16 sz)"
  have lh: "length ?hdr = 2 + Overhead ?A" using assms(1,2) by (simp add: aead_laws_def)
  obtain c1 where c1: "read_raw (2 + Overhead ?A) (r, c) = (Ret ?hdr, (r, c1))"
    using read_raw_ok [OF assms(6) lh] by blast
  have o1: "open_in_place ?hdr (r, c1) = (Ret (be16 sz @ drop 2 ?hdr), (r\<lparr>r_nonce := increment ?n\<rparr>, c1))"
    using open_sealed [of r "be16 sz" c1] assms(1,2) by simp
  have "sz div 256 < 256" using assms(5) by linarith
  then have "sz div 256 mod 256 * 256 + sz mod 256 = sz" by simp
  then show ?thesis using assms(3,4) c1 o1
    by (simp add: streamReader_read_def Let_def go_simps and_FF be16_def)
qed

theorem oversized_chunk_panics_witness:
  "fst (streamReader_read (newStreamReader toy_aead,
     no_conn\<lparr>inp := [Seal toy_aead (replicate 12 0) (be16 16390)]\<rparr>)) = Panic"
  by (rule oversized_chunk_panics [where sz = 16390 and rest = "[]"])
    (simp_all add: newStreamReader_def toy_laws MaxTcpBufferSize_def, simp_all add: toy_aead_def)

text \<open>
  C37. Round trip of UDP packets: what one side sends with \<open>WriteTo\<close> (a salt and the sealed payload, if
  it fits the packet buffer) the other side reads back as the same payload from the same sender.
\<close>

theorem aead_packet_round_trip:
  assumes "rnd (SaltSize ci) = Ret salt" "length salt = SaltSize ci"
    and "AEAD_GetEncrypter P ci salt = Ret A" "aead_laws A" "NonceSize A \<le> 128"
    and "packet_WriteTo P rnd ci b addr c = (Ret n, c')" "pout c = []"
    and "MaxUdpBufferSize \<le> k" "pin d = map (\<lambda>(p, _). (p, src)) (pout c')"
  shows "n = length b \<and> (\<exists>d'. packet_ReadFrom P ci k d = (Ret (b, src), d'))"
proof -
  let ?n0 = "take (NonceSize A) zerononce"
  let ?pkt = "salt @ Seal A ?n0 b"
  have l0: "length ?n0 = NonceSize A" using assms(5) by (simp add: zerononce_def)
  have fits: "\<not> MaxUdpBufferSize < SaltSize ci + length b + Overhead A" "\<not> pfail c"
    using assms(1,3,6) by (auto simp: packet_WriteTo_def write_pconn_def split: if_splits)
  then have w: "n = length b" "pout c' = [(?pkt, addr)]"
    using assms(1,3,6,7) by (auto simp: packet_WriteTo_def write_pconn_def)
  have "Open A ?n0 (Seal A ?n0 b) = Some b" and l: "length (Seal A ?n0 b) = length b + Overhead A"
    using assms(4) l0 by (simp_all add: aead_laws_def)
  moreover have "take k ?pkt = ?pkt" using fits assms(2,8) l by simp
  ultimately have "packet_ReadFrom P ci k d = (Ret (b, src), d\<lparr>pin := []\<rparr>)"
    using assms(2,3,8,9) w fits
    by (simp add: packet_ReadFrom_def read_pconn_def packet_decrypt_def AEAD_same Let_def)
  with w show ?thesis by blast
qed

theorem aead_packet_round_trip_witness:
  "\<exists>d'. packet_ReadFrom toy_prims toy_ci 16384
      \<lparr>pin = map (\<lambda>(p, _). (p, ''a'')) (pout (snd (packet_WriteTo toy_prims toy_rnd toy_ci [1, 2] ''b''
         \<lparr>pin = [], pout = [], pfail = False\<rparr>))), pout = [], pfail = False\<rparr> = (Ret ([1, 2], ''a''), d')"
proof -
  obtain c' where c': "packet_WriteTo toy_prims toy_rnd toy_ci [1, 2] ''b'' \<lparr>pin = [], pout = [], pfail = False\<rparr>
      = (Ret (Suc 1), c')"
    by (simp add: packet_WriteTo_def toy_cipher write_pconn_def MaxUdpBufferSize_def toy_aead_def toy_rnd_def
        flip: toy_cipher(2))
  show ?thesis
    using aead_packet_round_trip [of toy_rnd toy_ci "replicate 16 9" toy_prims toy_aead "[1, 2]" "''b''" _ _ _ 16384
        "\<lparr>pin = map (\<lambda>(p, _). (p, ''a'')) (pout c'), pout = [], pfail = False\<rparr>" "''a''",
        OF toy_cipher(1,2,3) toy_laws(2) _ c']
    by (simp add: c' toy_aead_def MaxUdpBufferSize_def)
qed

end
