(* ===== verification/Stream_Conn.thy ===== *)
theory Stream_Conn
  imports Aead_Conn
begin

text \<open>
  The package \<open>ss/stream\<close>: TCP streams and UDP packets under a stream cipher (an IV followed by the
  payload combined with the key stream), and the choice of the wrapper in \<open>ss/conn.go\<close>. The states are
  those of the key streams.
\<close>

section \<open>Model of ss/stream/stream\_conn.go\<close>

text \<open>\<open>Read(b)\<close> with \<open>len(b) = k\<close>.\<close>

definition streamR_Read :: "('blk, 'st) prims \<Rightarrow> nat \<Rightarrow> ('st Stream \<times> conn, bytes) proc" where
  "streamR_Read P k = (\<lambda>(st, c). case read_conn k c of
     (Ret b, c') \<Rightarrow> (case XORKeyStream P st b of (d, st') \<Rightarrow> (Ret d, (st', c')))
   | (Err e, c') \<Rightarrow> (Err e, (st, c'))
   | (Panic, c') \<Rightarrow> (Panic, (st, c')))"

text \<open>
  The loop of \<open>WriteTo\<close> over the successive reads of the connection: bytes written, error, sink, key
  stream, and the reads not done.
\<close>

fun streamR_writeTo :: "('blk, 'st) prims \<Rightarrow> bytes list \<Rightarrow> nat \<Rightarrow> conn \<Rightarrow> 'st Stream
    \<Rightarrow> nat \<times> error option \<times> conn \<times> 'st Stream \<times> bytes list" where
  "streamR_writeTo P [] n w st = (n, None, w, st, [])"
| "streamR_writeTo P (b # reads) n w st =
     (if b \<noteq> [] then
        (case XORKeyStream P st b of (d, st') \<Rightarrow>
          (case write_conn d w of
             (Ret _, w') \<Rightarrow> streamR_writeTo P reads (n + length d) w' st'
           | (Err e, w') \<Rightarrow> (n, Some e, w', st', reads)
           | (Panic, w') \<Rightarrow> (n, Some ErrConnClosed, w', st', reads)))
      else streamR_writeTo P reads n w st)"

definition streamR_WriteTo :: "('blk, 'st) prims \<Rightarrow> conn \<Rightarrow> 'st Stream \<times> conn
    \<Rightarrow> (nat \<times> error option \<times> conn) \<times> 'st Stream \<times> conn" where
  "streamR_WriteTo P w = (\<lambda>(st, c).
     case streamR_writeTo P (rd_reads MaxTcpBufferSize (inp c)) 0 w st of
       (n, e, w', st', rest) \<Rightarrow> ((n, e, w'), (st', c\<lparr>inp := rest\<rparr>)))"

text \<open>The loops of \<open>Write\<close> (over pieces of the argument) and of \<open>ReadFrom\<close> (over the reads of a source).\<close>

fun streamW_loop :: "('blk, 'st) prims \<Rightarrow> bytes list \<Rightarrow> nat \<Rightarrow> 'st Stream \<times> conn
    \<Rightarrow> (nat \<times> error option) \<times> 'st Stream \<times> conn" where
  "streamW_loop P [] n s = ((n, None), s)"
| "streamW_loop P (p # ps) n (st, c) =
     (case XORKeyStream P st p of (d, st') \<Rightarrow>
       (case write_conn d c of
          (Ret _, c') \<Rightarrow> streamW_loop P ps (n + length p) (st', c')
        | (Err e, c') \<Rightarrow> ((n, Some e), (st', c'))
        | (Panic, c') \<Rightarrow> ((n, Some ErrConnClosed), (st', c'))))"

definition streamW_Write :: "('blk, 'st) prims \<Rightarrow> bytes \<Rightarrow> 'st Stream \<times> conn
    \<Rightarrow> (nat \<times> error option) \<times> 'st Stream \<times> conn" where
  "streamW_Write P b s = streamW_loop P (msg_chunks b) 0 s"

text \<open>\<open>ReadFrom\<close> also passes the empty read at the end of the source to the cipher and the connection.\<close>

definition streamW_ReadFrom :: "('blk, 'st) prims \<Rightarrow> reader \<Rightarrow> 'st Stream \<times> conn
    \<Rightarrow> (nat \<times> error option) \<times> 'st Stream \<times> conn" where
  "streamW_ReadFrom P r s = streamW_loop P (rd_reads MaxTcpBufferSize r @ [[]]) 0 s"

record 'st StreamConn =
  tConn :: conn
  tCipher :: "'st StreamCipher"
  tR :: "'st Stream option"
  tW :: "'st Stream option"
  readIV :: bytes
  writeIV :: bytes

definition StreamConn_new :: "conn \<Rightarrow> 'st StreamCipher \<Rightarrow> 'st StreamConn" where
  "StreamConn_new c ci = \<lparr>tConn = c, tCipher = ci, tR = None, tW = None, readIV = [], writeIV = []\<rparr>"

definition ObtainWriteIV :: "(nat \<Rightarrow> bytes go) \<Rightarrow> ('st StreamConn, bytes) proc" where
  "ObtainWriteIV rnd c =
     (if length (writeIV c) = IVSize (tCipher c) then (Ret (writeIV c), c)
      else case rnd (IVSize (tCipher c)) of
        Ret iv \<Rightarrow> (Ret iv, c\<lparr>writeIV := iv\<rparr>) | Err e \<Rightarrow> (Err e, c) | Panic \<Rightarrow> (Panic, c))"

definition ObtainReadIV :: "('st StreamConn, bytes) proc" where
  "ObtainReadIV c =
     (if length (readIV c) = IVSize (tCipher c) then (Ret (readIV c), c)
      else case readFull_conn (IVSize (tCipher c)) (tConn c) of
        (Ret iv, c') \<Rightarrow> (Ret iv, c\<lparr>tConn := c', readIV := iv\<rparr>)
      | (Err e, c') \<Rightarrow> (Err e, c\<lparr>tConn := c'\<rparr>)
      | (Panic, c') \<Rightarrow> (Panic, c\<lparr>tConn := c'\<rparr>))"

definition sc_initReader :: "('st StreamConn, unit) proc" where
  "sc_initReader = bindP ObtainReadIV (\<lambda>iv c. case GetDecrypter (tCipher c) iv of
     Ret cp \<Rightarrow> (Ret (), c\<lparr>tR := Some cp\<rparr>) | Err e \<Rightarrow> (Err e, c) | Panic \<Rightarrow> (Panic, c))"

definition sc_initWriter :: "(nat \<Rightarrow> bytes go) \<Rightarrow> ('st StreamConn, unit) proc" where
  "sc_initWriter rnd = bindP (ObtainWriteIV rnd) (\<lambda>iv c. case write_conn iv (tConn c) of
     (Ret _, c') \<Rightarrow> (case GetEncrypter (tCipher c) iv of
         Ret cp \<Rightarrow> (Ret (), c\<lparr>tConn := c', tW := Some cp\<rparr>)
       | Err e \<Rightarrow> (Err e, c\<lparr>tConn := c'\<rparr>) | Panic \<Rightarrow> (Panic, c\<lparr>tConn := c'\<rparr>))
   | (Err e, c') \<Rightarrow> (Err e, c\<lparr>tConn := c'\<rparr>)
   | (Panic, c') \<Rightarrow> (Panic, c\<lparr>tConn := c'\<rparr>))"

definition sc_reading :: "('st Stream \<times> conn \<Rightarrow> 'a go \<times> 'st Stream \<times> conn) \<Rightarrow> ('st StreamConn, 'a) proc" where
  "sc_reading f = bindP (\<lambda>c. case tR c of None \<Rightarrow> sc_initReader c | Some _ \<Rightarrow> (Ret (), c))
     (\<lambda>_ c. case f (the (tR c), tConn c) of (x, (st, c')) \<Rightarrow> (x, c\<lparr>tR := Some st, tConn := c'\<rparr>))"

definition sc_writing :: "(nat \<Rightarrow> bytes go) \<Rightarrow> ('st Stream \<times> conn \<Rightarrow> 'a \<times> 'st Stream \<times> conn)
    \<Rightarrow> ('st StreamConn, 'a) proc" where
  "sc_writing rnd f = bindP (\<lambda>c. case tW c of None \<Rightarrow> sc_initWriter rnd c | Some _ \<Rightarrow> (Ret (), c))
     (\<lambda>_ c. case f (the (tW c), tConn c) of (x, (st, c')) \<Rightarrow> (Ret x, c\<lparr>tW := Some st, tConn := c'\<rparr>))"

definition StreamConn_Read :: "('blk, 'st) prims \<Rightarrow> nat \<Rightarrow> ('st StreamConn, bytes) proc" where
  "StreamConn_Read P k = sc_reading (streamR_Read P k)"

definition StreamConn_Write :: "('blk, 'st) prims \<Rightarrow> (nat \<Rightarrow> bytes go) \<Rightarrow> bytes \<Rightarrow> ('st StreamConn, nat \<times> error option) proc" where
  "StreamConn_Write P rnd b = sc_writing rnd (streamW_Write P b)"

definition StreamConn_WriteTo :: "('blk, 'st) prims \<Rightarrow> conn \<Rightarrow> ('st StreamConn, nat \<times> error option \<times> conn) proc" where
  "StreamConn_WriteTo P w = sc_reading (\<lambda>s. case streamR_WriteTo P w s of (x, s') \<Rightarrow> (Ret x, s'))"

definition StreamConn_ReadFrom :: "('blk, 'st) prims \<Rightarrow> (nat \<Rightarrow> bytes go) \<Rightarrow> reader \<Rightarrow> ('st StreamConn, nat \<times> error option) proc" where
  "StreamConn_ReadFrom P rnd r = sc_writing rnd (streamW_ReadFrom P r)"

section \<open>Model of ss/stream/packet\_conn.go\<close>

definition spacket_WriteTo :: "('blk, 'st) prims \<Rightarrow> (nat \<Rightarrow> bytes go) \<Rightarrow> 'st StreamCipher \<Rightarrow> bytes \<Rightarrow> string
    \<Rightarrow> (pconn, nat) proc" where
  "spacket_WriteTo P rnd ci b addr c =
     (case bind_go (rnd (IVSize ci)) (\<lambda>iv. bind_go (GetEncrypter ci iv) (\<lambda>st.
        if MaxUdpBufferSize < length b then Panic else Ret (iv @ fst (XORKeyStream P st b))))
      of Ret pkt \<Rightarrow> (case write_pconn pkt addr c of
             (Ret _, c') \<Rightarrow> (Ret (length b), c') | (Err e, c') \<Rightarrow> (Err e, c') | (Panic, c') \<Rightarrow> (Panic, c'))
       | Err e \<Rightarrow> (Err e, c) | Panic \<Rightarrow> (Panic, c))"

text \<open>
  \<open>ReadFrom(b)\<close> with \<open>len(b) = k\<close>: the count it returns, the payload bytes copied to \<open>b\<close> and the sender.
  The buffer has \<open>IVSize + MaxUdpBufferSize\<close> bytes; \<open>dataBuf[:n]\<close> panics for a packet shorter than the IV.
\<close>

definition spacket_ReadFrom :: "('blk, 'st) prims \<Rightarrow> 'st StreamCipher \<Rightarrow> nat \<Rightarrow> (pconn, nat \<times> bytes \<times> string) proc" where
  "spacket_ReadFrom P ci k c = (case read_pconn (IVSize ci + MaxUdpBufferSize) c of
     (Ret (pkt, addr), c') \<Rightarrow>
       (let buf = pkt @ replicate (IVSize ci + MaxUdpBufferSize - length pkt) 0;
            n = int (length pkt) - int (IVSize ci) in
        (bind_go (GetDecrypter ci (take (IVSize ci) buf)) (\<lambda>st.
           bind_go (slice (drop (IVSize ci) buf) 0 n) (\<lambda>b.
             Ret (nat n, take k (fst (XORKeyStream P st b)), addr))), c'))
   | (Err e, c') \<Rightarrow> (Err e, c')
   | (Panic, c') \<Rightarrow> (Panic, c'))"

section \<open>Model of ss/conn.go\<close>

text \<open>The wrapped connection of a cipher pair: the stream cipher wins, no cipher leaves the connection plain.\<close>

datatype 'st ssConn = StreamC "'st StreamConn" | AeadC streamConn | DefaultC conn

definition makeStreamConn :: "'st StreamCipher option \<Rightarrow> AEADCipher option \<Rightarrow> conn \<Rightarrow> 'st ssConn" where
  "makeStreamConn scipher acipher c = (case scipher of
     Some sc \<Rightarrow> StreamC (StreamConn_new c sc)
   | None \<Rightarrow> (case acipher of Some ac \<Rightarrow> AeadC (NewStreamConn c ac) | None \<Rightarrow> DefaultC c))"

datatype 'st ssPacketConn = StreamP "'st StreamCipher" pconn | AeadP AEADCipher pconn | DefaultP pconn

definition makePacketConn :: "'st StreamCipher option \<Rightarrow> AEADCipher option \<Rightarrow> pconn \<Rightarrow> 'st ssPacketConn" where
  "makePacketConn scipher acipher c = (case scipher of
     Some sc \<Rightarrow> StreamP sc c
   | None \<Rightarrow> (case acipher of Some ac \<Rightarrow> AeadP ac c | None \<Rightarrow> DefaultP c))"

section \<open>Key streams over pieces\<close>

fun ks_run :: "('blk, 'st) prims \<Rightarrow> 'st Stream \<Rightarrow> bytes list \<Rightarrow> bytes \<times> 'st Stream" where
  "ks_run P st [] = ([], st)"
| "ks_run P st (p # ps) = (case XORKeyStream P st p of (d, st1) \<Rightarrow>
     (case ks_run P st1 ps of (ds, st2) \<Rightarrow> (d @ ds, st2)))"

lemma ks_run_append:
  "ks_run P st (ps @ qs) = (case ks_run P st ps of (d, st1) \<Rightarrow> (case ks_run P st1 qs of (e, st2) \<Rightarrow> (d @ e, st2)))"
  by (induction ps arbitrary: st) (auto split: prod.splits)

lemma ks_run_lib:
  assumes "stream_laws P e d"
  shows "fst (ks_run P (LibStream s) ps) = fst (xks P s (concat ps))"
proof (induction ps arbitrary: s)
  case Nil
  have "length (fst (xks P s [])) = length ([] :: bytes)" using assms unfolding stream_laws_def by blast
  then show ?case by simp
next
  case (Cons p ps)
  obtain x s1 where x: "xks P s p = (x, s1)" by fastforce
  have "fst (xks P s (p @ concat ps)) = fst (xks P s p) @ fst (xks P (snd (xks P s p)) (concat ps))"
    using assms unfolding stream_laws_def by blast
  then show ?case using x Cons.IH [of s1] by (auto split: prod.splits)
qed

lemma streamW_loop_ok:
  assumes "\<not> wfail c" "ks_run P st ps = (d, st')"
  shows "streamW_loop P ps n (st, c) = ((n + length (concat ps), None), (st', c\<lparr>out := out c @ d\<rparr>))"
  using assms
proof (induction ps arbitrary: n st c d)
  case (Cons p ps)
  obtain x st1 where x: "XORKeyStream P st p = (x, st1)" by fastforce
  then obtain y where y: "ks_run P st1 ps = (y, st')" "d = x @ y"
    using Cons.prems(2) by (auto split: prod.splits)
  then show ?case using x Cons.prems(1) Cons.IH [OF _ y(1), of "c\<lparr>out := out c @ x\<rparr>" "n + length p"]
    by (simp add: algebra_simps)
qed simp

lemma streamR_writeTo_ok:
  assumes "\<not> wfail w" "ks_run P st (filter (\<lambda>b. b \<noteq> []) reads) = (d, st')"
  shows "streamR_writeTo P reads n w st = (n + length d, None, w\<lparr>out := out w @ d\<rparr>, st', [])"
  using assms
proof (induction reads arbitrary: n st w d)
  case (Cons b reads)
  show ?case
  proof (cases "b = []")
    case False
    obtain x st1 where x: "XORKeyStream P st b = (x, st1)" by fastforce
    then obtain y where y: "ks_run P st1 (filter (\<lambda>b. b \<noteq> []) reads) = (y, st')" "d = x @ y"
      using Cons.prems(2) False by (auto split: prod.splits)
    then show ?thesis using x False Cons.prems(1) Cons.IH [OF _ y(1), of "w\<lparr>out := out w @ x\<rparr>" "n + length x"]
      by (simp add: algebra_simps)
  qed (use Cons in simp)
qed simp

text \<open>A sequence of \<open>Write\<close> calls.\<close>

fun swrite_all :: "('blk, 'st) prims \<Rightarrow> (nat \<Rightarrow> bytes go) \<Rightarrow> bytes list \<Rightarrow> 'st StreamConn \<Rightarrow> 'st StreamConn" where
  "swrite_all P rnd [] c = c"
| "swrite_all P rnd (b # bs) c = swrite_all P rnd bs (snd (StreamConn_Write P rnd b c))"

lemma StreamConn_Write_ok:
  assumes "tW c = Some st" "\<not> wfail (tConn c)" "ks_run P st (msg_chunks b) = (d, st')"
  shows "StreamConn_Write P rnd b c =
    (Ret (length b, None), c\<lparr>tW := Some st', tConn := (tConn c)\<lparr>out := out (tConn c) @ d\<rparr>\<rparr>)"
  using streamW_loop_ok [OF assms(2,3), of 0] assms(1)
  by (simp add: StreamConn_Write_def sc_writing_def bindP_def streamW_Write_def msg_chunks_concat)

lemma swrite_all_ok:
  assumes "tW c = Some st" "\<not> wfail (tConn c)" "ks_run P st (concat (map msg_chunks bs)) = (d, st')"
  shows "out (tConn (swrite_all P rnd bs c)) = out (tConn c) @ d"
  using assms
proof (induction bs arbitrary: c st d)
  case (Cons b bs)
  obtain x st1 where x: "ks_run P st (msg_chunks b) = (x, st1)" by fastforce
  then obtain y where y: "ks_run P st1 (concat (map msg_chunks bs)) = (y, st')" "d = x @ y"
    using Cons.prems(3) by (auto simp: ks_run_append split: prod.splits)
  show ?case
    using StreamConn_Write_ok [OF Cons.prems(1,2) x, of rnd] Cons.IH [OF _ _ y(1)] Cons.prems(2) y(2) by simp
qed simp

lemma sc_initWriter_ok:
  assumes "rnd (IVSize ci) = Ret iv" "IVSize ci \<noteq> 0" "GetEncrypter ci iv = Ret st" "\<not> wfail c"
  shows "sc_initWriter rnd (StreamConn_new c ci) =
     (Ret (), (StreamConn_new (c\<lparr>out := out c @ iv\<rparr>) ci)\<lparr>tW := Some st, writeIV := iv\<rparr>)"
  using assms by (simp add: sc_initWriter_def bindP_def ObtainWriteIV_def StreamConn_new_def)

lemma swrite_all_first:
  assumes "sc_initWriter rnd c = (Ret (), c')" "tW c = None" "tW c' = Some st" "bs \<noteq> []"
  shows "swrite_all P rnd bs c = swrite_all P rnd bs c'"
  using assms by (cases bs) (auto simp: StreamConn_Write_def sc_writing_def bindP_def)

lemma concat_msg_chunks: "concat (concat (map msg_chunks bs)) = concat bs"
  by (induction bs) (simp_all add: msg_chunks_concat)

lemma stream_wire:
  assumes "rnd (IVSize ci) = Ret iv" "IVSize ci \<noteq> 0" "GetEncrypter ci iv = Ret st" "\<not> wfail c" "out c = []" "bs \<noteq> []"
  shows "out (tConn (swrite_all P rnd bs (StreamConn_new c ci)))
     = iv @ fst (ks_run P st (concat (map msg_chunks bs)))"
proof -
  let ?c = "(StreamConn_new (c\<lparr>out := out c @ iv\<rparr>) ci)\<lparr>tW := Some st, writeIV := iv\<rparr>"
  have "swrite_all P rnd bs (StreamConn_new c ci) = swrite_all P rnd bs ?c"
    using assms by (intro swrite_all_first [OF sc_initWriter_ok]) (simp_all add: StreamConn_new_def)
  then show ?thesis
    using swrite_all_ok [of ?c st P bs "fst (ks_run P st (concat (map msg_chunks bs)))"
        "snd (ks_run P st (concat (map msg_chunks bs)))" rnd] assms(4,5)
    by (simp add: StreamConn_new_def)
qed

section \<open>Properties\<close>

text \<open>
  C33. Round trip of the TCP stream under a library stream cipher: whatever is written to a fresh
  connection, a peer with the same cipher that gets the bytes in any segmentation copies exactly the
  messages to its sink. The reader's pieces need not be the writer's.
\<close>

theorem stream_cipher_round_trip:
  assumes "rnd (IVSize ci) = Ret iv" "length iv = IVSize ci" "IVSize ci \<noteq> 0"
    and "GetEncrypter ci iv = Ret (LibStream e)" "GetDecrypter ci iv = Ret (LibStream d)" "stream_laws P e d"
    and "\<not> wfail c" "out c = []" "bs \<noteq> []" "\<not> wfail w"
    and "concat (inp r) = out (tConn (swrite_all P rnd bs (StreamConn_new c ci)))"
  shows "\<exists>c'. StreamConn_WriteTo P w (StreamConn_new r ci) =
     (Ret (length (concat bs), None, w\<lparr>out := out w @ concat bs\<rparr>), c')"
proof -
  let ?ct = "fst (xks P e (concat bs))"
  have wire: "concat (inp r) = iv @ ?ct"
    using stream_wire [of rnd ci iv "LibStream e" c bs P] assms(1,3,4,7,8,9,11)
      ks_run_lib [OF assms(6), of e "concat (map msg_chunks bs)"] by (simp add: concat_msg_chunks)
  obtain r' where r': "readFull_conn (IVSize ci) r = (Ret iv, r')" "concat (inp r') = ?ct"
    using readFull_conn_enough [of "IVSize ci" r] assms(2) wire by auto
  let ?reads = "chunks_of (inp r')"
  have "fst (ks_run P (LibStream d) ?reads) = fst (xks P d ?ct)"
    using ks_run_lib [OF assms(6)] chunks_of_concat r'(2) by metis
  also have "\<dots> = concat bs" using assms(6) unfolding stream_laws_def by blast
  finally obtain st' where "ks_run P (LibStream d) (filter (\<lambda>b. b \<noteq> []) (rd_reads MaxTcpBufferSize (inp r'))) = (concat bs, st')"
    unfolding chunks_of_def by (metis prod.collapse)
  then have "streamR_writeTo P (rd_reads MaxTcpBufferSize (inp r')) 0 w (LibStream d)
      = (length (concat bs), None, w\<lparr>out := out w @ concat bs\<rparr>, st', [])"
    using streamR_writeTo_ok [OF assms(10)] by fastforce
  then show ?thesis using r' assms(3,5)
    by (simp add: StreamConn_WriteTo_def sc_reading_def bindP_def StreamConn_new_def sc_initReader_def
        ObtainReadIV_def streamR_WriteTo_def)
qed

definition toy_sc :: "unit StreamCipher" where
  "toy_sc = AesCtr toy_prims (replicate 16 1) 16"

lemma toy_stream:
  "toy_rnd (IVSize toy_sc) = Ret (replicate 16 9)" "length (replicate 16 (9::byte)) = IVSize toy_sc" "IVSize toy_sc \<noteq> 0"
  "GetEncrypter toy_sc iv = Ret (LibStream ())" "GetDecrypter toy_sc iv = Ret (LibStream ())"
  by (simp_all add: toy_rnd_def toy_sc_def AesCtr_def IVSize_def GetEncrypter_def GetDecrypter_def aesCTR_def lib_def toy_prims_def)

theorem stream_cipher_round_trip_witness:
  "\<exists>c'. StreamConn_WriteTo toy_prims no_conn (StreamConn_new
       (no_conn\<lparr>inp := [out (tConn (swrite_all toy_prims toy_rnd [[1, 2], [3]] (StreamConn_new no_conn toy_sc)))]\<rparr>) toy_sc)
     = (Ret (Suc (Suc 1), None, no_conn\<lparr>out := [1, 2, 3]\<rparr>), c')"
  using stream_cipher_round_trip [of toy_rnd toy_sc "replicate 16 9" "()" "()" toy_prims no_conn "[[1, 2], [3]]" no_conn
      "no_conn\<lparr>inp := [out (tConn (swrite_all toy_prims toy_rnd [[1, 2], [3]] (StreamConn_new no_conn toy_sc)))]\<rparr>",
      OF toy_stream toy_laws(3) toy_cipher(4,5)]
  by (simp add: toy_cipher del: swrite_all.simps)

text \<open>
  The salsa20 wrapper restarts its key stream at every call: two writes of the same short message
  on one connection put the same ciphertext on the wire twice, so the key stream is reused.
\<close>

theorem salsa20_reuses_key_stream:
  assumes "rnd 8 = Ret iv" "\<not> wfail c" "out c = []" "m \<noteq> []" "length m \<le> MaxTcpBufferSize"
  shows "out (tConn (swrite_all P rnd [m, m] (StreamConn_new c (Salsa20 key 8))))
     = iv @ salsa20_XOR P (take 32 key) iv m @ salsa20_XOR P (take 32 key) iv m"
proof -
  have "msg_chunks m = [m]" using assms(4,5)
    by (simp add: msg_chunks_def chunks_of_def slice_reader_def rd_reads_Cons(1) [OF MaxTcpBufferSize_pos])
  then show ?thesis
    using stream_wire [of rnd "Salsa20 key 8" iv "Salsa20Wrapper key iv" c "[m, m]" P] assms
    by (simp add: IVSize_def Salsa20_def GetEncrypter_def newSalsa20_def)
qed

theorem salsa20_reuses_key_stream_witness:
  "out (tConn (swrite_all toy_prims toy_rnd [[1, 2], [1, 2]] (StreamConn_new no_conn (Salsa20 (replicate 32 3) 8))))
     = replicate 8 9 @ [1, 2] @ [1, 2]"
  using salsa20_reuses_key_stream [of toy_rnd "replicate 8 9" no_conn "[1, 2]" toy_prims "replicate 32 3"]
  by (simp add: toy_rnd_def toy_cipher MaxTcpBufferSize_def toy_prims_def del: swrite_all.simps)

text \<open>
  A UDP packet shorter than the IV of the stream cipher makes \<open>ReadFrom\<close> panic: any peer can send
  one without knowing the key.
\<close>

theorem short_packet_panics:
  assumes "pin c = (pkt, addr) # ds" "length pkt < IVSize ci"
    and "\<And>iv. length iv = IVSize ci \<Longrightarrow> \<exists>st. GetDecrypter ci iv = Ret st"
  shows "fst (spacket_ReadFrom P ci k c) = Panic"
proof -
  let ?buf = "pkt @ replicate (IVSize ci + MaxUdpBufferSize - length pkt) 0"
  have "length (take (IVSize ci) ?buf) = IVSize ci" using assms(2) by simp
  then obtain st where "GetDecrypter ci (take (IVSize ci) ?buf) = Ret st" using assms(3) by blast
  then show ?thesis using assms(1,2)
    by (simp add: spacket_ReadFrom_def read_pconn_def slice_def Let_def)
qed

theorem short_packet_panics_witness:
  "fst (spacket_ReadFrom toy_prims toy_sc 100 \<lparr>pin = [([1, 2], ''x'')], pout = [], pfail = False\<rparr>) = Panic"
  by (rule short_packet_panics [where ds = "[]" and pkt = "[1, 2]" and addr = "''x''"])
    (simp_all add: toy_stream flip: toy_stream(2))

end
