(* ===== verification/Domain_Trie.thy ===== *)
theory Domain_Trie
  imports Interfaces
begin

text \<open>
  The package \<open>util/trie\<close>: a trie over the labels of a domain name, from the last label to the
  first, with the wildcards \<open>*\<close> (one label), the empty label (one or more labels) and \<open>+\<close> (none or
  more labels). The trie is shown to be a map from label paths to data, and \<open>Search\<close> to find a
  node exactly when one of the stored patterns matches.
\<close>

section \<open>Model of node.go\<close>

text \<open>The data of a node is a Go interface value: \<open>None\<close> is nil.\<close>

datatype 'a node = Node (children: "string \<Rightarrow> 'a node option") (Data: "'a option")

definition newNode :: "'a option \<Rightarrow> 'a node" where
  "newNode d = Node (\<lambda>_. None) d"

definition getChild :: "'a node \<Rightarrow> string \<Rightarrow> 'a node option" where
  "getChild n s = children n s"

definition hasChild :: "'a node \<Rightarrow> string \<Rightarrow> bool" where
  "hasChild n s = (case getChild n s of None \<Rightarrow> False | Some _ \<Rightarrow> True)"

definition addChild :: "'a node \<Rightarrow> string \<Rightarrow> 'a node \<Rightarrow> 'a node" where
  "addChild n s c = Node ((children n)(s := Some c)) (Data n)"

section \<open>Model of domain.go\<close>

definition wildcard :: string where "wildcard = ''*''"
definition dotWildcard :: string where "dotWildcard = ''''"
definition complexWildcard :: string where "complexWildcard = ''+''"
definition domainStep :: char where "domainStep = CHR ''.''"

definition ValidAndSplitDomain :: "string \<Rightarrow> string list \<times> bool" where
  "ValidAndSplitDomain domain =
     (if domain \<noteq> [] \<and> last domain = domainStep then ([], False)
      else let parts = split_chr domainStep domain in
        if length parts = 1 then (if parts ! 0 = [] then ([], False) else (parts, True))
        else if list_ex (\<lambda>p. p = []) (tl parts) then ([], False) else (parts, True))"

text \<open>\<open>insert\<close> walks the parts from the last to the first, creating the nodes that are missing.\<close>

fun insert_rev :: "string list \<Rightarrow> 'a option \<Rightarrow> 'a node \<Rightarrow> 'a node" where
  "insert_rev [] d n = Node (children n) d"
| "insert_rev (p # ps) d n =
     (let n' = (if \<not> hasChild n p then addChild n p (newNode None) else n)
      in addChild n' p (insert_rev ps d (the (getChild n' p))))"

definition insert_parts :: "string list \<Rightarrow> 'a option \<Rightarrow> 'a node \<Rightarrow> 'a node" where
  "insert_parts parts d root = insert_rev (rev parts) d root"

definition Insert :: "string \<Rightarrow> 'a option \<Rightarrow> ('a node, unit) proc" where
  "Insert domain d root =
     (let (parts, valid) = ValidAndSplitDomain domain in
      if \<not> valid then (Err ErrInvalidDomain, root)
      else if parts ! 0 = complexWildcard
      then (Ret (), insert_parts (parts[0 := dotWildcard]) d (insert_parts (tl parts) d root))
      else (Ret (), insert_parts parts d root))"

text \<open>\<open>n != nil && n.Data != nil\<close>, the test on what the recursive searches return.\<close>

definition with_data :: "'a node option \<Rightarrow> 'a node option" where
  "with_data r = (case r of None \<Rightarrow> None | Some n \<Rightarrow> if Data n = None then None else Some n)"

fun search_rev :: "'a node \<Rightarrow> string list \<Rightarrow> 'a node option" where
  "search_rev n [] = Some n"
| "search_rev n (p # ps) =
     (case (case getChild n p of None \<Rightarrow> None | Some c \<Rightarrow> with_data (search_rev c ps)) of
        Some m \<Rightarrow> Some m
      | None \<Rightarrow>
          (case (case getChild n wildcard of None \<Rightarrow> None | Some c \<Rightarrow> with_data (search_rev c ps)) of
             Some m \<Rightarrow> Some m
           | None \<Rightarrow> getChild n dotWildcard))"

definition Search :: "'a node \<Rightarrow> string \<Rightarrow> 'a node option" where
  "Search root domain =
     (let (parts, valid) = ValidAndSplitDomain domain in
      if \<not> valid \<or> parts ! 0 = [] then None
      else with_data (search_rev root (rev parts)))"

definition New :: "'a node" where
  "New = newNode None"

section \<open>The trie as a map from paths\<close>

fun lookup_path :: "'a node \<Rightarrow> string list \<Rightarrow> 'a option" where
  "lookup_path n [] = Data n"
| "lookup_path n (p # ps) = (case getChild n p of None \<Rightarrow> None | Some c \<Rightarrow> lookup_path c ps)"

lemma node_ops [simp]:
  "Data (newNode d) = d" "getChild (newNode d) p = None"
  "Data (addChild n p c) = Data n"
  "getChild (addChild n p c) q = (if q = p then Some c else getChild n q)"
  "hasChild n p \<longleftrightarrow> getChild n p \<noteq> None"
  "Data (Node f d) = d" "getChild (Node (children n) d) = getChild n"
  by (auto simp: newNode_def getChild_def addChild_def hasChild_def split: option.splits)

lemma lookup_newNode [simp]: "lookup_path (newNode None) ps = None"
  by (cases ps) auto

lemma lookup_New [simp]: "lookup_path New ps = None"
  by (simp add: New_def)

lemma lookup_Node [simp]: "lookup_path (Node (children n) d) qs = (if qs = [] then d else lookup_path n qs)"
  by (cases qs) simp_all

lemma lookup_insert_rev:
  "lookup_path (insert_rev ps d n) qs = (if qs = ps then d else lookup_path n qs)"
proof (induction ps arbitrary: n qs)
  case (Cons p ps)
  show ?case by (cases qs) (auto simp: Let_def Cons.IH split: option.splits)
qed simp

text \<open>The trie keeps the contract of a keyed store whose keys are label paths.\<close>

interpretation trie: keyed_store "\<lambda>_. True" New "\<lambda>ps d. insert_rev ps (Some d)" lookup_path
  by unfold_locales (simp_all add: lookup_insert_rev)

text \<open>The paths a pattern is stored under.\<close>

definition pattern_paths :: "string \<Rightarrow> string list list" where
  "pattern_paths domain =
     (let (parts, valid) = ValidAndSplitDomain domain in
      if \<not> valid then []
      else if parts ! 0 = complexWildcard then [rev (tl parts), rev (dotWildcard # tl parts)]
      else [rev parts])"

lemma ValidAndSplit_parts:
  "ValidAndSplitDomain d = (parts, True) \<Longrightarrow> parts = split_chr domainStep d \<and> parts \<noteq> []"
  by (auto simp: ValidAndSplitDomain_def Let_def split: if_splits)

lemma Insert_puts:
  "snd (Insert pat (Some d) t) = trie.puts (map (\<lambda>p. (p, d)) (pattern_paths pat)) t"
proof -
  obtain parts valid where v: "ValidAndSplitDomain pat = (parts, valid)" by fastforce
  have "valid \<Longrightarrow> parts = hd parts # tl parts" using ValidAndSplit_parts [of pat parts] v by simp
  then have "valid \<Longrightarrow> parts[0 := dotWildcard] = dotWildcard # tl parts"
    by (metis list_update_code(2))
  then show ?thesis using v
    by (auto simp: Insert_def pattern_paths_def insert_parts_def trie.puts_def)
qed

text \<open>Loading a list of patterns, the way the rule constructors do.\<close>

definition load :: "(string \<times> 'a) list \<Rightarrow> 'a node \<Rightarrow> 'a node" where
  "load rules t = fold (\<lambda>(pat, d) t. snd (Insert pat (Some d) t)) rules t"

definition rule_paths :: "(string \<times> 'a) list \<Rightarrow> (string list \<times> 'a) list" where
  "rule_paths rules = concat (map (\<lambda>(pat, d). map (\<lambda>p. (p, d)) (pattern_paths pat)) rules)"

lemma load_puts: "load rules t = trie.puts (rule_paths rules) t"
  by (induction rules arbitrary: t) (auto simp: load_def rule_paths_def trie.puts_def Insert_puts)

section \<open>Pattern matching\<close>

text \<open>When a stored path matches the labels of a name, both from the last label to the first.\<close>

fun path_matches :: "string list \<Rightarrow> string list \<Rightarrow> bool" where
  "path_matches [] [] = True"
| "path_matches [] (p # ps) = False"
| "path_matches (q # qs) [] = False"
| "path_matches (q # qs) (p # ps) =
     ((q = p \<or> q = wildcard) \<and> path_matches qs ps \<or> q = dotWildcard \<and> qs = [])"

definition pattern_matches :: "string \<Rightarrow> string list \<Rightarrow> bool" where
  "pattern_matches pat labels = list_ex (\<lambda>q. path_matches q (rev labels)) (pattern_paths pat)"

lemma with_data_Some [simp]: "with_data r = Some n \<longleftrightarrow> r = Some n \<and> Data n \<noteq> None"
  by (auto simp: with_data_def split: option.splits)

lemma with_data_simps [simp]:
  "with_data None = None" "with_data (Some n) = (if Data n = None then None else Some n)"
  by (simp_all add: with_data_def)

lemma search_cases:
  assumes "with_data (search_rev n (p # ps)) = Some m"
  obtains (static) c where "getChild n p = Some c" "with_data (search_rev c ps) = Some m"
    | (wild) c where "getChild n wildcard = Some c" "with_data (search_rev c ps) = Some m"
    | (dot) "getChild n dotWildcard = Some m"
  using assms by (auto split: option.splits)

lemma search_sound:
  "with_data (search_rev n ps) = Some m \<Longrightarrow>
     \<exists>qs. path_matches qs ps \<and> lookup_path n qs = Data m"
proof (induction ps arbitrary: n)
  case Nil
  then show ?case by (intro exI [of _ "[]"]) (simp split: if_splits)
next
  case (Cons p ps)
  from Cons.prems show ?case
  proof (cases rule: search_cases)
    case (static c)
    with Cons.IH obtain qs where "path_matches qs ps" "lookup_path c qs = Data m" by blast
    then show ?thesis using static by (intro exI [of _ "p # qs"]) simp
  next
    case (wild c)
    with Cons.IH obtain qs where "path_matches qs ps" "lookup_path c qs = Data m" by blast
    then show ?thesis using wild by (intro exI [of _ "wildcard # qs"]) simp
  next
    case dot
    then show ?thesis by (intro exI [of _ "[dotWildcard]"]) simp
  qed
qed

lemma search_complete:
  "path_matches qs ps \<Longrightarrow> lookup_path n qs \<noteq> None \<Longrightarrow> with_data (search_rev n ps) \<noteq> None"
proof (induction qs ps arbitrary: n rule: path_matches.induct)
  case (4 q qs p ps)
  from 4(3) obtain c where c: "getChild n q = Some c" "lookup_path c qs \<noteq> None"
    by (auto split: option.splits)
  show ?case
  proof (cases "(q = p \<or> q = wildcard) \<and> path_matches qs ps")
    case True
    with 4 c have "with_data (search_rev c ps) \<noteq> None" by blast
    then show ?thesis using True c by (auto split: option.splits)
  next
    case False
    with 4(2) c have "getChild n dotWildcard = Some c" "Data c \<noteq> None" by auto
    then show ?thesis by (auto split: option.splits)
  qed
qed auto

text \<open>A stored name is found before any wildcard.\<close>

lemma search_exact:
  "lookup_path n ps = Some d \<Longrightarrow> \<exists>m. with_data (search_rev n ps) = Some m \<and> Data m = Some d"
proof (induction ps arbitrary: n)
  case (Cons p ps)
  then obtain c where c: "getChild n p = Some c" "lookup_path c ps = Some d"
    by (auto split: option.splits)
  with Cons.IH obtain m where "with_data (search_rev c ps) = Some m" "Data m = Some d" by blast
  then show ?case using c by (auto simp: with_data_def)
qed simp

definition query_labels :: "string \<Rightarrow> string list option" where
  "query_labels domain = (let (parts, valid) = ValidAndSplitDomain domain in
     if valid \<and> parts ! 0 \<noteq> [] then Some parts else None)"

lemma Search_alt:
  "Search t domain = (case query_labels domain of None \<Rightarrow> None
     | Some parts \<Rightarrow> with_data (search_rev t (rev parts)))"
  by (auto simp: Search_def query_labels_def split: prod.splits)

lemma lookup_load:
  "lookup_path (load rules New) q \<noteq> None \<longleftrightarrow> (\<exists>(pat, d) \<in> set rules. q \<in> set (pattern_paths pat))"
  unfolding load_puts trie.get_puts_in_dom by (auto simp: rule_paths_def image_iff)

lemma lookup_load_in:
  "lookup_path (load rules New) q = Some d \<Longrightarrow> \<exists>pat. (pat, d) \<in> set rules \<and> q \<in> set (pattern_paths pat)"
  unfolding load_puts by (drule trie.get_puts_in) (auto simp: rule_paths_def)

lemma Search_load_iff:
  "Search (load rules New) name \<noteq> None \<longleftrightarrow>
     (\<exists>labels. query_labels name = Some labels \<and> (\<exists>(pat, d) \<in> set rules. pattern_matches pat labels))"
proof (cases "query_labels name")
  case (Some labels)
  let ?t = "load rules New" and ?ps = "rev labels"
  have "Search ?t name \<noteq> None \<longleftrightarrow> (\<exists>qs. path_matches qs ?ps \<and> lookup_path ?t qs \<noteq> None)"
    using search_sound [of ?t ?ps] search_complete [of _ ?ps ?t] Some
    by (auto simp: Search_alt) (metis not_None_eq with_data_Some)+
  also have "\<dots> \<longleftrightarrow> (\<exists>(pat, d) \<in> set rules. pattern_matches pat labels)"
    unfolding lookup_load pattern_matches_def list_ex_iff by fastforce
  finally show ?thesis using Some by simp
qed (simp add: Search_alt)

lemma Search_load_sound:
  assumes "Search (load rules New) name = Some m"
  shows "\<exists>labels pat d. query_labels name = Some labels \<and> (pat, d) \<in> set rules
     \<and> pattern_matches pat labels \<and> Data m = Some d"
proof -
  from assms obtain labels where l: "query_labels name = Some labels"
    and s: "with_data (search_rev (load rules New) (rev labels)) = Some m"
    by (auto simp: Search_alt split: option.splits)
  from search_sound [OF s] obtain qs
    where q: "path_matches qs (rev labels)" "lookup_path (load rules New) qs = Data m" by blast
  from s obtain d where d: "Data m = Some d" by auto
  with q lookup_load_in obtain pat where "(pat, d) \<in> set rules" "qs \<in> set (pattern_paths pat)" by metis
  with q l d show ?thesis unfolding pattern_matches_def list_ex_iff by blast
qed

text \<open>The suffix patterns \<open>+.name\<close>, in terms of the text of the names.\<close>

lemma split_chr_app: "split_chr c (u @ c # s) = split_chr c u @ split_chr c s"
  by (induction u) auto

lemma path_matches_plain:
  "\<forall>q \<in> set qs. q \<noteq> wildcard \<and> q \<noteq> dotWildcard \<Longrightarrow> path_matches qs ps \<longleftrightarrow> qs = ps"
  by (induction qs ps rule: path_matches.induct) auto

lemma path_matches_suffix:
  "\<forall>q \<in> set qs. q \<noteq> wildcard \<and> q \<noteq> dotWildcard \<Longrightarrow>
     path_matches (qs @ [dotWildcard]) ps \<longleftrightarrow> (\<exists>p r. ps = qs @ p # r)"
proof (induction qs arbitrary: ps)
  case Nil
  have "path_matches [] ps \<longleftrightarrow> ps = []" for ps by (cases ps) auto
  then show ?case by (cases ps) auto
next
  case (Cons q qs)
  then show ?case by (cases ps) auto
qed

definition plain_name :: "string \<Rightarrow> bool" where
  "plain_name s = list_all (\<lambda>p. p \<noteq> [] \<and> p \<noteq> wildcard) (split_chr domainStep s)"

lemma plain_name_last: "plain_name s \<Longrightarrow> s \<noteq> [] \<and> last s \<noteq> domainStep"
proof
  assume p: "plain_name s"
  then show ne: "s \<noteq> []" by (auto simp: plain_name_def)
  show "last s \<noteq> domainStep"
  proof
    assume "last s = domainStep"
    then have "s = butlast s @ domainStep # []" using ne by (metis append_butlast_last_id)
    then have "split_chr domainStep s = split_chr domainStep (butlast s) @ [[]]"
      by (metis split_chr_app split_chr.simps(1))
    then show False using p by (simp add: plain_name_def)
  qed
qed

lemma pattern_paths_suffix:
  assumes "plain_name s"
  shows "pattern_paths (''+.'' @ s) =
    [rev (split_chr domainStep s), rev (split_chr domainStep s) @ [dotWildcard]]"
proof -
  have sp: "split_chr domainStep (''+.'' @ s) = complexWildcard # split_chr domainStep s"
    by (simp add: domainStep_def complexWildcard_def)
  have "\<not> list_ex (\<lambda>p. p = []) (split_chr domainStep s)"
    using assms by (auto simp: plain_name_def list_all_iff list_ex_iff)
  then have "ValidAndSplitDomain (''+.'' @ s) = (complexWildcard # split_chr domainStep s, True)"
    using plain_name_last [OF assms] unfolding ValidAndSplitDomain_def sp by simp
  then show ?thesis by (simp add: pattern_paths_def)
qed

lemma join_chr_append:
  "x \<noteq> [] \<Longrightarrow> y \<noteq> [] \<Longrightarrow> join_chr c (x @ y) = join_chr c x @ c # join_chr c y"
  by (induction c x rule: join_chr.induct) (auto simp: join_chr_Cons)

lemma suffix_pattern_matches:
  assumes "plain_name s" "query_labels name = Some labels"
  shows "pattern_matches (''+.'' @ s) labels \<longleftrightarrow> name = s \<or> hasSuffix name (CHR ''.'' # s)"
proof -
  let ?S = "split_chr domainStep s"
  have plain: "\<forall>q \<in> set (rev ?S). q \<noteq> wildcard \<and> q \<noteq> dotWildcard"
    using assms(1) by (auto simp: plain_name_def list_all_iff dotWildcard_def)
  have labels: "labels = split_chr domainStep name"
    using assms(2) by (auto simp: query_labels_def split: prod.splits if_splits dest: ValidAndSplit_parts)
  have rev_iff: "(\<exists>p r. rev labels = rev ?S @ p # r) \<longleftrightarrow> (\<exists>u. u \<noteq> [] \<and> labels = u @ ?S)"
    by (metis (no_types, lifting) Nil_is_rev_conv list.exhaust rev_append rev_rev_ident list.distinct(1))
  have "pattern_matches (''+.'' @ s) labels \<longleftrightarrow>
      labels = ?S \<or> (\<exists>u. u \<noteq> [] \<and> labels = u @ ?S)"
    unfolding pattern_matches_def pattern_paths_suffix [OF assms(1)]
    by (simp add: path_matches_plain [OF plain] path_matches_suffix [OF plain] rev_iff) auto
  also have "labels = ?S \<longleftrightarrow> name = s"
    unfolding labels by (metis join_split)
  also have "(\<exists>u. u \<noteq> [] \<and> labels = u @ ?S) \<longleftrightarrow> hasSuffix name (domainStep # s)"
  proof
    assume "\<exists>u. u \<noteq> [] \<and> labels = u @ ?S"
    then obtain u where u: "u \<noteq> []" "labels = u @ ?S" by blast
    from join_chr_append [OF u(1), of ?S domainStep] u labels have "name = join_chr domainStep u @ domainStep # s"
      by (metis join_split split_chr_neq_Nil)
    then show "hasSuffix name (domainStep # s)" by (auto simp: hasSuffix_iff)
  next
    assume "hasSuffix name (domainStep # s)"
    then obtain v where "name = v @ domainStep # s" by (auto simp: hasSuffix_iff)
    then have "labels = split_chr domainStep v @ ?S" by (simp add: labels split_chr_app)
    then show "\<exists>u. u \<noteq> [] \<and> labels = u @ ?S" by (metis split_chr_neq_Nil)
  qed
  finally show ?thesis by (simp add: domainStep_def)
qed

section \<open>Properties\<close>

text \<open>
  C4. The domain trie decides pattern matching: after any list of patterns has been inserted, a
  search finds a node exactly when the name is valid and one of the valid patterns matches its
  labels, and the data it returns is the data of a pattern that matches.
\<close>

theorem trie_search_correct:
  "case Search (load rules New) name of
     None \<Rightarrow> \<nexists>labels pat d. query_labels name = Some labels \<and> (pat, d) \<in> set rules \<and> pattern_matches pat labels
   | Some m \<Rightarrow> \<exists>labels pat d. query_labels name = Some labels \<and> (pat, d) \<in> set rules
       \<and> pattern_matches pat labels \<and> Data m = Some d"
proof (cases "Search (load rules New) name")
  case None
  then show ?thesis using Search_load_iff [of rules name] by auto
next
  case (Some m)
  then show ?thesis using Search_load_sound by force
qed

text \<open>
  An insertion changes the data of its own paths only, and an exact name wins over every
  wildcard pattern that also matches: whatever the trie holds, after inserting a valid name (with no
  leading \<open>+\<close> or empty label) the search for that name returns the inserted data.
\<close>

theorem trie_insert_then_search:
  assumes "query_labels name = Some labels" "hd labels \<noteq> complexWildcard"
  shows "\<exists>m. Search (snd (Insert name (Some d) t)) name = Some m \<and> Data m = Some d"
proof -
  have v: "ValidAndSplitDomain name = (labels, True)"
    using assms(1) by (auto simp: query_labels_def split: prod.splits if_splits)
  then have "labels \<noteq> []" using ValidAndSplit_parts by blast
  then have "snd (Insert name (Some d) t) = insert_rev (rev labels) (Some d) t"
    using v assms(2) by (simp add: Insert_def insert_parts_def hd_conv_nth)
  then show ?thesis using assms(1) search_exact [of _ "rev labels" d]
    by (simp add: Search_alt lookup_insert_rev)
qed

theorem trie_insert_then_search_witness:
  "\<exists>m. Search (snd (Insert ''a.b'' (Some (2::nat)) (snd (Insert ''*.b'' (Some 1) New)))) ''a.b'' = Some m
     \<and> Data m = Some 2"
  by (rule trie_insert_then_search [where labels = "[''a'', ''b'']"]) (code_simp, code_simp)

end
