(* ===== verification/Rule.thy ===== *)
theory Rule
  imports Domain_Trie Go_Net
begin

text \<open>
  The packages \<open>rule\<close> and \<open>geoip\<close>: the matchers for the six kinds of rules and the ruler that tries
  them in order and selects the proxy node of a request. The country database and the host lookup of
  the resolver are arguments, collected in the record \<open>renv\<close>.
\<close>

section \<open>Address prefixes (net/netip)\<close>

definition netaddr_string :: "netaddr \<Rightarrow> string" where
  "netaddr_string a = (case a of
     NoAddr \<Rightarrow> ''invalid IP''
   | Addr4 b \<Rightarrow> ipv4_string b
   | Addr6 b z \<Rightarrow>
       (if take 12 b = v4InV6Prefix then ''::ffff:'' @ ipv4_string (drop 12 b) else ipv6_string b)
       @ (if z = [] then [] else CHR ''%'' # z))"

definition IsValid :: "netaddr \<Rightarrow> bool" where
  "IsValid a = (case a of NoAddr \<Rightarrow> False | _ \<Rightarrow> True)"

text \<open>\<open>netip.ParsePrefix\<close>: the address and the number of bits.\<close>

definition ParsePrefix :: "string \<Rightarrow> (netaddr \<times> nat) option" where
  "ParsePrefix s = (case last_index_chr (CHR ''/'') s of
     None \<Rightarrow> None
   | Some i \<Rightarrow> (case netip_ParseAddr (take i s) of
       None \<Rightarrow> None
     | Some ip \<Rightarrow>
         (let bitsStr = drop (i + 1) s; (bits, e) = atoi bitsStr;
              maxBits = (case ip of Addr4 _ \<Rightarrow> 32 | _ \<Rightarrow> 128);
              zoned = (case ip of Addr6 _ z \<Rightarrow> z \<noteq> [] | _ \<Rightarrow> False);
              lead = (1 < length bitsStr \<and> (ord (hd bitsStr) < 49 \<or> 57 < ord (hd bitsStr)))
          in if zoned \<or> lead \<or> e \<noteq> None \<or> bits < 0 \<or> int maxBits < bits then None
             else Some (ip, nat bits))))"

definition Prefix_Contains :: "netaddr \<times> nat \<Rightarrow> netaddr \<Rightarrow> bool" where
  "Prefix_Contains p a = (case p of (ip, bits) \<Rightarrow>
     (case (ip, a) of
        (Addr4 x, Addr4 y) \<Rightarrow> be_val x div 2 ^ (32 - bits) = be_val y div 2 ^ (32 - bits)
      | (Addr6 x _, Addr6 y z) \<Rightarrow>
          z = [] \<and> be_val x div 2 ^ (128 - bits) = be_val y div 2 ^ (128 - bits)
      | _ \<Rightarrow> False))"

section \<open>Model of geoip/query.go\<close>

text \<open>
  \<open>db_country\<close> is the lookup in the country database (\<open>None\<close>: an error), \<open>lookup_host\<close> the method
  \<open>LookupHost\<close> of the default resolver.
\<close>

record renv =
  db_country :: "bytes \<Rightarrow> string option"
  lookup_host :: "string \<Rightarrow> netaddr"

definition QueryCountryByIP :: "renv \<Rightarrow> netaddr \<Rightarrow> string" where
  "QueryCountryByIP E ip =
     (if \<not> IsValid ip then []
      else case db_country E (case ip of Addr4 b \<Rightarrow> b | Addr6 b _ \<Rightarrow> b | NoAddr \<Rightarrow> []) of
        None \<Rightarrow> [] | Some code \<Rightarrow> code)"

definition QueryCountryByString :: "renv \<Rightarrow> string \<Rightarrow> string" where
  "QueryCountryByString E s = (case netip_ParseAddr s of None \<Rightarrow> [] | Some ip \<Rightarrow> QueryCountryByIP E ip)"

section \<open>Model of rule/rule.go: rules and modes\<close>

datatype RuleMode = Global | Direct | Match

definition RuleDomain :: string where "RuleDomain = ''DOMAIN''"
definition RuleDomainKeyword :: string where "RuleDomainKeyword = ''DOMAIN-KEYWORD''"
definition RuleDomainSuffix :: string where "RuleDomainSuffix = ''DOMAIN-SUFFIX''"
definition RuleGeoIP :: string where "RuleGeoIP = ''GEOIP''"
definition RuleIPCIDR :: string where "RuleIPCIDR = ''IP-CIDR''"
definition RuleOthers :: string where "RuleOthers = ''OTHERS''"

definition IndexToRuleType :: "string list" where
  "IndexToRuleType = [RuleDomain, RuleDomainKeyword, RuleDomainSuffix, RuleGeoIP, RuleIPCIDR, RuleOthers]"

record RuleItem =
  ruleMode :: RuleMode
  ruleType :: string
  Proxy :: string
  Value :: "string list"
  Resolve :: bool
  Accept :: bool

fun RuleMode_String :: "RuleMode \<Rightarrow> string" where
  "RuleMode_String Global = ''GLOBAL''"
| "RuleMode_String Direct = ''DIRECT''"
| "RuleMode_String Match = ''MATCH''"

section \<open>Models of the matchers\<close>

text \<open>The field \<open>result\<close> is a pointer: \<open>None\<close> until the first match.\<close>

datatype Matcher =
    DomainRule "RuleItem option" "RuleItem node"
  | DomainKeywordRule "RuleItem option" "RuleItem list"
  | DomainSuffixRule "RuleItem option" "RuleItem node"
  | GeoipRule "RuleItem option" "RuleItem list"
  | IpCIDRRule "RuleItem option" "RuleItem list"
  | OtherRule RuleItem

definition newDomainRule :: "RuleItem list \<Rightarrow> Matcher" where
  "newDomainRule rules = DomainRule None
     (fold (\<lambda>rx t. fold (\<lambda>v t. snd (Insert v (Some rx) t)) (Value rx) t) rules New)"

definition newDomainSuffixRule :: "RuleItem list \<Rightarrow> Matcher" where
  "newDomainSuffixRule rules = DomainSuffixRule None
     (fold (\<lambda>rx t. fold (\<lambda>v t. snd (Insert (''+.'' @ v) (Some rx) t)) (Value rx) t) rules New)"

definition newRuleMatcher :: "string \<Rightarrow> RuleItem list \<Rightarrow> Matcher go" where
  "newRuleMatcher rtype rules =
     (if rtype = RuleDomain then Ret (newDomainRule rules)
      else if rtype = RuleDomainSuffix then Ret (newDomainSuffixRule rules)
      else if rtype = RuleDomainKeyword then Ret (DomainKeywordRule None rules)
      else if rtype = RuleGeoIP then Ret (GeoipRule None rules)
      else if rtype = RuleIPCIDR then Ret (IpCIDRRule None rules)
      else if rtype = RuleOthers then (case rules of [] \<Rightarrow> Panic | r # _ \<Rightarrow> Ret (OtherRule r))
      else Panic)"

text \<open>The rule found by the nested loops over the rules and their values.\<close>

fun keyword_loop :: "string \<Rightarrow> RuleItem list \<Rightarrow> RuleItem option" where
  "keyword_loop target [] = None"
| "keyword_loop target (rx # R) =
     (if list_ex (\<lambda>rule. contains_sub target rule) (Value rx) then Some rx else keyword_loop target R)"

text \<open>\<open>if rx.Resolve \{...\}\<close>: a target that is no address is replaced by the address it resolves to.\<close>

definition resolve_target :: "renv \<Rightarrow> RuleItem \<Rightarrow> string \<Rightarrow> string" where
  "resolve_target E rx target =
     (if Resolve rx then
        (case netip_ParseAddr target of
           Some _ \<Rightarrow> target
         | None \<Rightarrow> (let ip = lookup_host E target in if IsValid ip then netaddr_string ip else target))
      else target)"

definition parsed_addr :: "string \<Rightarrow> netaddr" where
  "parsed_addr s = (case netip_ParseAddr s of None \<Rightarrow> NoAddr | Some a \<Rightarrow> a)"

fun geoip_loop :: "renv \<Rightarrow> string \<Rightarrow> RuleItem list \<Rightarrow> RuleItem option \<times> string" where
  "geoip_loop E target [] = (None, target)"
| "geoip_loop E target (rx # R) =
     (let t = resolve_target E rx target; ip = parsed_addr t in
      if list_ex (\<lambda>rule. rule = QueryCountryByIP E ip) (Value rx) then (Some rx, t)
      else geoip_loop E t R)"

text \<open>\<open>netip.MustParsePrefix\<close> panics on a malformed prefix.\<close>

fun cidr_values :: "netaddr \<Rightarrow> string list \<Rightarrow> bool go" where
  "cidr_values ip [] = Ret False"
| "cidr_values ip (rule # rs) = (case ParsePrefix rule of
     None \<Rightarrow> Panic
   | Some subnet \<Rightarrow> if Prefix_Contains subnet ip then Ret True else cidr_values ip rs)"

fun cidr_loop :: "renv \<Rightarrow> string \<Rightarrow> RuleItem list \<Rightarrow> RuleItem option go \<times> string" where
  "cidr_loop E target [] = (Ret None, target)"
| "cidr_loop E target (rx # R) =
     (let t = resolve_target E rx target in
      case cidr_values (parsed_addr t) (Value rx) of
        Ret True \<Rightarrow> (Ret (Some rx), t)
      | Ret False \<Rightarrow> cidr_loop E t R
      | Err e \<Rightarrow> (Err e, t)
      | Panic \<Rightarrow> (Panic, t))"

text \<open>\<open>Match\<close>: whether the target matched, the matcher with its result, and the target, which a
  resolving rule may have rewritten.\<close>

definition trie_match :: "RuleItem option \<Rightarrow> RuleItem node \<Rightarrow> string \<Rightarrow> bool \<times> RuleItem option" where
  "trie_match result t target =
     (if target = [] then (False, result)
      else case Search t target of None \<Rightarrow> (False, result) | Some res \<Rightarrow> (True, Data res))"

fun Matcher_Match :: "renv \<Rightarrow> Matcher \<Rightarrow> string \<Rightarrow> bool go \<times> Matcher \<times> string" where
  "Matcher_Match E (DomainRule res t) target =
     (case trie_match res t target of (b, res') \<Rightarrow> (Ret b, DomainRule res' t, target))"
| "Matcher_Match E (DomainSuffixRule res t) target =
     (case trie_match res t target of (b, res') \<Rightarrow> (Ret b, DomainSuffixRule res' t, target))"
| "Matcher_Match E (DomainKeywordRule res R) target =
     (if target = [] then (Ret False, DomainKeywordRule res R, target)
      else case keyword_loop target R of
        None \<Rightarrow> (Ret False, DomainKeywordRule res R, target)
      | Some rx \<Rightarrow> (Ret True, DomainKeywordRule (Some rx) R, target))"
| "Matcher_Match E (GeoipRule res R) target =
     (case geoip_loop E target R of
        (None, t) \<Rightarrow> (Ret False, GeoipRule res R, t)
      | (Some rx, t) \<Rightarrow> (Ret True, GeoipRule (Some rx) R, t))"
| "Matcher_Match E (IpCIDRRule res R) target =
     (case cidr_loop E target R of
        (Ret None, t) \<Rightarrow> (Ret False, IpCIDRRule res R, t)
      | (Ret (Some rx), t) \<Rightarrow> (Ret True, IpCIDRRule (Some rx) R, t)
      | (Err e, t) \<Rightarrow> (Err e, IpCIDRRule res R, t)
      | (Panic, t) \<Rightarrow> (Panic, IpCIDRRule res R, t))"
| "Matcher_Match E (OtherRule R) target = (Ret (Proxy R \<noteq> []), OtherRule R, target)"

fun MatchedResult :: "Matcher \<Rightarrow> RuleItem option" where
  "MatchedResult (DomainRule res t) = res"
| "MatchedResult (DomainSuffixRule res t) = res"
| "MatchedResult (DomainKeywordRule res R) = res"
| "MatchedResult (GeoipRule res R) = res"
| "MatchedResult (IpCIDRRule res R) = res"
| "MatchedResult (OtherRule R) = Some R"

section \<open>Model of rule/rule.go: the ruler\<close>

record Ruler =
  mode :: RuleMode
  matched :: "RuleItem option"
  MS :: "Matcher list"
  DirectTo :: string
  GlobalTo :: string

fun new_matchers :: "string list \<Rightarrow> RuleItem list list \<Rightarrow> Matcher list go" where
  "new_matchers types [] = Ret []"
| "new_matchers [] (rules # all) = Panic"
| "new_matchers (ty # types) (rules # all) =
     bind_go (newRuleMatcher ty rules) (\<lambda>m. bind_go (new_matchers types all) (\<lambda>ms. Ret (m # ms)))"

definition NewRuler :: "RuleMode \<Rightarrow> string \<Rightarrow> string \<Rightarrow> RuleItem list list \<Rightarrow> Ruler go" where
  "NewRuler md directTo globalTo allRules =
     bind_go (new_matchers IndexToRuleType allRules) (\<lambda>matchers.
       Ret \<lparr>mode = md, matched = None, MS = matchers,
            DirectTo = (if directTo = ''direct'' \<or> directTo = ''global'' then [] else directTo),
            GlobalTo = (if globalTo = ''global'' \<or> globalTo = ''direct'' then [] else globalTo)\<rparr>)"

text \<open>The loop over the matchers: what it returns, the field \<open>matched\<close>, the matchers and the target.\<close>

fun ruler_loop :: "('m \<Rightarrow> string \<Rightarrow> bool go \<times> 'm \<times> string) \<Rightarrow> ('m \<Rightarrow> RuleItem option)
    \<Rightarrow> 'm list \<Rightarrow> RuleItem option \<Rightarrow> string \<Rightarrow> bool go \<times> RuleItem option \<times> 'm list \<times> string" where
  "ruler_loop match result [] md target = (Ret False, md, [], target)"
| "ruler_loop match result (m # ms) md target =
     (case match m target of
        (Ret True, m', t) \<Rightarrow>
          (case result m' of
             None \<Rightarrow> (Panic, None, m' # ms, t)
           | Some item \<Rightarrow> (Ret (Accept item), Some item, m' # ms, t))
      | (Ret False, m', t) \<Rightarrow>
          (case ruler_loop match result ms md t of (r, md', ms', t') \<Rightarrow> (r, md', m' # ms', t'))
      | (Err e, m', t) \<Rightarrow> (Err e, md, m' # ms, t)
      | (Panic, m', t) \<Rightarrow> (Panic, md, m' # ms, t))"

definition Ruler_Match :: "renv \<Rightarrow> Ruler \<Rightarrow> string \<Rightarrow> bool go \<times> Ruler \<times> string" where
  "Ruler_Match E r target =
     (if mode r = Global \<or> mode r = Direct then
        (Ret True, r\<lparr>matched := Some \<lparr>ruleMode = mode r, ruleType = [], Proxy = ''auto-select'',
           Value = [], Resolve = False, Accept = True\<rparr>\<rparr>, target)
      else case ruler_loop (Matcher_Match E) MatchedResult (MS r) (matched r) target of
        (b, md, ms, t) \<Rightarrow> (b, r\<lparr>matched := md, MS := ms\<rparr>, t))"

definition MatcherResult :: "Ruler \<Rightarrow> RuleItem option" where
  "MatcherResult r = matched r"

text \<open>\<open>Select\<close>: the proxy node to use, where the empty string is a direct connection.\<close>

definition Ruler_Select :: "Ruler \<Rightarrow> string go" where
  "Ruler_Select r = (case matched r of
     None \<Rightarrow> Panic
   | Some item \<Rightarrow>
       (let globalTo = (if GlobalTo r = [] then Err ErrEmptyGlobalProxyNode else Ret (GlobalTo r));
            directTo = Ret (DirectTo r) in
        case ruleMode item of
          Match \<Rightarrow>
            if Proxy item = ''global'' then globalTo
            else if Proxy item = ''direct'' then directTo
            else if Proxy item \<noteq> [] then Ret (Proxy item)
            else Err ErrRuleMatchDropped
        | Global \<Rightarrow> globalTo
        | Direct \<Rightarrow> directTo))"

section \<open>The matcher contract\<close>

fun fresh_matcher :: "Matcher \<Rightarrow> Matcher" where
  "fresh_matcher (DomainRule res t) = DomainRule None t"
| "fresh_matcher (DomainSuffixRule res t) = DomainSuffixRule None t"
| "fresh_matcher (DomainKeywordRule res R) = DomainKeywordRule None R"
| "fresh_matcher (GeoipRule res R) = GeoipRule None R"
| "fresh_matcher (IpCIDRRule res R) = IpCIDRRule None R"
| "fresh_matcher (OtherRule R) = OtherRule R"

lemma trie_match_True: "trie_match res t target = (True, res') \<Longrightarrow> res' \<noteq> None"
  by (auto simp: trie_match_def Search_def split: if_splits option.splits prod.splits)

lemma trie_match_history:
  "fst (trie_match res t target) = fst (trie_match None t target)"
  "fst (trie_match res t target) \<Longrightarrow> snd (trie_match res t target) = snd (trie_match None t target)"
  by (auto simp: trie_match_def split: option.splits)

lemma Matcher_Match_fresh:
  "fst (Matcher_Match E m t) = fst (Matcher_Match E (fresh_matcher m) t)
   \<and> snd (snd (Matcher_Match E m t)) = snd (snd (Matcher_Match E (fresh_matcher m) t))
   \<and> (fst (Matcher_Match E m t) = Ret True \<longrightarrow>
        MatchedResult (fst (snd (Matcher_Match E m t)))
          = MatchedResult (fst (snd (Matcher_Match E (fresh_matcher m) t))))"
  using trie_match_history by (cases m) (auto split: prod.splits option.splits go.splits simp: prod_eq_iff)

text \<open>What the ruler derives from the contract of its matchers.\<close>

locale ruler_client = matcher match result fresh
  for match :: "'m \<Rightarrow> string \<Rightarrow> bool go \<times> 'm \<times> string"
    and result :: "'m \<Rightarrow> RuleItem option"
    and fresh :: "'m \<Rightarrow> 'm"
begin

abbreviation loop where "loop \<equiv> ruler_loop match result"

lemma loop_fresh: "map fresh (fst (snd (snd (loop ms md t)))) = map fresh ms"
proof (induction ms arbitrary: t)
  case (Cons m ms)
  obtain b m' t' where m: "match m t = (b, m', t')" by (cases "match m t") auto
  have "fresh m' = fresh m" using match_fresh [of m t] m by simp
  then show ?case using Cons.IH [of t'] m
    by (cases "loop ms md t'") (auto split: go.splits bool.splits option.splits)
qed simp

lemma loop_history:
  assumes "map fresh ms1 = map fresh ms2"
  shows "fst (loop ms1 md1 t) = fst (loop ms2 md2 t)
    \<and> snd (snd (snd (loop ms1 md1 t))) = snd (snd (snd (loop ms2 md2 t)))
    \<and> (fst (loop ms1 md1 t) = Ret True \<longrightarrow> fst (snd (loop ms1 md1 t)) = fst (snd (loop ms2 md2 t)))"
  using assms
proof (induction ms1 arbitrary: ms2 t)
  case (Cons m ms)
  then obtain n ns where ms2: "ms2 = n # ns" and f: "fresh m = fresh n" and fs: "map fresh ms = map fresh ns"
    by auto
  obtain b m' t' where m: "match m t = (b, m', t')" by (cases "match m t") auto
  obtain c n' u' where n: "match n t = (c, n', u')" by (cases "match n t") auto
  have eq: "c = b" "u' = t'" "b = Ret True \<Longrightarrow> result m' = result n'"
    using match_history [OF f, of t] m n by auto
  show ?case
  proof (cases "b = Ret True")
    case True
    then show ?thesis using eq m n ms2 by (auto split: option.splits)
  next
    case False
    show ?thesis
    proof (cases "b = Ret False")
      case True
      then show ?thesis using Cons.IH [OF fs, of t'] eq m n ms2 by (auto split: prod.splits)
    next
      case b: False
      then show ?thesis using eq m n ms2 False by (auto split: go.splits bool.splits)
    qed
  qed
qed simp

lemma loop_True: "loop ms md t = (Ret True, md', ms', t') \<Longrightarrow> \<exists>item. md' = Some item \<and> Accept item"
proof (induction ms arbitrary: t ms')
  case (Cons m ms)
  obtain b m' u where m: "match m t = (b, m', u)" by (cases "match m t") auto
  show ?case
  proof (cases "b = Ret True")
    case True
    then show ?thesis using Cons.prems m by (cases "result m'") (auto dest: sym [of "Some _"])
  next
    case False
    then obtain ms'' where "loop ms md u = (Ret True, md', ms'', t')"
      using Cons.prems m by (auto split: go.splits bool.splits prod.splits)
    then show ?thesis by (rule Cons.IH)
  qed
qed simp

lemma loop_returns:
  assumes "\<And>m t. m \<in> set ms \<Longrightarrow> \<exists>b. fst (match m t) = Ret b"
  shows "\<exists>b. fst (loop ms md t) = Ret b"
  using assms
proof (induction ms arbitrary: t)
  case (Cons m ms)
  obtain b m' t' where m: "match m t = (Ret b, m', t')"
    using Cons.prems [of m t] by (cases "match m t") auto
  show ?case
  proof (cases b)
    case True
    then show ?thesis using m match_result [of m t m' t'] by auto
  next
    case False
    then show ?thesis using m Cons.IH [of t'] Cons.prems by (auto split: prod.splits)
  qed
qed auto

end

interpretation rule_matcher: ruler_client "Matcher_Match E" MatchedResult fresh_matcher
proof
  show "MatchedResult m' \<noteq> None" if "Matcher_Match E m t = (Ret True, m', t')" for m t m' t'
    using that trie_match_True
    by (cases m) (auto split: prod.splits option.splits go.splits if_splits)
  show "fresh_matcher (fst (snd (Matcher_Match E m t))) = fresh_matcher m" for m t
    by (cases m) (auto split: prod.splits option.splits go.splits)
  show "fst (Matcher_Match E m1 t) = fst (Matcher_Match E m2 t)
       \<and> snd (snd (Matcher_Match E m1 t)) = snd (snd (Matcher_Match E m2 t))
       \<and> (fst (Matcher_Match E m1 t) = Ret True \<longrightarrow>
            MatchedResult (fst (snd (Matcher_Match E m1 t))) = MatchedResult (fst (snd (Matcher_Match E m2 t))))"
    if "fresh_matcher m1 = fresh_matcher m2" for m1 m2 t
    using Matcher_Match_fresh [of E m1 t] Matcher_Match_fresh [of E m2 t] that by simp
qed

section \<open>Rule semantics\<close>

fun cidr_ok :: "Matcher \<Rightarrow> bool" where
  "cidr_ok (IpCIDRRule res R) = list_all (\<lambda>rx. list_all (\<lambda>v. ParsePrefix v \<noteq> None) (Value rx)) R"
| "cidr_ok m = True"

lemma cidr_values_returns: "list_all (\<lambda>v. ParsePrefix v \<noteq> None) vs \<Longrightarrow> \<exists>b. cidr_values ip vs = Ret b"
  by (induction vs) auto

lemma cidr_loop_returns:
  "list_all (\<lambda>rx. list_all (\<lambda>v. ParsePrefix v \<noteq> None) (Value rx)) R \<Longrightarrow> \<exists>x. fst (cidr_loop E t R) = Ret x"
proof (induction R arbitrary: t)
  case (Cons rx R)
  then obtain b where "cidr_values (parsed_addr (resolve_target E rx t)) (Value rx) = Ret b"
    using cidr_values_returns by fastforce
  then show ?case using Cons by (cases b) (auto simp: Let_def)
qed simp

lemma Matcher_Match_returns: "cidr_ok m \<Longrightarrow> \<exists>b. fst (Matcher_Match E m t) = Ret b"
proof (cases m)
  case (IpCIDRRule res R)
  moreover assume "cidr_ok m"
  ultimately obtain x where "fst (cidr_loop E t R) = Ret x" using cidr_loop_returns by fastforce
  then show ?thesis using IpCIDRRule by (cases "cidr_loop E t R"; cases x) auto
qed (auto split: prod.splits option.splits)

text \<open>The rules and values of a trie matcher, in the order of the constructors' loops.\<close>

definition rule_values :: "(string \<Rightarrow> string) \<Rightarrow> RuleItem list \<Rightarrow> (string \<times> RuleItem) list" where
  "rule_values f rules = concat (map (\<lambda>rx. map (\<lambda>v. (f v, rx)) (Value rx)) rules)"

lemma fold_load:
  "fold (\<lambda>rx t. fold (\<lambda>v t. snd (Insert (f v) (Some rx) t)) (Value rx) t) rules t
     = load (rule_values f rules) t"
proof (induction rules arbitrary: t)
  case (Cons rx rules)
  have "fold (\<lambda>v t. snd (Insert (f v) (Some rx) t)) vs u = load (map (\<lambda>v. (f v, rx)) vs) u" for vs u
    by (induction vs arbitrary: u) (simp_all add: load_def)
  then show ?case using Cons by (simp add: rule_values_def load_def)
qed (simp add: rule_values_def load_def)

lemma suffix_rule_match:
  assumes plain: "\<forall>rx \<in> set rules. \<forall>v \<in> set (Value rx). plain_name v"
    and name: "query_labels name = Some labels"
  shows "(\<exists>m'. Matcher_Match E (newDomainSuffixRule rules) name = (Ret True, m', name)) \<longleftrightarrow>
     (\<exists>rx \<in> set rules. \<exists>v \<in> set (Value rx). name = v \<or> hasSuffix name (CHR ''.'' # v))"
proof -
  have ne: "name \<noteq> []" using name
    by (auto simp: query_labels_def ValidAndSplitDomain_def split: if_splits)
  let ?t = "load (rule_values (\<lambda>v. ''+.'' @ v) rules) New"
  have "newDomainSuffixRule rules = DomainSuffixRule None ?t"
    unfolding newDomainSuffixRule_def fold_load ..
  then have "(\<exists>m'. Matcher_Match E (newDomainSuffixRule rules) name = (Ret True, m', name))
      \<longleftrightarrow> Search ?t name \<noteq> None"
    using ne by (auto simp: trie_match_def split: option.splits)
  also have "\<dots> \<longleftrightarrow> (\<exists>(pat, d) \<in> set (rule_values (\<lambda>v. ''+.'' @ v) rules). pattern_matches pat labels)"
    by (auto simp only: Search_load_iff name option.inject)
  also have "\<dots> \<longleftrightarrow> (\<exists>rx \<in> set rules. \<exists>v \<in> set (Value rx). pattern_matches (''+.'' @ v) labels)"
    by (force simp: rule_values_def)
  also have "\<dots> \<longleftrightarrow> (\<exists>rx \<in> set rules. \<exists>v \<in> set (Value rx). name = v \<or> hasSuffix name (CHR ''.'' # v))"
    using suffix_pattern_matches [OF _ name] plain by blast
  finally show ?thesis .
qed

text \<open>A sequence of matches on one ruler, as the connections of the proxy make them.\<close>

definition matches_run :: "renv \<Rightarrow> string list \<Rightarrow> Ruler \<Rightarrow> Ruler" where
  "matches_run E ts r = fold (\<lambda>t r. fst (snd (Ruler_Match E r t))) ts r"

lemma Ruler_Match_keeps:
  "map fresh_matcher (MS (fst (snd (Ruler_Match E r t)))) = map fresh_matcher (MS r)
   \<and> mode (fst (snd (Ruler_Match E r t))) = mode r
   \<and> DirectTo (fst (snd (Ruler_Match E r t))) = DirectTo r
   \<and> GlobalTo (fst (snd (Ruler_Match E r t))) = GlobalTo r"
  using rule_matcher.loop_fresh [of E "MS r" "matched r" t]
  by (auto simp: Ruler_Match_def split: prod.splits)

lemma matches_run_keeps:
  "map fresh_matcher (MS (matches_run E ts r)) = map fresh_matcher (MS r)
   \<and> mode (matches_run E ts r) = mode r \<and> DirectTo (matches_run E ts r) = DirectTo r
   \<and> GlobalTo (matches_run E ts r) = GlobalTo r"
  by (induction ts arbitrary: r) (auto simp: matches_run_def Ruler_Match_keeps)

lemma Ruler_Select_cong:
  "matched r1 = matched r2 \<Longrightarrow> DirectTo r1 = DirectTo r2 \<Longrightarrow> GlobalTo r1 = GlobalTo r2 \<Longrightarrow>
     Ruler_Select r1 = Ruler_Select r2"
  unfolding Ruler_Select_def by (cases "matched r2") simp_all

lemma Ruler_Match_history:
  assumes "map fresh_matcher (MS r1) = map fresh_matcher (MS r2)" "mode r1 = mode r2"
    "DirectTo r1 = DirectTo r2" "GlobalTo r1 = GlobalTo r2"
  shows "fst (Ruler_Match E r1 t) = fst (Ruler_Match E r2 t)
     \<and> snd (snd (Ruler_Match E r1 t)) = snd (snd (Ruler_Match E r2 t))
     \<and> (fst (Ruler_Match E r1 t) = Ret True \<longrightarrow>
          Ruler_Select (fst (snd (Ruler_Match E r1 t))) = Ruler_Select (fst (snd (Ruler_Match E r2 t))))"
proof (cases "mode r1 = Global \<or> mode r1 = Direct")
  case True
  then show ?thesis using assms by (auto simp: Ruler_Match_def intro!: Ruler_Select_cong)
next
  case False
  obtain b md ms t' where l1: "ruler_loop (Matcher_Match E) MatchedResult (MS r1) (matched r1) t = (b, md, ms, t')"
    using prod_cases4 by blast
  obtain c nd ns u where l2: "ruler_loop (Matcher_Match E) MatchedResult (MS r2) (matched r2) t = (c, nd, ns, u)"
    using prod_cases4 by blast
  show ?thesis
    using rule_matcher.loop_history [OF assms(1), of E "matched r1" t "matched r2"] False assms
    by (auto simp: Ruler_Match_def l1 l2 intro!: Ruler_Select_cong)
qed

section \<open>Properties\<close>

text \<open>The rule of the first matcher, in the order of the ruler, that accepts the target.\<close>

fun first_rule :: "renv \<Rightarrow> Matcher list \<Rightarrow> string \<Rightarrow> RuleItem option" where
  "first_rule E [] t = None"
| "first_rule E (m # ms) t = (case Matcher_Match E (fresh_matcher m) t of
     (Ret True, m', t') \<Rightarrow> MatchedResult m'
   | (_, m', t') \<Rightarrow> first_rule E ms t')"

lemma ruler_loop_first:
  assumes "\<forall>m \<in> set ms. cidr_ok m"
  shows "\<exists>ms' t'. ruler_loop (Matcher_Match E) MatchedResult ms md t =
     (case first_rule E ms t of None \<Rightarrow> (Ret False, md, ms', t')
      | Some item \<Rightarrow> (Ret (Accept item), Some item, ms', t'))"
  using assms
proof (induction ms arbitrary: t)
  case (Cons m ms)
  then obtain b m' t' where m: "Matcher_Match E m t = (Ret b, m', t')"
    using Matcher_Match_returns [of m E t] by (cases "Matcher_Match E m t") auto
  obtain n' u' where n: "Matcher_Match E (fresh_matcher m) t = (Ret b, n', u')"
    and u: "u' = t'" and r: "b \<Longrightarrow> MatchedResult n' = MatchedResult m'"
    using Matcher_Match_fresh [of E m t] m by (cases "Matcher_Match E (fresh_matcher m) t") auto
  show ?case
  proof (cases b)
    case True
    then obtain item where "MatchedResult m' = Some item" using m rule_matcher.match_result by fastforce
    then show ?thesis using m n r True by auto
  next
    case False
    obtain ms' t'' where "ruler_loop (Matcher_Match E) MatchedResult ms md t' =
       (case first_rule E ms t' of None \<Rightarrow> (Ret False, md, ms', t'')
        | Some item \<Rightarrow> (Ret (Accept item), Some item, ms', t''))"
      using Cons.IH [of t'] Cons.prems by auto
    then show ?thesis using m n u False by (auto split: option.splits)
  qed
qed simp

text \<open>
  C2. Routing in rule mode: with well-formed prefixes a match never panics; the request is admitted
  exactly when the first rule that applies accepts it, and then the selected node is the one of that
  rule, with the configured nodes for the names \<open>global\<close> and \<open>direct\<close>.
\<close>

theorem ruler_routes_by_first_rule:
  assumes "mode r = Match" "\<forall>m \<in> set (MS r). cidr_ok m"
  shows "\<exists>r' t'. Ruler_Match E r t =
      (Ret (case first_rule E (MS r) t of None \<Rightarrow> False | Some item \<Rightarrow> Accept item), r', t')
    \<and> (case first_rule E (MS r) t of None \<Rightarrow> matched r' = matched r
       | Some item \<Rightarrow> matched r' = Some item \<and>
           (ruleMode item = Match \<longrightarrow> Ruler_Select r' =
             (if Proxy item = ''global'' then
                (if GlobalTo r = [] then Err ErrEmptyGlobalProxyNode else Ret (GlobalTo r))
              else if Proxy item = ''direct'' then Ret (DirectTo r)
              else if Proxy item = [] then Err ErrRuleMatchDropped
              else Ret (Proxy item))))"
proof -
  obtain ms' t' where "ruler_loop (Matcher_Match E) MatchedResult (MS r) (matched r) t =
     (case first_rule E (MS r) t of None \<Rightarrow> (Ret False, matched r, ms', t')
      | Some item \<Rightarrow> (Ret (Accept item), Some item, ms', t'))"
    using ruler_loop_first [OF assms(2)] by blast
  then show ?thesis using assms(1)
    by (cases "first_rule E (MS r) t") (auto simp: Ruler_Match_def Ruler_Select_def Let_def)
qed

definition no_geo :: renv where
  "no_geo = \<lparr>db_country = (\<lambda>_. None), lookup_host = (\<lambda>_. NoAddr)\<rparr>"

definition kw_rule :: "string \<Rightarrow> string \<Rightarrow> RuleItem" where
  "kw_rule kw px = \<lparr>ruleMode = Match, ruleType = RuleDomainKeyword, Proxy = px, Value = [kw],
     Resolve = False, Accept = True\<rparr>"

definition kw_ruler :: Ruler where
  "kw_ruler = \<lparr>mode = Match, matched = None,
     MS = [DomainKeywordRule None [kw_rule ''abc'' ''p1'', kw_rule ''xyz'' ''direct'']],
     DirectTo = [], GlobalTo = []\<rparr>"

lemma kw_ruler_first:
  "first_rule no_geo (MS kw_ruler) ''abc.com'' = Some (kw_rule ''abc'' ''p1'')"
  "first_rule no_geo (MS kw_ruler) ''xyz.com'' = Some (kw_rule ''xyz'' ''direct'')"
  by (simp_all add: kw_ruler_def kw_rule_def)

theorem ruler_routes_by_first_rule_witness:
  "\<exists>r' t'. Ruler_Match no_geo kw_ruler ''abc.com'' = (Ret True, r', t') \<and> Ruler_Select r' = Ret ''p1''"
  using ruler_routes_by_first_rule [of kw_ruler no_geo "''abc.com''"]
  by (auto simp: kw_ruler_first) (auto simp: kw_ruler_def kw_rule_def)

text \<open>
  C26. Earlier requests do not influence later ones: after any sequence of matches on the shared
  ruler, a match gives the same verdict, the same rewritten target and the same selected node as on
  the ruler it started from.
\<close>

theorem ruler_history_independent:
  "fst (Ruler_Match E (matches_run E ts r) t) = fst (Ruler_Match E r t)
   \<and> snd (snd (Ruler_Match E (matches_run E ts r) t)) = snd (snd (Ruler_Match E r t))
   \<and> (fst (Ruler_Match E r t) = Ret True \<longrightarrow>
        Ruler_Select (fst (snd (Ruler_Match E (matches_run E ts r) t)))
          = Ruler_Select (fst (snd (Ruler_Match E r t))))"
  using Ruler_Match_history [of "matches_run E ts r" r E t] matches_run_keeps [of E ts r] by simp

theorem ruler_history_independent_witness:
  "Ruler_Select (fst (snd (Ruler_Match no_geo (matches_run no_geo [''xyz.com''] kw_ruler) ''abc.com'')))
     = Ret ''p1''"
proof -
  have "fst (Ruler_Match no_geo kw_ruler ''abc.com'') = Ret True"
    "Ruler_Select (fst (snd (Ruler_Match no_geo kw_ruler ''abc.com''))) = Ret ''p1''"
    by (simp_all add: kw_ruler_def kw_rule_def Ruler_Match_def Ruler_Select_def)
  then show ?thesis using ruler_history_independent [of no_geo "[''xyz.com'']" kw_ruler "''abc.com''"] by simp
qed

text \<open>
  The result of a match lives in the ruler that all connections share: when a second connection
  matches between the match and the selection of a first one, the first connection is routed by the
  rule of the second.
\<close>

theorem interleaved_select_uses_other_rule:
  assumes "Ruler_Match E r t1 = (Ret True, r1, t1')" "Ruler_Match E r1 t2 = (Ret True, r2, t2')"
  shows "Ruler_Select r2 = Ruler_Select (fst (snd (Ruler_Match E r t2)))"
  using Ruler_Match_history [of r1 r E t2] Ruler_Match_keeps [of E r t1] assms by simp

theorem interleaved_select_uses_other_rule_witness:
  "\<exists>r1 r2 t1' t2'. Ruler_Match no_geo kw_ruler ''abc.com'' = (Ret True, r1, t1') \<and> Ruler_Select r1 = Ret ''p1''
     \<and> Ruler_Match no_geo r1 ''xyz.com'' = (Ret True, r2, t2') \<and> Ruler_Select r2 = Ret []"
proof -
  obtain r1 t1' where 1: "Ruler_Match no_geo kw_ruler ''abc.com'' = (Ret True, r1, t1')"
    and s1: "Ruler_Select r1 = Ret ''p1''"
    by (simp add: kw_ruler_def kw_rule_def Ruler_Match_def Ruler_Select_def)
  obtain r2 t2' where 2: "Ruler_Match no_geo r1 ''xyz.com'' = (Ret True, r2, t2')"
    using 1 by (auto simp: kw_ruler_def kw_rule_def Ruler_Match_def)
  have "Ruler_Select r2 = Ret []"
    using interleaved_select_uses_other_rule [OF 1 2]
    by (simp add: kw_ruler_def kw_rule_def Ruler_Match_def Ruler_Select_def)
  then show ?thesis using 1 s1 2 by blast
qed

text \<open>
  A suffix rule matches a name exactly when the name is one of the configured suffixes or ends
  in a dot followed by one of them.
\<close>

theorem suffix_rule_matches_suffixes:
  assumes "\<forall>rx \<in> set rules. \<forall>v \<in> set (Value rx). plain_name v" "query_labels name = Some labels"
  shows "(\<exists>m'. Matcher_Match E (newDomainSuffixRule rules) name = (Ret True, m', name)) \<longleftrightarrow>
     (\<exists>rx \<in> set rules. \<exists>v \<in> set (Value rx). name = v \<or> hasSuffix name (CHR ''.'' # v))"
  using assms by (rule suffix_rule_match)

theorem suffix_rule_matches_suffixes_witness:
  "\<exists>m'. Matcher_Match no_geo (newDomainSuffixRule [kw_rule ''b.c'' ''p'']) ''a.b.c'' = (Ret True, m', ''a.b.c'')"
  by (subst suffix_rule_matches_suffixes [where labels = "[''a'', ''b'', ''c'']"])
    (simp add: kw_rule_def plain_name_def domainStep_def wildcard_def, code_simp,
     simp add: kw_rule_def hasSuffix_def)

end
