(* ===== verification/Ip_Pool.thy ===== *)
theory Ip_Pool
  imports Rule
begin

text \<open>
  \<open>resolver/pool.go\<close>: the pool of fake IPv4 addresses of a prefix, a flag per host address. Addresses
  are computed in \<open>uint32\<close>, that is 32 bit words.
\<close>

unbundle bit_operations_syntax

section \<open>Model of pool.go\<close>

record ipPool =
  hmin :: "32 word"
  hmax :: "32 word"
  bits :: nat
  flags :: "bool list"

definition intToIP :: "32 word \<Rightarrow> netaddr" where
  "intToIP v = Addr4 [ucast (drop_bit 24 v), ucast (drop_bit 16 v), ucast (drop_bit 8 v), ucast v]"

text \<open>\<open>netip.Addr.As4\<close>: an IPv4 address or one mapped into IPv6; it panics on every other address.\<close>

definition as4 :: "netaddr \<Rightarrow> bytes go" where
  "as4 a = (case a of NoAddr \<Rightarrow> Panic | Addr4 b \<Rightarrow> Ret b
     | Addr6 b z \<Rightarrow> (case to4 b of Some b4 \<Rightarrow> Ret b4 | None \<Rightarrow> Panic))"

definition word_of_octets :: "bytes \<Rightarrow> 32 word" where
  "word_of_octets v = push_bit 24 (ucast (v ! 0)) OR push_bit 16 (ucast (v ! 1)) OR push_bit 8 (ucast (v ! 2)) OR ucast (v ! 3)"

definition ipToInt :: "netaddr \<Rightarrow> 32 word go" where
  "ipToInt ip = bind_go (as4 ip) (\<lambda>v. Ret (word_of_octets v))"

text \<open>\<open>prefix.Masked().Addr()\<close> of a valid prefix, as the word of an IPv4 address; other families panic in \<open>ipToInt\<close>.\<close>

definition prefix_mask :: "nat \<Rightarrow> 32 word" where
  "prefix_mask n = push_bit (32 - n) 0xFFFFFFFF"

definition newIPPool :: "netaddr \<times> nat \<Rightarrow> ipPool go" where
  "newIPPool prefix = (case prefix of (a, n) \<Rightarrow>
     if a = NoAddr \<or> (case a of Addr4 _ \<Rightarrow> 32 < n | _ \<Rightarrow> 128 < n) then Err ErrNoAvailableFakeIP
     else case a of
       Addr4 b \<Rightarrow>
         (let mask = prefix_mask n;
              base = word_of_octets b AND mask in
          if mask = 0xFFFFFFFF then Err ErrNoAvailableFakeIP
          else
            let last = base OR NOT mask;
                (lo, hi) = (if mask = 0xFFFFFFFE then (base, last) else (base + 1, last - 1)) in
            Ret \<lparr>hmin = lo, hmax = hi, bits = n, flags = replicate (unat (hi - lo + 1)) False\<rparr>)
     | _ \<Rightarrow> Panic)"

definition Capacity :: "ipPool \<Rightarrow> nat" where
  "Capacity pool = length (flags pool)"

definition IPMin :: "ipPool \<Rightarrow> netaddr" where
  "IPMin pool = intToIP (hmin pool)"

definition IPMax :: "ipPool \<Rightarrow> netaddr" where
  "IPMax pool = intToIP (hmax pool)"

definition Available :: "ipPool \<Rightarrow> nat" where
  "Available pool = foldl (\<lambda>count used. if used then count else Suc count) 0 (flags pool)"

definition index :: "ipPool \<Rightarrow> netaddr \<Rightarrow> int go" where
  "index pool ip = bind_go (ipToInt ip) (\<lambda>v.
     Ret (if hmin pool \<le> v \<and> v \<le> hmax pool then int (unat (v - hmin pool)) else -1))"

definition Contains :: "ipPool \<Rightarrow> netaddr \<Rightarrow> bool go" where
  "Contains pool ip = bind_go (index pool ip) (\<lambda>i. Ret (i \<noteq> -1))"

definition IsAvailable :: "ipPool \<Rightarrow> netaddr \<Rightarrow> bool go" where
  "IsAvailable pool ip = bind_go (index pool ip) (\<lambda>i. if i \<noteq> -1 then Ret (\<not> flags pool ! nat i) else Ret False)"

text \<open>The loop that looks for the first unused flag.\<close>

fun first_free :: "bool list \<Rightarrow> nat option" where
  "first_free [] = None"
| "first_free (used # fs) = (if used then map_option Suc (first_free fs) else Some 0)"

definition set_flag :: "nat \<Rightarrow> bool \<Rightarrow> ipPool \<Rightarrow> ipPool" where
  "set_flag i b pool = pool\<lparr>flags := (flags pool)[i := b]\<rparr>"

definition allocateFor :: "netaddr \<Rightarrow> ipPool \<Rightarrow> (netaddr option \<times> ipPool) go" where
  "allocateFor ip pool = bind_go (index pool ip) (\<lambda>i.
     if i \<noteq> -1 then Ret (Some ip, set_flag (nat i) True pool)
     else case first_free (flags pool) of
       None \<Rightarrow> Ret (None, pool)
     | Some j \<Rightarrow> Ret (Some (intToIP (hmin pool + word_of_nat j)), set_flag j True pool))"

definition Release :: "netaddr \<Rightarrow> ipPool \<Rightarrow> (bool \<times> ipPool) go" where
  "Release ip pool = bind_go (index pool ip) (\<lambda>i.
     if i \<noteq> -1 then Ret (True, set_flag (nat i) False pool) else Ret (False, pool))"

definition Allocate :: "string \<Rightarrow> ipPool \<Rightarrow> (netaddr \<times> ipPool) go" where
  "Allocate host pool =
     (if word_of_nat (length (flags pool)) = (0 :: 32 word) then Panic
      else let i0 = unat (adler32 (bytes_of host) mod word_of_nat (length (flags pool)));
               i = (if flags pool ! i0 then (case first_free (flags pool) of Some j \<Rightarrow> j | None \<Rightarrow> i0) else i0) in
      if flags pool ! i then Err ErrNoAvailableFakeIP
      else Ret (intToIP (hmin pool + word_of_nat i), set_flag i True pool))"

section \<open>Addresses as words\<close>

lemma ipToInt_intToIP [simp]: "ipToInt (intToIP v) = Ret v"
proof -
  have "word_of_octets [ucast (drop_bit 24 v), ucast (drop_bit 16 v), ucast (drop_bit 8 v), ucast v] = v"
  proof (rule bit_word_eqI)
    fix n assume "n < LENGTH(32)"
    then consider "n < 8" | "8 \<le> n \<and> n < 16" | "16 \<le> n \<and> n < 24" | "24 \<le> n \<and> n < 32" by force
    then show "bit (word_of_octets [ucast (drop_bit 24 v), ucast (drop_bit 16 v), ucast (drop_bit 8 v), ucast v]) n = bit v n"
      by cases (auto simp: word_of_octets_def bit_simps)
  qed
  then show ?thesis by (simp add: ipToInt_def intToIP_def as4_def)
qed

section \<open>Invariant\<close>

text \<open>A flag for every address from \<open>hmin\<close> to \<open>hmax\<close>, of which there are at least two.\<close>

definition pool_inv :: "ipPool \<Rightarrow> bool" where
  "pool_inv p \<longleftrightarrow> hmin p < hmax p \<and> length (flags p) = Suc (unat (hmax p - hmin p)) \<and> length (flags p) < 2 ^ 32"

definition slots :: "ipPool \<Rightarrow> netaddr set" where
  "slots p = (\<lambda>i. intToIP (hmin p + word_of_nat i)) ` {..<length (flags p)}"

definition used :: "ipPool \<Rightarrow> netaddr set" where
  "used p = (\<lambda>i. intToIP (hmin p + word_of_nat i)) ` {i. i < length (flags p) \<and> flags p ! i}"

lemma intToIP_inject [simp]: "intToIP v = intToIP w \<longleftrightarrow> v = w"
  by (metis go.inject(1) ipToInt_intToIP)

lemma slot_inj:
  assumes "pool_inv p" "i < length (flags p)" "j < length (flags p)"
  shows "hmin p + word_of_nat i = hmin p + word_of_nat j \<longleftrightarrow> i = j"
proof -
  have "unat (word_of_nat i :: 32 word) = i" "unat (word_of_nat j :: 32 word) = j"
    using assms by (simp_all add: pool_inv_def unat_of_nat)
  then show ?thesis by (metis add_left_cancel)
qed

lemma index_slot:
  assumes "pool_inv p" "i < length (flags p)"
  shows "index p (intToIP (hmin p + word_of_nat i)) = Ret (int i)"
proof -
  have i: "unat (word_of_nat i :: 32 word) = i" "i \<le> unat (hmax p - hmin p)"
    using assms by (simp_all add: pool_inv_def unat_of_nat)
  have d: "unat (hmax p - hmin p) = unat (hmax p) - unat (hmin p)"
    using assms(1) by (intro unat_sub) (simp add: pool_inv_def less_imp_le)
  have lt: "unat (hmin p) < unat (hmax p)" using assms(1) by (simp add: pool_inv_def word_less_nat_alt)
  have "unat (hmin p + word_of_nat i) = unat (hmin p) + i"
    using i d lt unsigned_less [of "hmax p", where ?'a = nat] by (simp add: unat_word_ariths(1))
  then show ?thesis using i d lt by (auto simp: index_def word_le_nat_alt)
qed

lemma set_flag_inv [simp]:
  "pool_inv (set_flag i b p) \<longleftrightarrow> pool_inv p" "slots (set_flag i b p) = slots p"
  by (simp_all add: set_flag_def pool_inv_def slots_def)

lemma used_set_flag:
  assumes "pool_inv p" "i < length (flags p)"
  shows "used (set_flag i True p) = insert (intToIP (hmin p + word_of_nat i)) (used p)"
    "used (set_flag i False p) = used p - {intToIP (hmin p + word_of_nat i)}"
proof -
  show "used (set_flag i True p) = insert (intToIP (hmin p + word_of_nat i)) (used p)"
    using assms(2) by (auto simp: used_def set_flag_def nth_list_update)
  have "{j. j < length (flags p) \<and> (flags p)[i := False] ! j} = {j. j < length (flags p) \<and> flags p ! j} - {i}"
    using assms(2) by (auto simp: nth_list_update)
  moreover have "inj_on (\<lambda>j. intToIP (hmin p + word_of_nat j)) {..<length (flags p)}"
    using slot_inj [OF assms(1)] by (simp add: inj_on_def)
  then have "(\<lambda>j. intToIP (hmin p + word_of_nat j)) ` ({j. j < length (flags p) \<and> flags p ! j} - {i})
      = (\<lambda>j. intToIP (hmin p + word_of_nat j)) ` {j. j < length (flags p) \<and> flags p ! j} - (\<lambda>j. intToIP (hmin p + word_of_nat j)) ` {i}"
    by (intro inj_on_image_set_diff [where C = "{..<length (flags p)}"]) (use assms(2) in auto)
  ultimately show "used (set_flag i False p) = used p - {intToIP (hmin p + word_of_nat i)}"
    by (simp add: used_def set_flag_def)
qed

lemma first_free_None: "first_free fs = None \<longleftrightarrow> (\<forall>i < length fs. fs ! i)"
  by (induction fs) (auto simp: less_Suc_eq_0_disj nth_Cons split: nat.splits)

lemma first_free_Some: "first_free fs = Some j \<Longrightarrow> j < length fs \<and> \<not> fs ! j \<and> (\<forall>i < j. fs ! i)"
proof (induction fs arbitrary: j)
  case (Cons b fs)
  then show ?case by (cases j) (auto simp: nth_Cons split: if_splits nat.splits)
qed simp

lemma slot_used: "pool_inv p \<Longrightarrow> i < length (flags p) \<Longrightarrow> intToIP (hmin p + word_of_nat i) \<in> used p \<longleftrightarrow> flags p ! i"
  using slot_inj [of p] by (auto simp: used_def)

lemma slot_in: "i < length (flags p) \<Longrightarrow> intToIP (hmin p + word_of_nat i) \<in> slots p"
  by (simp add: slots_def)

lemma used_slots: "used p \<subseteq> slots p"
  by (auto simp: used_def slots_def)

lemma Allocate_index:
  assumes "pool_inv p"
  shows "unat (adler32 (bytes_of host) mod word_of_nat (length (flags p))) < length (flags p)"
    "word_of_nat (length (flags p)) \<noteq> (0 :: 32 word)"
proof -
  have l: "unat (word_of_nat (length (flags p)) :: 32 word) = length (flags p)" "0 < length (flags p)"
    using assms unfolding pool_inv_def by (auto simp only: unat_of_nat len_bit0 len_num1 mult_1_right) auto
  then show "word_of_nat (length (flags p)) \<noteq> (0 :: 32 word)" by (metis less_numeral_extra(3) unat_0)
  show "unat (adler32 (bytes_of host) mod word_of_nat (length (flags p))) < length (flags p)"
    using l by (simp add: unat_mod_distrib)
qed

text \<open>
  \<open>Allocate\<close> takes the slot of the host's checksum, or else the first free one; it fails exactly when
  every slot is taken.
\<close>

lemma Allocate_spec:
  assumes "pool_inv p"
  shows "if used p = slots p then Allocate host p = Err ErrNoAvailableFakeIP
    else \<exists>i < length (flags p). \<not> flags p ! i \<and> Allocate host p = Ret (intToIP (hmin p + word_of_nat i), set_flag i True p)"
proof -
  define i0 where "i0 = unat (adler32 (bytes_of host) mod word_of_nat (length (flags p)))"
  have i0: "i0 < length (flags p)" "word_of_nat (length (flags p)) \<noteq> (0 :: 32 word)"
    using Allocate_index [OF assms] by (simp_all add: i0_def)
  have full: "used p = slots p \<longleftrightarrow> (\<forall>i < length (flags p). flags p ! i)"
    using slot_used [OF assms] used_slots [of p] by (auto simp: slots_def)
  show ?thesis
  proof (cases "first_free (flags p)")
    case None
    then show ?thesis using i0 full first_free_None [of "flags p"] by (simp add: Allocate_def i0_def [symmetric] Let_def)
  next
    case (Some j)
    then have "j < length (flags p)" "\<not> flags p ! j" using first_free_Some by auto
    then have "used p \<noteq> slots p" using full by blast
    then show ?thesis using i0 Some first_free_Some [OF Some]
      by (auto simp: Allocate_def i0_def [symmetric] Let_def)
  qed
qed

lemma Release_spec:
  assumes "pool_inv p" "ip \<in> slots p"
  shows "\<exists>p'. Release ip p = Ret (True, p') \<and> pool_inv p' \<and> slots p' = slots p \<and> used p' = used p - {ip}"
proof -
  obtain i where i: "ip = intToIP (hmin p + word_of_nat i)" "i < length (flags p)" using assms(2) by (auto simp: slots_def)
  then show ?thesis using assms(1) index_slot [OF assms(1) i(2)] used_set_flag [OF assms(1) i(2)] by (simp add: Release_def)
qed

section \<open>The addresses of a prefix\<close>

lemma prefix_mask_NOT:
  assumes "n \<le> 32"
  shows "NOT (prefix_mask n) = Bit_Operations.mask (32 - n)" "unat (NOT (prefix_mask n)) = 2 ^ (32 - n) - 1"
proof -
  show m: "NOT (prefix_mask n) = Bit_Operations.mask (32 - n)"
  proof -
    have "(0xFFFFFFFF :: 32 word) = - 1" by simp
    then have "prefix_mask n = push_bit (32 - n) (- 1)" by (simp only: prefix_mask_def)
    then show ?thesis by (intro bit_word_eqI) (auto simp: bit_not_iff bit_push_bit_iff bit_mask_iff)
  qed
  have "k \<le> 32 \<Longrightarrow> unat (Bit_Operations.mask k :: 32 word) = Bit_Operations.mask k" for k
    by transfer (simp add: nat_mask_eq min_def)
  from this [of "32 - n"] have "unat (Bit_Operations.mask (32 - n) :: 32 word) = Bit_Operations.mask (32 - n)" by simp
  then show "unat (NOT (prefix_mask n)) = 2 ^ (32 - n) - 1" by (simp add: m mask_eq_exp_minus_1)
qed

lemma prefix_base_last:
  fixes x :: "32 word"
  assumes "n \<le> 32"
  defines "base \<equiv> x AND prefix_mask n"
  shows "unat (base OR NOT (prefix_mask n)) = unat base + (2 ^ (32 - n) - 1)" "unat base + (2 ^ (32 - n) - 1) < 2 ^ 32"
proof -
  have "base AND NOT (prefix_mask n) = 0" by (simp add: base_def and.assoc)
  then have o: "base OR NOT (prefix_mask n) = base + NOT (prefix_mask n)" by (simp add: disjunctive_add_eq_or)
  have "base \<le> prefix_mask n" by (simp add: base_def word_and_le1)
  then have "unat base \<le> unat (prefix_mask n)" by (simp add: word_le_nat_alt)
  moreover have "unat (NOT (prefix_mask n)) = 2 ^ 32 - 1 - unat (prefix_mask n)"
  proof -
    have "NOT (prefix_mask n) = - 1 - prefix_mask n" by (simp add: not_eq_complement)
    moreover have "unat (- 1 - prefix_mask n) = unat (- 1 :: 32 word) - unat (prefix_mask n)"
      by (rule unat_sub) (rule word_n1_ge)
    ultimately show ?thesis by (simp add: unsigned_minus_1_eq_mask mask_eq_exp_minus_1)
  qed
  ultimately show a: "unat base + (2 ^ (32 - n) - 1) < 2 ^ 32" 
    using prefix_mask_NOT [OF assms(1)] unsigned_less [of "prefix_mask n", where ?'a = nat] by simp
  then show "unat (base OR NOT (prefix_mask n)) = unat base + (2 ^ (32 - n) - 1)"
    by (simp add: o unat_word_ariths(1) prefix_mask_NOT(2) [OF assms(1)])
qed

lemma used_fresh: "used \<lparr>hmin = lo, hmax = hi, bits = n, flags = replicate k False\<rparr> = {}"
  by (auto simp: used_def)

lemma word_range:
  fixes lo hi :: "32 word"
  assumes "lo \<le> hi" "unat hi - unat lo + 1 < 2 ^ 32"
  shows "unat (hi - lo) = unat hi - unat lo" "unat (hi - lo + 1) = Suc (unat hi - unat lo)"
proof -
  show d: "unat (hi - lo) = unat hi - unat lo" by (rule unat_sub [OF assms(1)])
  with assms(2) show "unat (hi - lo + 1) = Suc (unat hi - unat lo)" by (simp add: unat_word_ariths(1))
qed

lemma prefix_mask_full:
  assumes "n \<le> 32"
  shows "prefix_mask n = 0xFFFFFFFF \<longleftrightarrow> n = 32" "prefix_mask n = 0xFFFFFFFE \<longleftrightarrow> n = 31"
proof -
  have "prefix_mask n = w \<longleftrightarrow> unat (NOT (prefix_mask n)) = unat (NOT w)" for w
    by (metis bit.double_compl word_unat_eq_iff)
  then have "prefix_mask n = w \<longleftrightarrow> 2 ^ (32 - n) - 1 = unat (NOT w)" for w by (simp only: prefix_mask_NOT(2) [OF assms])
  from this [of "0xFFFFFFFF"] this [of "0xFFFFFFFE"]
  have m: "prefix_mask n = 0xFFFFFFFF \<longleftrightarrow> 2 ^ (32 - n) - 1 = (0 :: nat)" "prefix_mask n = 0xFFFFFFFE \<longleftrightarrow> 2 ^ (32 - n) - 1 = (1 :: nat)"
    by simp_all
  have "4 \<le> (2 :: nat) ^ (32 - n)" if "n < 31" using power_increasing [of 2 "32 - n" "2 :: nat"] that by simp
  then consider "n < 31" "4 \<le> (2 :: nat) ^ (32 - n)" | "n = 31" | "n = 32" using assms by fastforce
  then show "prefix_mask n = 0xFFFFFFFF \<longleftrightarrow> n = 32" "prefix_mask n = 0xFFFFFFFE \<longleftrightarrow> n = 31"
    unfolding m by (cases; simp)+
qed

text \<open>The word of the network address of a prefix and the number of its other addresses.\<close>

lemma newIPPool_spec:
  assumes "n \<le> 32" "newIPPool (Addr4 b, n) = Ret p"
  defines "base \<equiv> word_of_octets b AND prefix_mask n"
  shows "n \<le> 31 \<and> pool_inv p \<and> used p = {} \<and> bits p = n
    \<and> unat (hmin p) = unat base + (if n = 31 then 0 else 1)
    \<and> unat (hmax p) + (if n = 31 then 0 else 1) = unat base + (2 ^ (32 - n) - 1)"
proof -
  define last where "last = base OR NOT (prefix_mask n)"
  have l: "unat last = unat base + (2 ^ (32 - n) - 1)" "unat base + (2 ^ (32 - n) - 1) < 2 ^ 32"
    using prefix_base_last [OF assms(1), of "word_of_octets b"] by (simp_all add: last_def base_def)
  note mask = prefix_mask_full [OF assms(1)]
  from assms(2) mask have n: "n \<noteq> 32" by (auto simp: newIPPool_def Let_def assms(1))
  with assms(1) have le: "n \<le> 31" by simp
  show ?thesis
  proof (cases "n = 31")
    case True
    with assms(2) mask have p: "p = \<lparr>hmin = base, hmax = last, bits = n, flags = replicate (unat (last - base + 1)) False\<rparr>"
      by (auto simp: newIPPool_def Let_def last_def base_def)
    have "base < last" using l True by (simp add: word_less_nat_alt)
    then show ?thesis using True l word_range [of base last] unfolding p by (simp add: used_fresh pool_inv_def less_imp_le del: replicate_Suc)
  next
    case False
    then have m: "4 \<le> (2 :: nat) ^ (32 - n)" using le power_increasing [of 2 "32 - n" "2 :: nat"] by simp
    from False n le assms(2) mask have p: "p = \<lparr>hmin = base + 1, hmax = last - 1, bits = n, flags = replicate (unat (last - 1 - (base + 1) + 1)) False\<rparr>"
      by (simp add: newIPPool_def Let_def last_def base_def diff_right_commute)
    have "last \<noteq> 0" using l m by auto
    then have u: "unat (base + 1) = unat base + 1" "unat (last - 1) = unat last - 1"
      using l m by (simp_all add: unat_word_ariths(1) unat_minus_one)
    then have lt: "base + 1 < last - 1" using l m by (simp add: word_less_nat_alt)
    have "unat (last - 1) - unat (base + 1) + 1 < 2 ^ 32" using u l m by linarith
    with word_range [OF less_imp_le [OF lt]] show ?thesis using False le u l m lt
      by (simp add: p pool_inv_def used_fresh del: replicate_Suc) linarith
  qed
qed

section \<open>The pool as a pool of slots\<close>

interpretation ippool: slot_pool pool_inv slots used Allocate Release
proof
  fix p h assume p: "pool_inv p"
  show "used p \<subseteq> slots p" by (rule used_slots)
  show "Allocate h p = Err ErrNoAvailableFakeIP" if "used p = slots p" using Allocate_spec [OF p, of h] that by simp
  show "\<exists>a p'. Allocate h p = Ret (a, p') \<and> pool_inv p' \<and> slots p' = slots p \<and> a \<in> slots p - used p \<and> used p' = insert a (used p)"
    if ne: "used p \<noteq> slots p"
  proof -
    obtain i where i: "i < length (flags p)" "\<not> flags p ! i"
      "Allocate h p = Ret (intToIP (hmin p + word_of_nat i), set_flag i True p)"
      using Allocate_spec [OF p, of h] ne by auto
    then show ?thesis using p slot_used [OF p i(1)] used_set_flag [OF p i(1)] slot_in [OF i(1)] by auto
  qed
next
  fix p a assume "pool_inv p" "a \<in> slots p"
  then show "\<exists>p'. Release a p = Ret (True, p') \<and> pool_inv p' \<and> slots p' = slots p \<and> used p' = used p - {a}"
    by (rule Release_spec)
qed

lemma slots_iff:
  assumes "pool_inv p"
  shows "intToIP v \<in> slots p \<longleftrightarrow> hmin p \<le> v \<and> v \<le> hmax p"
proof
  assume "intToIP v \<in> slots p"
  then obtain i where i: "i < length (flags p)" "v = hmin p + word_of_nat i" by (auto simp: slots_def)
  with index_slot [OF assms i(1)] show "hmin p \<le> v \<and> v \<le> hmax p" by (auto simp: index_def split: if_splits)
next
  assume v: "hmin p \<le> v \<and> v \<le> hmax p"
  have "unat (v - hmin p) = unat v - unat (hmin p)" "unat (hmax p - hmin p) = unat (hmax p) - unat (hmin p)"
    using v assms by (auto intro!: unat_sub simp: pool_inv_def less_imp_le)
  then have "unat (v - hmin p) < length (flags p)" using v assms by (auto simp: pool_inv_def word_le_nat_alt)
  from slot_in [OF this] show "intToIP v \<in> slots p" by simp
qed

lemma index_intToIP:
  assumes "pool_inv p"
  shows "if intToIP v \<in> slots p then \<exists>i < length (flags p). v = hmin p + word_of_nat i \<and> index p (intToIP v) = Ret (int i)
    else index p (intToIP v) = Ret (- 1)"
proof (cases "intToIP v \<in> slots p")
  case True
  then show ?thesis using index_slot [OF assms] by (auto simp: slots_def)
qed (auto simp: index_def slots_iff [OF assms])

text \<open>\<open>allocateFor\<close> gives a slot of the pool, the wanted address when it is one.\<close>

lemma allocateFor_spec:
  assumes "pool_inv p" "used p \<noteq> slots p"
  shows "\<exists>a p'. allocateFor (intToIP v) p = Ret (Some a, p') \<and> pool_inv p' \<and> slots p' = slots p \<and> bits p' = bits p
    \<and> a \<in> slots p \<and> used p' = insert a (used p) \<and> (if intToIP v \<in> slots p then a = intToIP v else a \<notin> used p)"
proof (cases "intToIP v \<in> slots p")
  case True
  then obtain i where i: "i < length (flags p)" "v = hmin p + word_of_nat i" "index p (intToIP v) = Ret (int i)"
    using index_intToIP [OF assms(1), of v] by auto
  then show ?thesis using assms(1) used_set_flag [OF assms(1) i(1)] slot_in [OF i(1)]
    by (simp add: allocateFor_def) (simp add: set_flag_def)
next
  case False
  then have x: "index p (intToIP v) = Ret (- 1)" using index_intToIP [OF assms(1), of v] by simp
  obtain j where j: "first_free (flags p) = Some j"
    using assms(2) used_slots [of p] slot_used [OF assms(1)] first_free_None [of "flags p"] by (auto simp: slots_def)
  note f = first_free_Some [OF j]
  then show ?thesis using assms(1) used_set_flag [OF assms(1), of j] slot_in [of j p] slot_used [OF assms(1), of j] False
    by (simp add: allocateFor_def x j) (simp add: set_flag_def)
qed

section \<open>Properties\<close>

lemma unat_prefix:
  assumes "n \<le> 32"
  shows "unat (v AND prefix_mask n) = unat v div 2 ^ (32 - n) * 2 ^ (32 - n)"
proof -
  define t where "t = v AND NOT (prefix_mask n)"
  have "v = (v AND prefix_mask n) + t" unfolding t_def
    by (subst disjunctive_add_eq_or) (simp_all add: and.assoc bit.conj_disj_distrib [symmetric] and.left_commute)
  then have v: "v AND prefix_mask n = v - t" by (simp add: eq_diff_eq)
  have "t = take_bit (32 - n) v" by (simp add: t_def prefix_mask_NOT [OF assms] take_bit_eq_mask)
  then have "unat t = take_bit (32 - n) (unat v)" by (simp only: unsigned_take_bit_eq)
  then have t: "unat t = unat v mod 2 ^ (32 - n)" by (simp only: take_bit_eq_mod)
  then have "t \<le> v" by (simp add: word_le_nat_alt)
  from unat_sub [OF this] show ?thesis by (simp add: v t minus_mod_eq_div_mult)
qed

lemma same_prefix_iff:
  assumes "n \<le> 32"
  shows "v AND prefix_mask n = x AND prefix_mask n \<longleftrightarrow>
    unat (x AND prefix_mask n) \<le> unat v \<and> unat v \<le> unat (x AND prefix_mask n) + (2 ^ (32 - n) - 1)"
proof -
  define K where "K = (2 :: nat) ^ (32 - n)"
  have K: "0 < K" by (simp add: K_def)
  have "a div K * K = c * K \<longleftrightarrow> c * K \<le> a \<and> a \<le> c * K + (K - 1)" for a c
  proof
    assume "a div K * K = c * K"
    with K show "c * K \<le> a \<and> a \<le> c * K + (K - 1)"
      using div_mult_mod_eq [of a K] mod_less_divisor [OF K, of a] by linarith
  next
    assume "c * K \<le> a \<and> a \<le> c * K + (K - 1)"
    with K have "a div K = c" by (intro div_nat_eqI) (auto simp: algebra_simps)
    then show "a div K * K = c * K" by simp
  qed
  then show ?thesis using unat_prefix [OF assms] by (simp add: word_unat_eq_iff K_def)
qed

lemma newIPPool_length:
  assumes "n \<le> 30" "newIPPool (Addr4 b, n) = Ret p"
  shows "length (flags p) = 2 ^ (32 - n) - 2"
proof -
  have n: "n \<le> 32" using assms(1) by simp
  note sp = newIPPool_spec [OF n assms(2)]
  have m: "4 \<le> (2 :: nat) ^ (32 - n)" using assms(1) power_increasing [of 2 "32 - n" "2 :: nat"] by simp
  have "unat (hmax p - hmin p) = unat (hmax p) - unat (hmin p)" using sp by (intro unat_sub) (simp add: pool_inv_def less_imp_le)
  then show ?thesis using sp assms(1) m by (simp add: pool_inv_def) linarith
qed

lemma allocateFor_slots: "allocateFor ip p = Ret (x, p') \<Longrightarrow> slots p' = slots p"
  by (auto simp: allocateFor_def bind_go_eq_Ret split: if_splits option.splits)

text \<open>
  C38. The pool of an IPv4 prefix of at most 30 bits holds exactly the host addresses of the prefix: every
  address with the prefix's network part except the network and the broadcast address, all of them free.
\<close>

theorem pool_holds_prefix_hosts:
  assumes "n \<le> 30"
  shows "\<exists>p. newIPPool (Addr4 b, n) = Ret p \<and> Capacity p = 2 ^ (32 - n) - 2 \<and> used p = {}
    \<and> slots p = {intToIP v | v. v AND prefix_mask n = word_of_octets b AND prefix_mask n
        \<and> v \<noteq> word_of_octets b AND prefix_mask n \<and> v \<noteq> (word_of_octets b AND prefix_mask n) OR NOT (prefix_mask n)}"
proof -
  let ?base = "word_of_octets b AND prefix_mask n"
  have n: "n \<le> 32" using assms by simp
  obtain p where p: "newIPPool (Addr4 b, n) = Ret p"
    using prefix_mask_full [OF n] assms by (simp add: newIPPool_def Let_def split: prod.splits)
  note sp = newIPPool_spec [OF n p]
  note bl = prefix_base_last [OF n, of "word_of_octets b"]
  have m: "4 \<le> (2 :: nat) ^ (32 - n)" using assms power_increasing [of 2 "32 - n" "2 :: nat"] by simp
  have "slots p = intToIP ` {v. hmin p \<le> v \<and> v \<le> hmax p}"
  proof -
    have "intToIP v \<in> slots p \<longleftrightarrow> hmin p \<le> v \<and> v \<le> hmax p" for v using slots_iff sp by blast
    moreover have "slots p \<subseteq> range intToIP" by (auto simp: slots_def)
    ultimately show ?thesis by auto
  qed
  moreover have "hmin p \<le> v \<and> v \<le> hmax p \<longleftrightarrow> v AND prefix_mask n = ?base \<and> v \<noteq> ?base \<and> v \<noteq> ?base OR NOT (prefix_mask n)" for v
    unfolding same_prefix_iff [OF n] using sp assms m by (simp add: word_le_nat_alt word_unat_eq_iff bl(1)) linarith
  moreover have "Capacity p = 2 ^ (32 - n) - 2" using newIPPool_length [OF assms p] by (simp add: Capacity_def)
  ultimately show ?thesis using p sp by auto
qed

theorem pool_holds_prefix_hosts_witness:
  "\<exists>p. newIPPool (Addr4 [198, 18, 0, 0], 16) = Ret p \<and> Capacity p = 65534"
  using pool_holds_prefix_hosts [of 16 "[198, 18, 0, 0]"] by auto

end
