(* ===== verification/Lru_Cache.thy ===== *)
theory Lru_Cache
  imports Ord_Map
begin

text \<open>
  The package \<open>util/cache\<close>: a cache with least recently used eviction and expiring entries. The
  operations hold the cache's lock, so each is one step here; the clock is an argument, and what a call
  passes to the evict callback is part of its result. \<open>spec_*\<close> is the cache as a list of distinct keys,
  the least recently used first, which the implementation refines.
\<close>

section \<open>Model of cache.go\<close>

record cache_opts =
  maxSize :: nat
  interval :: int
  expiration :: int
  checkCache :: bool
  updateCacheExpOnGet :: bool
  deleteExpCacheOnGet :: bool

record ('k, 'v) cacheEntry =
  e_key :: 'k
  e_value :: 'v
  e_expires :: int

record ('k, 'v) LruCache =
  lru :: "(nat \<times> ('k, 'v) cacheEntry) list"
  cache :: "'k \<Rightarrow> nat option"
  next_id :: nat
  opts :: cache_opts

definition newLru :: "cache_opts \<Rightarrow> ('k, 'v) LruCache" where
  "newLru opt = \<lparr>lru = [], cache = (\<lambda>_. None), next_id = 0, opts = opt\<rparr>"

text \<open>
  The options are functions that \<open>NewCache\<close> applies to the defaults in order. The clock option and the
  evict callback have no counterpart: times are arguments and evictions results.
\<close>

definition WithMaxSize :: "nat \<Rightarrow> cache_opts \<Rightarrow> cache_opts" where
  "WithMaxSize n opt = opt\<lparr>maxSize := n\<rparr>"

definition WithInterval :: "int \<Rightarrow> cache_opts \<Rightarrow> cache_opts" where
  "WithInterval d opt = opt\<lparr>interval := d\<rparr>"

definition WithExpiration :: "int \<Rightarrow> cache_opts \<Rightarrow> cache_opts" where
  "WithExpiration d opt = opt\<lparr>expiration := d\<rparr>"

definition WithUpdateCacheExpirationOnGet :: "cache_opts \<Rightarrow> cache_opts" where
  "WithUpdateCacheExpirationOnGet opt = opt\<lparr>updateCacheExpOnGet := True\<rparr>"

definition WithDeleteExpiredCacheOnGet :: "cache_opts \<Rightarrow> cache_opts" where
  "WithDeleteExpiredCacheOnGet opt = opt\<lparr>deleteExpCacheOnGet := True\<rparr>"

definition WithBackgroundCheckCache :: "cache_opts \<Rightarrow> cache_opts" where
  "WithBackgroundCheckCache opt = opt\<lparr>checkCache := True\<rparr>"

definition default_opts :: cache_opts where
  "default_opts = \<lparr>maxSize = 100, interval = 30000000000, expiration = 15000000000, checkCache = False,
     updateCacheExpOnGet = False, deleteExpCacheOnGet = False\<rparr>"

definition NewCache :: "(cache_opts \<Rightarrow> cache_opts) list \<Rightarrow> ('k, 'v) LruCache" where
  "NewCache os = newLru (fold (\<lambda>f opt. f opt) os default_opts)"

text \<open>The entry an element of the list holds.\<close>

fun elem_of :: "(nat \<times> 'e) list \<Rightarrow> nat \<Rightarrow> 'e option" where
  "elem_of [] i = None"
| "elem_of ((j, e) # l) i = (if i = j then Some e else elem_of l i)"

definition removeElem :: "nat \<Rightarrow> (nat \<times> 'e) list \<Rightarrow> (nat \<times> 'e) list" where
  "removeElem i l = filter (\<lambda>(j, _). j \<noteq> i) l"

definition moveToBack :: "nat \<Rightarrow> (nat \<times> 'e) list \<Rightarrow> (nat \<times> 'e) list" where
  "moveToBack i l = (case elem_of l i of None \<Rightarrow> l | Some e \<Rightarrow> removeElem i l @ [(i, e)])"

definition updateElem :: "nat \<Rightarrow> ('e \<Rightarrow> 'e) \<Rightarrow> (nat \<times> 'e) list \<Rightarrow> (nat \<times> 'e) list" where
  "updateElem i f l = map (\<lambda>(j, e). (j, if j = i then f e else e)) l"

text \<open>
  \<open>delete(ele)\<close>: the pair handed to the evict callback, and the cache. The element's entry is reached
  through the element, also when the element has left the list.
\<close>

definition cache_delete :: "nat \<times> ('k, 'v) cacheEntry \<Rightarrow> ('k, 'v) LruCache \<Rightarrow> ('k \<times> 'v) list \<times> ('k, 'v) LruCache" where
  "cache_delete ele c = (case ele of (i, e) \<Rightarrow>
     ([(e_key e, e_value e)], c\<lparr>cache := (cache c)(e_key e := None), lru := removeElem i (lru c)\<rparr>))"

definition cache_Contains :: "'k \<Rightarrow> ('k, 'v) LruCache \<Rightarrow> bool" where
  "cache_Contains key c = (case cache c key of None \<Rightarrow> False | Some _ \<Rightarrow> True)"

definition cache_Get :: "int \<Rightarrow> 'k \<Rightarrow> ('k, 'v) LruCache \<Rightarrow> 'v go \<times> ('k \<times> 'v) list \<times> ('k, 'v) LruCache" where
  "cache_Get now key c = (case cache c key of
     None \<Rightarrow> (Err ErrCacheIsNotFound, [], c)
   | Some i \<Rightarrow> (case elem_of (lru c) i of
       None \<Rightarrow> (Panic, [], c)
     | Some e \<Rightarrow>
         if e_expires e \<le> now then
           (case (if deleteExpCacheOnGet (opts c) then cache_delete (i, e) c else ([], c)) of
              (ev, c') \<Rightarrow> (Err ErrCacheWasExpired, ev, c'))
         else
           (let l = moveToBack i (lru c);
                l' = (if updateCacheExpOnGet (opts c)
                      then updateElem i (\<lambda>e. e\<lparr>e_expires := now + expiration (opts c)\<rparr>) l else l)
            in (Ret (e_value e), [], c\<lparr>lru := l'\<rparr>))))"

definition cache_Set :: "int \<Rightarrow> 'k \<Rightarrow> 'v \<Rightarrow> ('k, 'v) LruCache \<Rightarrow> unit go \<times> ('k \<times> 'v) list \<times> ('k, 'v) LruCache" where
  "cache_Set now key v c = (case cache c key of
     Some i \<Rightarrow>
       (Ret (), [], c\<lparr>lru := moveToBack i
          (updateElem i (\<lambda>e. e\<lparr>e_value := v, e_expires := now + expiration (opts c)\<rparr>) (lru c))\<rparr>)
   | None \<Rightarrow>
       (let full = (length (lru c) = maxSize (opts c)) in
        if full \<and> lru c = [] then (Panic, [], c)
        else case (if full then cache_delete (hd (lru c)) c else ([], c)) of
          (ev, c1) \<Rightarrow>
            (Ret (), ev, c1\<lparr>lru := lru c1 @ [(next_id c1, \<lparr>e_key = key, e_value = v, e_expires = now + expiration (opts c1)\<rparr>)],
               cache := (cache c1)(key := Some (next_id c1)), next_id := Suc (next_id c1)\<rparr>)))"

definition cache_Delete :: "'k \<Rightarrow> ('k, 'v) LruCache \<Rightarrow> ('k \<times> 'v) list \<times> ('k, 'v) LruCache" where
  "cache_Delete key c = (case cache c key of None \<Rightarrow> ([], c) 
   | Some i \<Rightarrow> (case elem_of (lru c) i of None \<Rightarrow> ([], c) | Some e \<Rightarrow> cache_delete (i, e) c))"

text \<open>
  \<open>cleanup\<close> first collects the elements under the read lock, in the order the Go map yields its keys
  (the argument \<open>ks\<close>), and then locks once per expired element.
\<close>

definition cleanup_list :: "'k list \<Rightarrow> ('k, 'v) LruCache \<Rightarrow> (nat \<times> ('k, 'v) cacheEntry) list" where
  "cleanup_list ks c = concat (map (\<lambda>k. case cache c k of None \<Rightarrow> []
     | Some i \<Rightarrow> (case elem_of (lru c) i of None \<Rightarrow> [] | Some e \<Rightarrow> [(i, e)])) ks)"

fun cleanup_loop :: "(nat \<times> ('k, 'v) cacheEntry) list \<Rightarrow> int \<Rightarrow> ('k, 'v) LruCache \<Rightarrow> ('k \<times> 'v) list \<times> ('k, 'v) LruCache" where
  "cleanup_loop [] now c = ([], c)"
| "cleanup_loop (ele # els) now c =
     (if e_expires (snd ele) \<le> now then
        (case cache_delete ele c of (ev, c1) \<Rightarrow> (case cleanup_loop els now c1 of (evs, c2) \<Rightarrow> (ev @ evs, c2)))
      else cleanup_loop els now c)"

definition cache_cleanup :: "'k list \<Rightarrow> int \<Rightarrow> ('k, 'v) LruCache \<Rightarrow> ('k \<times> 'v) list \<times> ('k, 'v) LruCache" where
  "cache_cleanup ks now c = cleanup_loop (cleanup_list ks c) now c"

text \<open>The loop of \<open>deleteOverflow\<close>, run for the given number of rounds: it has no exit.\<close>

fun deleteOverflow :: "nat \<Rightarrow> ('k, 'v) LruCache \<Rightarrow> ('k, 'v) LruCache option" where
  "deleteOverflow 0 c = None"
| "deleteOverflow (Suc n) c =
     deleteOverflow n (if maxSize (opts c) < length (lru c) then snd (cache_delete (hd (lru c)) c) else c)"

section \<open>Invariant\<close>

definition cache_inv :: "('k, 'v) LruCache \<Rightarrow> bool" where
  "cache_inv c \<longleftrightarrow> distinct (map fst (lru c)) \<and> distinct (map (\<lambda>(i, e). e_key e) (lru c))
     \<and> (\<forall>(i, e) \<in> set (lru c). i < next_id c)
     \<and> (\<forall>k i. cache c k = Some i \<longleftrightarrow> (\<exists>e. (i, e) \<in> set (lru c) \<and> e_key e = k))"

text \<open>The abstract cache: keys, values and expiration times, least recently used first.\<close>

type_synonym ('k, 'v) acache = "('k \<times> 'v \<times> int) list"

definition abs_cache :: "('k, 'v) LruCache \<Rightarrow> ('k, 'v) acache" where
  "abs_cache c = map (\<lambda>(i, e). (e_key e, e_value e, e_expires e)) (lru c)"

definition a_remove :: "'k \<Rightarrow> ('k, 'v) acache \<Rightarrow> ('k, 'v) acache" where
  "a_remove k l = filter (\<lambda>(k', _). k' \<noteq> k) l"

lemma elem_of_Some: "distinct (map fst l) \<Longrightarrow> elem_of l i = Some e \<longleftrightarrow> (i, e) \<in> set l"
  by (induction l) (force split: if_splits)+

lemma elem_of_map: "elem_of (map (\<lambda>(j, e). (j, f j e)) l) i = map_option (f i) (elem_of l i)"
  by (induction l) auto

lemma updateElem_props:
  "map fst (updateElem i f l) = map fst l" "elem_of (updateElem i f l) i = map_option f (elem_of l i)"
  "removeElem i (updateElem i f l) = removeElem i l"
  by (induction l) (auto simp: updateElem_def removeElem_def)

lemma removeElem_key:
  assumes "distinct (map (\<lambda>(i, e). g e) l)" "distinct (map fst l)" "(i, e) \<in> set l"
  shows "removeElem i l = filter (\<lambda>(j, e'). g e' \<noteq> g e) l"
proof -
  have "j \<noteq> i \<longleftrightarrow> g e' \<noteq> g e" if "(j, e') \<in> set l" for j e'
  proof -
    have "inj_on (\<lambda>(i, e). g e) (set l)" "inj_on fst (set l)" using assms(1,2) by (simp_all add: distinct_map)
    from inj_on_eq_iff [OF this(1) that assms(3)] inj_on_eq_iff [OF this(2) that assms(3)] show ?thesis by auto
  qed
  then show ?thesis unfolding removeElem_def by (intro filter_cong) auto
qed

lemma abs_removeElem:
  assumes "cache_inv c" "(i, e) \<in> set (lru c)"
  shows "map (\<lambda>(i, e). (e_key e, e_value e, e_expires e)) (removeElem i (lru c)) = a_remove (e_key e) (abs_cache c)"
proof -
  have "removeElem i (lru c) = filter (\<lambda>(j, e'). e_key e' \<noteq> e_key e) (lru c)"
    using assms by (intro removeElem_key) (simp_all add: cache_inv_def)
  then show ?thesis by (simp add: a_remove_def abs_cache_def filter_map o_def split_def)
qed

section \<open>The specification\<close>

definition a_Get :: "cache_opts \<Rightarrow> int \<Rightarrow> 'k \<Rightarrow> ('k, 'v) acache \<Rightarrow> 'v go \<times> ('k \<times> 'v) list \<times> ('k, 'v) acache" where
  "a_Get opt now k l = (case map_of l k of
     None \<Rightarrow> (Err ErrCacheIsNotFound, [], l)
   | Some (v, t) \<Rightarrow>
       if now < t then (Ret v, [], a_remove k l @ [(k, v, if updateCacheExpOnGet opt then now + expiration opt else t)])
       else if deleteExpCacheOnGet opt then (Err ErrCacheWasExpired, [(k, v)], a_remove k l)
       else (Err ErrCacheWasExpired, [], l))"

definition a_Set :: "cache_opts \<Rightarrow> int \<Rightarrow> 'k \<Rightarrow> 'v \<Rightarrow> ('k, 'v) acache \<Rightarrow> unit go \<times> ('k \<times> 'v) list \<times> ('k, 'v) acache" where
  "a_Set opt now k v l =
     (let e = (k, v, now + expiration opt) in
      if map_of l k \<noteq> None then (Ret (), [], a_remove k l @ [e])
      else if length l < maxSize opt then (Ret (), [], l @ [e])
      else case l of [] \<Rightarrow> (Panic, [], []) | (k', v', _) # l' \<Rightarrow> (Ret (), [(k', v')], l' @ [e]))"

definition a_Delete :: "'k \<Rightarrow> ('k, 'v) acache \<Rightarrow> ('k \<times> 'v) list \<times> ('k, 'v) acache" where
  "a_Delete k l = (case map_of l k of None \<Rightarrow> ([], l) | Some (v, _) \<Rightarrow> ([(k, v)], a_remove k l))"

lemma cache_inv_New [simp]: "cache_inv (newLru opt)" "abs_cache (newLru opt) = []" "opts (newLru opt) = opt" "lru (newLru opt) = []"
  by (simp_all add: cache_inv_def newLru_def abs_cache_def)

text \<open>The invariant is about the elements and their keys only.\<close>

lemma cache_inv_alt:
  "cache_inv c \<longleftrightarrow> (let l = map (\<lambda>(i, e). (i, e_key e)) (lru c) in
     distinct (map fst l) \<and> distinct (map snd l) \<and> (\<forall>(i, k) \<in> set l. i < next_id c) \<and> (\<forall>k i. cache c k = Some i \<longleftrightarrow> (i, k) \<in> set l))"
proof -
  have "(i, k) \<in> set (map (\<lambda>(i, e). (i, e_key e)) (lru c)) \<longleftrightarrow> (\<exists>e. (i, e) \<in> set (lru c) \<and> e_key e = k)" for i k by force
  then show ?thesis unfolding cache_inv_def Let_def by (auto simp: o_def split_def)
qed

lemma cache_inv_update:
  assumes "cache_inv c" "\<And>e. e_key (f e) = e_key e"
  shows "cache_inv (c\<lparr>lru := updateElem i f (lru c)\<rparr>)"
proof -
  have "map (\<lambda>(i, e). (i, e_key e)) (updateElem i f (lru c)) = map (\<lambda>(i, e). (i, e_key e)) (lru c)"
    using assms(2) by (auto simp: updateElem_def)
  then show ?thesis using assms(1) by (simp add: cache_inv_alt)
qed

lemma cache_inv_ids: "cache_inv c \<Longrightarrow> distinct (map fst (lru c))"
  by (simp add: cache_inv_def)

text \<open>Under the invariant the Go map and the list agree, and a lookup finds the element's entry.\<close>

lemma cache_lookup:
  assumes "cache_inv c"
  shows "case cache c k of
      None \<Rightarrow> map_of (abs_cache c) k = None
    | Some i \<Rightarrow> \<exists>e. (i, e) \<in> set (lru c) \<and> elem_of (lru c) i = Some e \<and> e_key e = k
        \<and> map_of (abs_cache c) k = Some (e_value e, e_expires e)"
proof (cases "cache c k")
  case None
  then have "\<And>i e. (i, e) \<in> set (lru c) \<Longrightarrow> e_key e \<noteq> k" using assms unfolding cache_inv_def by force
  then have "map_of (abs_cache c) k = None" by (force simp: map_of_eq_None_iff abs_cache_def)
  with None show ?thesis by simp
next
  case (Some i)
  then obtain e where e: "(i, e) \<in> set (lru c)" "e_key e = k" using assms by (auto simp: cache_inv_def)
  have d: "distinct (map fst (abs_cache c))" using assms by (simp add: cache_inv_def abs_cache_def o_def split_def)
  have "(k, e_value e, e_expires e) \<in> set (abs_cache c)" using e by (force simp: abs_cache_def)
  with d have "map_of (abs_cache c) k = Some (e_value e, e_expires e)" by simp
  then show ?thesis using Some e elem_of_Some [OF cache_inv_ids [OF assms]] by auto
qed

lemma cache_delete_ok:
  assumes "cache_inv c" "(i, e) \<in> set (lru c)"
  shows "cache_inv (c\<lparr>cache := (cache c)(e_key e := None), lru := removeElem i (lru c)\<rparr>)"
proof -
  have "removeElem i (lru c) = filter (\<lambda>(j, e'). e_key e' \<noteq> e_key e) (lru c)"
    using assms by (intro removeElem_key) (simp_all add: cache_inv_def)
  then show ?thesis using assms unfolding cache_inv_def by (auto simp: distinct_map_filter)
qed

text \<open>Moving an element to the back, with a changed entry of the same key.\<close>

lemma move_back_ok:
  assumes "cache_inv c" "(i, e) \<in> set (lru c)" "e_key e' = e_key e"
  shows "cache_inv (c\<lparr>lru := removeElem i (lru c) @ [(i, e')]\<rparr>)"
    "abs_cache (c\<lparr>lru := removeElem i (lru c) @ [(i, e')]\<rparr>) = a_remove (e_key e) (abs_cache c) @ [(e_key e, e_value e', e_expires e')]"
proof -
  have r: "removeElem i (lru c) = filter (\<lambda>(j, e'). e_key e' \<noteq> e_key e) (lru c)"
    using assms(1,2) by (intro removeElem_key) (simp_all add: cache_inv_def)
  have i: "i \<notin> fst ` set (removeElem i (lru c))" by (auto simp: removeElem_def)
  show "cache_inv (c\<lparr>lru := removeElem i (lru c) @ [(i, e')]\<rparr>)"
  proof -
    have c: "cache c (e_key e) = Some i" using assms(1,2) by (auto simp: cache_inv_def)
    have "cache c k = Some j \<longleftrightarrow> (\<exists>e''. (j, e'') \<in> set (removeElem i (lru c) @ [(i, e')]) \<and> e_key e'' = k)" for k j
    proof (cases "k = e_key e")
      case True
      then show ?thesis using c assms(3) by (auto simp: r)
    next
      case False
      then show ?thesis using assms(1,3) by (auto simp: r cache_inv_def)
    qed
    moreover have "distinct (map fst (removeElem i (lru c) @ [(i, e')]))" "distinct (map (\<lambda>(i, e). e_key e) (removeElem i (lru c) @ [(i, e')]))"
      using assms(1,3) i by (auto simp: r cache_inv_def distinct_map_filter)
    moreover have "\<forall>(j, e'') \<in> set (removeElem i (lru c) @ [(i, e')]). j < next_id c"
      using assms(1,2) by (auto simp: r cache_inv_def)
    ultimately show ?thesis by (simp add: cache_inv_def)
  qed
  show "abs_cache (c\<lparr>lru := removeElem i (lru c) @ [(i, e')]\<rparr>) = a_remove (e_key e) (abs_cache c) @ [(e_key e, e_value e', e_expires e')]"
    using abs_removeElem [OF assms(1,2)] assms(3) by (simp add: abs_cache_def)
qed

lemma push_back_ok:
  assumes "cache_inv c" "cache c k = None"
  shows "cache_inv (c\<lparr>lru := lru c @ [(next_id c, \<lparr>e_key = k, e_value = v, e_expires = t\<rparr>)],
               cache := (cache c)(k := Some (next_id c)), next_id := Suc (next_id c)\<rparr>)"
proof -
  have "\<And>j e''. (j, e'') \<in> set (lru c) \<Longrightarrow> e_key e'' \<noteq> k"
    using assms unfolding cache_inv_def by (metis option.distinct(1))
  then show ?thesis using assms unfolding cache_inv_def by (auto split: if_splits)
qed

lemma updateElem_move:
  assumes "distinct (map fst l)" "(i, e) \<in> set l"
  shows "moveToBack i l = removeElem i l @ [(i, e)]"
    "moveToBack i (updateElem i f l) = removeElem i l @ [(i, f e)]"
    "updateElem i f (moveToBack i l) = removeElem i l @ [(i, f e)]"
proof -
  have "elem_of l i = Some e" using elem_of_Some [OF assms(1)] assms(2) by simp
  then show "moveToBack i l = removeElem i l @ [(i, e)]" "moveToBack i (updateElem i f l) = removeElem i l @ [(i, f e)]"
    by (simp_all add: moveToBack_def updateElem_props)
  moreover have "map (\<lambda>(j, e). (j, if j = i then f e else e)) (removeElem i l) = removeElem i l"
    by (rule map_idI) (auto simp: removeElem_def)
  ultimately show "updateElem i f (moveToBack i l) = removeElem i l @ [(i, f e)]" by (simp add: updateElem_def)
qed

lemma Get_refines:
  assumes "cache_inv c" "cache_Get now k c = (res, ev, c')"
  shows "cache_inv c'" "opts c' = opts c" "a_Get (opts c) now k (abs_cache c) = (res, ev, abs_cache c')"
proof (atomize(full), cases "cache c k")
  case None
  with assms cache_lookup [OF assms(1), of k]
  show "cache_inv c' \<and> opts c' = opts c \<and> a_Get (opts c) now k (abs_cache c) = (res, ev, abs_cache c')"
    by (auto simp: cache_Get_def a_Get_def)
next
  case (Some i)
  with cache_lookup [OF assms(1), of k] obtain e where e: "(i, e) \<in> set (lru c)" "elem_of (lru c) i = Some e"
    "e_key e = k" "map_of (abs_cache c) k = Some (e_value e, e_expires e)" by auto
  note d = cache_delete_ok [OF assms(1) e(1)] abs_removeElem [OF assms(1) e(1)]
  note m = move_back_ok [OF assms(1) e(1)] updateElem_move [OF cache_inv_ids [OF assms(1)] e(1)]
  show "cache_inv c' \<and> opts c' = opts c \<and> a_Get (opts c) now k (abs_cache c) = (res, ev, abs_cache c')"
  proof (cases "e_expires e \<le> now")
    case True
    then show ?thesis using assms Some e d
      by (auto simp: cache_Get_def a_Get_def abs_cache_def cache_delete_def split: if_splits)
  next
    case False
    then show ?thesis using assms(2) Some e(2-4) m(1) [of e] m(2) [of e] m(1) [of "e\<lparr>e_expires := now + expiration (opts c)\<rparr>"]
        m(2) [of "e\<lparr>e_expires := now + expiration (opts c)\<rparr>"]
      by (auto simp: cache_Get_def a_Get_def Let_def m(3) m(5) [unfolded m(3)])
  qed
qed

lemma length_abs_cache: "length (abs_cache c) = length (lru c)"
  by (simp add: abs_cache_def)

lemma removeElem_hd: "distinct (map fst ((i, e) # l)) \<Longrightarrow> removeElem i ((i, e) # l) = l"
  by (force simp: removeElem_def filter_id_conv)

lemma Set_refines:
  assumes "cache_inv c" "0 < maxSize (opts c)" "length (lru c) \<le> maxSize (opts c)" "cache_Set now k v c = (res, ev, c')"
  shows "cache_inv c'" "opts c' = opts c" "a_Set (opts c) now k v (abs_cache c) = (res, ev, abs_cache c')"
proof (atomize(full), cases "cache c k")
  case (Some i)
  with cache_lookup [OF assms(1), of k] obtain e where e: "(i, e) \<in> set (lru c)" "e_key e = k"
    "map_of (abs_cache c) k = Some (e_value e, e_expires e)" by auto
  let ?e = "e\<lparr>e_value := v, e_expires := now + expiration (opts c)\<rparr>"
  from Some assms(4) updateElem_move(2) [OF cache_inv_ids [OF assms(1)] e(1)]
  have "c' = c\<lparr>lru := removeElem i (lru c) @ [(i, ?e)]\<rparr>" "res = Ret ()" "ev = []" by (auto simp: cache_Set_def)
  with e move_back_ok [OF assms(1) e(1), of ?e]
  show "cache_inv c' \<and> opts c' = opts c \<and> a_Set (opts c) now k v (abs_cache c) = (res, ev, abs_cache c')"
    by (simp add: a_Set_def Let_def)
next
  case None
  with cache_lookup [OF assms(1), of k] have n: "map_of (abs_cache c) k = None" by simp
  show "cache_inv c' \<and> opts c' = opts c \<and> a_Set (opts c) now k v (abs_cache c) = (res, ev, abs_cache c')"
  proof (cases "length (lru c) = maxSize (opts c)")
    case False
    with None n assms push_back_ok [OF assms(1) None] show ?thesis
      by (auto simp: cache_Set_def a_Set_def Let_def length_abs_cache) (simp_all add: abs_cache_def)
  next
    case True
    with assms(2) obtain i e l where l: "lru c = (i, e) # l" by (cases "lru c") auto
    let ?c = "c\<lparr>cache := (cache c)(e_key e := None), lru := removeElem i (lru c)\<rparr>"
    have i: "(i, e) \<in> set (lru c)" by (simp add: l)
    have r: "removeElem i (lru c) = l" using cache_inv_ids [OF assms(1)] removeElem_hd [of i e l] by (simp add: l)
    from True l None assms(4) r
    have "(res, ev, c') = (Ret (), [(e_key e, e_value e)], ?c\<lparr>lru := lru ?c @ [(next_id ?c, \<lparr>e_key = k, e_value = v, e_expires = now + expiration (opts ?c)\<rparr>)],
               cache := (cache ?c)(k := Some (next_id ?c)), next_id := Suc (next_id ?c)\<rparr>)"
      by (simp add: cache_Set_def cache_delete_def)
    moreover have "cache ?c k = None" using None by simp
    ultimately show ?thesis using push_back_ok [OF cache_delete_ok [OF assms(1) i], of k v "now + expiration (opts c)"] n True r
      by (simp add: a_Set_def Let_def length_abs_cache) (simp add: abs_cache_def l)
  qed
qed

lemma Delete_refines:
  assumes "cache_inv c" "cache_Delete k c = (ev, c')"
  shows "cache_inv c'" "opts c' = opts c" "a_Delete k (abs_cache c) = (ev, abs_cache c')"
proof (atomize(full), cases "cache c k")
  case None
  with assms cache_lookup [OF assms(1), of k]
  show "cache_inv c' \<and> opts c' = opts c \<and> a_Delete k (abs_cache c) = (ev, abs_cache c')"
    by (auto simp: cache_Delete_def a_Delete_def)
next
  case (Some i)
  with cache_lookup [OF assms(1), of k] obtain e where e: "(i, e) \<in> set (lru c)" "elem_of (lru c) i = Some e" "e_key e = k"
    "map_of (abs_cache c) k = Some (e_value e, e_expires e)" by auto
  with Some assms(2) cache_delete_ok [OF assms(1) e(1)] abs_removeElem [OF assms(1) e(1)]
  show "cache_inv c' \<and> opts c' = opts c \<and> a_Delete k (abs_cache c) = (ev, abs_cache c')"
    by (auto simp: cache_Delete_def a_Delete_def abs_cache_def cache_delete_def)
qed

text \<open>
  The list that \<open>cleanup\<close> collects holds elements of the cache with distinct keys, and the loop deletes
  the expired ones of them.
\<close>

lemma abs_unique:
  assumes "cache_inv c" "(i, e) \<in> set (lru c)" "(e_key e, v, t) \<in> set (abs_cache c)"
  shows "v = e_value e \<and> t = e_expires e"
proof -
  have "(e_key e, e_value e, e_expires e) \<in> set (abs_cache c)" using assms(2) by (force simp: abs_cache_def)
  moreover have "distinct (map fst (abs_cache c))" using assms by (simp add: cache_inv_def abs_cache_def o_def split_def)
  ultimately show ?thesis using assms(3) by (auto dest: eq_key_imp_eq_value)
qed

lemma cleanup_loop_refines:
  assumes "cache_inv c" "set els \<subseteq> set (lru c)" "distinct (map (\<lambda>(i, e). e_key e) els)" "cleanup_loop els now c = (ev, c')"
  shows "cache_inv c' \<and> opts c' = opts c
     \<and> abs_cache c' = filter (\<lambda>(k, v, t). \<not> (t \<le> now \<and> k \<in> (\<lambda>(i, e). e_key e) ` set els)) (abs_cache c)
     \<and> ev = map (\<lambda>(i, e). (e_key e, e_value e)) (filter (\<lambda>(i, e). e_expires e \<le> now) els)"
  using assms
proof (induction els arbitrary: c ev)
  case (Cons ele els)
  obtain i e where ele: "ele = (i, e)" by (cases ele)
  have i: "(i, e) \<in> set (lru c)" using Cons.prems(2) ele by simp
  show ?case
  proof (cases "e_expires e \<le> now")
    case True
    let ?c = "c\<lparr>cache := (cache c)(e_key e := None), lru := removeElem i (lru c)\<rparr>"
    obtain evs where l: "cleanup_loop els now ?c = (evs, c')" "ev = (e_key e, e_value e) # evs"
      using Cons.prems(4) True by (auto simp: ele cache_delete_def split: prod.splits)
    have r: "removeElem i (lru c) = filter (\<lambda>(j, e'). e_key e' \<noteq> e_key e) (lru c)"
      using Cons.prems(1) i by (intro removeElem_key) (simp_all add: cache_inv_def)
    have "set els \<subseteq> set (lru ?c)" using Cons.prems(2,3) ele by (force simp: r)
    note IH = Cons.IH [OF cache_delete_ok [OF Cons.prems(1) i] this _ l(1)]
    have "abs_cache ?c = a_remove (e_key e) (abs_cache c)" using abs_removeElem [OF Cons.prems(1) i] by (simp add: abs_cache_def)
    moreover have "t \<le> now" if "(e_key e, v, t) \<in> set (abs_cache c)" for v t
      using abs_unique [OF Cons.prems(1) i that] True by simp
    ultimately show ?thesis using IH Cons.prems(3) l(2) True
      by (auto simp: ele a_remove_def intro!: filter_cong)
  next
    case False
    have "\<not> t \<le> now" if "(e_key e, v, t) \<in> set (abs_cache c)" for v t
      using abs_unique [OF Cons.prems(1) i that] False by simp
    with False Cons.IH [OF Cons.prems(1) _ _ , of ev] Cons.prems ele show ?thesis 
      by (auto intro!: filter_cong)
  qed
qed (auto simp: filter_id_conv)

definition a_cleanup :: "'k list \<Rightarrow> int \<Rightarrow> ('k, 'v) acache \<Rightarrow> ('k \<times> 'v) list \<times> ('k, 'v) acache" where
  "a_cleanup ks now l =
     (concat (map (\<lambda>k. case map_of l k of Some (v, t) \<Rightarrow> if t \<le> now then [(k, v)] else [] | None \<Rightarrow> []) ks),
      filter (\<lambda>(k, v, t). \<not> (t \<le> now \<and> k \<in> set ks)) l)"

lemma cleanup_list_props:
  assumes "cache_inv c"
  shows "set (cleanup_list ks c) \<subseteq> set (lru c)"
    "(\<lambda>(i, e). e_key e) ` set (cleanup_list ks c) = set ks \<inter> fst ` set (abs_cache c)"
    "distinct ks \<Longrightarrow> distinct (map (\<lambda>(i, e). e_key e) (cleanup_list ks c))"
    "map (\<lambda>(i, e). (e_key e, e_value e)) (filter (\<lambda>(i, e). e_expires e \<le> now) (cleanup_list ks c)) = fst (a_cleanup ks now (abs_cache c))"
proof (induction ks)
  case (Cons k ks)
  have cl: "cleanup_list (k # ks) c = (case cache c k of None \<Rightarrow> []
     | Some i \<Rightarrow> (case elem_of (lru c) i of None \<Rightarrow> [] | Some e \<Rightarrow> [(i, e)])) @ cleanup_list ks c"
    by (simp add: cleanup_list_def)
  note l = cache_lookup [OF assms, of k]
  have e: "(if cache c k = None then k \<notin> fst ` set (abs_cache c) else k \<in> fst ` set (abs_cache c))"
    using l by (auto simp: map_of_eq_None_iff split: option.splits dest!: map_of_SomeD) force
  {
    case 1 show ?case using Cons l by (auto simp: cl split: option.splits)
  next
    case 2 show ?case using Cons(2) l e by (cases "cache c k") (auto simp: cl)
  next
    case 3 then show ?case using Cons(2,3) l e
      by (cases "cache c k") (auto simp: cl)
  next
    case 4 show ?case using Cons(4) l by (cases "cache c k") (auto simp: cl a_cleanup_def)
  }
qed (simp_all add: cleanup_list_def a_cleanup_def)

lemma cleanup_refines:
  assumes "cache_inv c" "distinct ks" "cache_cleanup ks now c = (ev, c')"
  shows "cache_inv c'" "opts c' = opts c" "a_cleanup ks now (abs_cache c) = (ev, abs_cache c')"
proof (atomize(full))
  note p = cleanup_list_props [OF assms(1), where ks = ks]
  have "filter (\<lambda>(k, v, t). \<not> (t \<le> now \<and> k \<in> set ks \<inter> fst ` set (abs_cache c))) (abs_cache c)
      = filter (\<lambda>(k, v, t). \<not> (t \<le> now \<and> k \<in> set ks)) (abs_cache c)"
    by (intro filter_cong) (auto intro: rev_image_eqI)
  with cleanup_loop_refines [OF assms(1) p(1) p(3) [OF assms(2)] assms(3) [unfolded cache_cleanup_def]] p(2) p(4) [of now]
  show "cache_inv c' \<and> opts c' = opts c \<and> a_cleanup ks now (abs_cache c) = (ev, abs_cache c')"
    by (simp add: a_cleanup_def)
qed

section \<open>Runs of the cache\<close>

datatype ('k, 'v) cop = CGet int 'k | CSet int 'k 'v | CDelete 'k | CCleanup "'k list" int

datatype 'v cres = RGet "'v go" | RSet "unit go" | RDone

text \<open>One call: its result, what it evicts, and the cache after it.\<close>

fun cop_step :: "('k, 'v) cop \<Rightarrow> ('k, 'v) LruCache \<Rightarrow> ('v cres \<times> ('k \<times> 'v) list) \<times> ('k, 'v) LruCache" where
  "cop_step (CGet now k) c = (case cache_Get now k c of (r, ev, c') \<Rightarrow> ((RGet r, ev), c'))"
| "cop_step (CSet now k v) c = (case cache_Set now k v c of (r, ev, c') \<Rightarrow> ((RSet r, ev), c'))"
| "cop_step (CDelete k) c = (case cache_Delete k c of (ev, c') \<Rightarrow> ((RDone, ev), c'))"
| "cop_step (CCleanup ks now) c = (case cache_cleanup ks now c of (ev, c') \<Rightarrow> ((RDone, ev), c'))"

fun a_step :: "cache_opts \<Rightarrow> ('k, 'v) cop \<Rightarrow> ('k, 'v) acache \<Rightarrow> ('v cres \<times> ('k \<times> 'v) list) \<times> ('k, 'v) acache" where
  "a_step opt (CGet now k) l = (case a_Get opt now k l of (r, ev, l') \<Rightarrow> ((RGet r, ev), l'))"
| "a_step opt (CSet now k v) l = (case a_Set opt now k v l of (r, ev, l') \<Rightarrow> ((RSet r, ev), l'))"
| "a_step opt (CDelete k) l = (case a_Delete k l of (ev, l') \<Rightarrow> ((RDone, ev), l'))"
| "a_step opt (CCleanup ks now) l = (case a_cleanup ks now l of (ev, l') \<Rightarrow> ((RDone, ev), l'))"

fun run_ops :: "('op \<Rightarrow> 's \<Rightarrow> 'r \<times> 's) \<Rightarrow> 'op list \<Rightarrow> 's \<Rightarrow> 'r list \<times> 's" where
  "run_ops step [] s = ([], s)"
| "run_ops step (x # xs) s = (case step x s of (r, s') \<Rightarrow> (case run_ops step xs s' of (rs, s'') \<Rightarrow> (r # rs, s'')))"

fun cop_ok :: "('k, 'v) cop \<Rightarrow> bool" where
  "cop_ok (CCleanup ks now) = distinct ks"
| "cop_ok _ = True"

lemma length_a_remove: "length (a_remove k l) \<le> length l" "map_of l k \<noteq> None \<Longrightarrow> length (a_remove k l) < length l"
proof -
  show "length (a_remove k l) \<le> length l" by (simp add: a_remove_def)
  assume "map_of l k \<noteq> None"
  then obtain x where "(k, x) \<in> set l" by (auto dest: map_of_SomeD)
  then show "length (a_remove k l) < length l" unfolding a_remove_def by (intro length_filter_less) auto
qed

lemma a_step_bound:
  assumes "length l \<le> maxSize opt" "0 < maxSize opt" "a_step opt x l = (r, l')"
  shows "length l' \<le> maxSize opt"
proof (cases x)
  case (CGet now k)
  with assms length_a_remove [where k = k and l = l] show ?thesis by (auto simp: a_Get_def split: option.splits if_splits)
next
  case (CSet now k v)
  with assms length_a_remove [where k = k and l = l] show ?thesis
    by (auto simp: a_Set_def Let_def split: option.splits if_splits list.splits)
next
  case (CDelete k)
  with assms length_a_remove [where k = k and l = l] show ?thesis by (auto simp: a_Delete_def split: option.splits)
next
  case (CCleanup ks now)
  with assms show ?thesis by (auto simp: a_cleanup_def intro: order_trans [OF length_filter_le])
qed

lemma cop_step_refines:
  assumes "cache_inv c" "0 < maxSize (opts c)" "length (lru c) \<le> maxSize (opts c)" "cop_ok x" "cop_step x c = (r, c')"
  shows "cache_inv c' \<and> opts c' = opts c \<and> a_step (opts c) x (abs_cache c) = (r, abs_cache c')"
proof (cases x)
  case (CGet now k)
  with assms(5) Get_refines [OF assms(1), of now k] show ?thesis by (auto split: prod.splits)
next
  case (CSet now k v)
  with assms(5) Set_refines [OF assms(1-3), of now k v] show ?thesis by (auto split: prod.splits)
next
  case (CDelete k)
  with assms(5) Delete_refines [OF assms(1), of k] show ?thesis by (auto split: prod.splits)
next
  case (CCleanup ks now)
  with assms(4,5) cleanup_refines [OF assms(1), of ks now] show ?thesis by (auto split: prod.splits)
qed

lemma run_refines:
  assumes "cache_inv c" "0 < maxSize (opts c)" "length (lru c) \<le> maxSize (opts c)" "list_all cop_ok xs" "run_ops cop_step xs c = (rs, c')"
  shows "cache_inv c' \<and> opts c' = opts c \<and> length (lru c') \<le> maxSize (opts c)
    \<and> run_ops (a_step (opts c)) xs (abs_cache c) = (rs, abs_cache c')"
  using assms
proof (induction xs arbitrary: c rs)
  case (Cons x xs)
  obtain r c1 rs' where s: "cop_step x c = (r, c1)" "run_ops cop_step xs c1 = (rs', c')" "rs = r # rs'"
    using Cons.prems(5) by (auto split: prod.splits)
  have st: "cache_inv c1" "opts c1 = opts c" "a_step (opts c) x (abs_cache c) = (r, abs_cache c1)"
    using cop_step_refines [OF Cons.prems(1-3) _ s(1)] Cons.prems(4) by auto
  from a_step_bound [OF _ Cons.prems(2) st(3)] Cons.prems(3) have "length (lru c1) \<le> maxSize (opts c)"
    by (simp add: length_abs_cache)
  with Cons.IH [OF st(1) _ _ _ s(2)] Cons.prems(2,4) st s(3) show ?case by simp
qed auto

lemma run_refines_New:
  assumes "0 < maxSize opt" "list_all cop_ok xs"
  shows "let (rs, c) = run_ops cop_step xs (newLru opt) in
    cache_inv c \<and> length (lru c) \<le> maxSize opt \<and> run_ops (a_step opt) xs [] = (rs, abs_cache c)"
proof (cases "run_ops cop_step xs (newLru opt)")
  case (Pair rs c)
  with run_refines [OF cache_inv_New(1) _ _ assms(2) Pair] assms(1) show ?thesis by simp
qed

section \<open>Properties\<close>

text \<open>
  C34. Every sequence of Get, Set, Delete and cleanup calls on a new cache of positive capacity returns
  what the list of keys in order of use returns, evicts the same entries and reaches the same contents:
  Set of a new key on a full cache evicts the least recently used key and no other, and Get fails on an
  entry from its expiration time on.
\<close>

theorem lru_refines_recency_list:
  assumes "0 < maxSize opt" "list_all cop_ok xs"
  shows "fst (run_ops cop_step xs (newLru opt)) = fst (run_ops (a_step opt) xs [])
     \<and> abs_cache (snd (run_ops cop_step xs (newLru opt))) = snd (run_ops (a_step opt) xs [])"
  using run_refines_New [OF assms] by (auto simp: Let_def split: prod.splits)

definition two_entries :: cache_opts where
  "two_entries = \<lparr>maxSize = 2, interval = 5, expiration = 10, checkCache = False, updateCacheExpOnGet = False, deleteExpCacheOnGet = True\<rparr>"

lemmas cache_eval = cache_Get_def cache_Set_def cache_Delete_def cache_cleanup_def cleanup_list_def cache_delete_def
  newLru_def two_entries_def moveToBack_def removeElem_def updateElem_def a_Get_def a_Set_def a_remove_def
  abs_cache_def

theorem lru_refines_recency_list_witness:
  "let xs = [CSet 0 ''a'' (1 :: nat), CSet 1 ''b'' 2, CGet 2 ''a'', CSet 3 ''c'' 3, CGet 4 ''b'', CGet 11 ''a''] in
   fst (run_ops cop_step xs (newLru two_entries))
     = [(RSet (Ret ()), []), (RSet (Ret ()), []), (RGet (Ret 1), []), (RSet (Ret ()), [(''b'', 2)]),
        (RGet (Err ErrCacheIsNotFound), []), (RGet (Err ErrCacheWasExpired), [(''a'', 1)])]"
proof -
  define xs where "xs = [CSet 0 ''a'' (1 :: nat), CSet 1 ''b'' 2, CGet 2 ''a'', CSet 3 ''c'' 3, CGet 4 ''b'', CGet 11 ''a'']"
  have "fst (run_ops cop_step xs (newLru two_entries)) = fst (run_ops (a_step two_entries) xs [])"
    using lru_refines_recency_list [of two_entries xs] by (simp add: two_entries_def xs_def)
  then show ?thesis by (simp add: xs_def a_Get_def a_Set_def a_remove_def two_entries_def Let_def)
qed

text \<open>
  The cache never holds more than \<open>maxSize\<close> entries, whatever is called on it, and its Go map has
  exactly one entry per element of its list.
\<close>

theorem lru_never_exceeds_maxSize:
  assumes "0 < maxSize opt" "list_all cop_ok xs"
  shows "let c = snd (run_ops cop_step xs (newLru opt)) in
    length (lru c) \<le> maxSize opt \<and> card (dom (cache c)) = length (lru c)"
proof -
  let ?c = "snd (run_ops cop_step xs (newLru opt))"
  have i: "cache_inv ?c" "length (lru ?c) \<le> maxSize opt"
    using run_refines_New [OF assms] by (auto simp: Let_def split: prod.splits)
  have "dom (cache ?c) = (\<lambda>(i, e). e_key e) ` set (lru ?c)"
    using i(1) unfolding cache_inv_def by force
  moreover have "card ((\<lambda>(i, e). e_key e) ` set (lru ?c)) = length (lru ?c)"
    using i(1) unfolding cache_inv_def by (metis distinct_card length_map set_map)
  ultimately show ?thesis using i(2) by (simp add: Let_def)
qed

theorem lru_never_exceeds_maxSize_witness:
  "length (lru (snd (run_ops cop_step [CSet 0 ''a'' True, CSet 1 ''b'' False, CSet 2 ''c'' True] (newLru two_entries)))) \<le> 2"
  using lru_never_exceeds_maxSize [of two_entries "[CSet 0 ''a'' True, CSet 1 ''b'' False, CSet 2 ''c'' True]"]
  by (simp add: two_entries_def Let_def)

text \<open>
  A cleanup that collected the expired element of a key before that key was deleted and set again
  removes the new entry from the Go map when it reaches the old element, and reports the old value as
  evicted a second time: the fresh value is lost to Get, while its element stays in the list.
\<close>

theorem stale_cleanup_drops_fresh_entry:
  assumes "cache_inv c" "cache c k = Some i" "elem_of (lru c) i = Some e" "e_expires e \<le> now"
    and "cache_Delete k c = (ev1, c1)" "length (lru c1) < maxSize (opts c)"
    and "cache_Set now k v c1 = (r, ev2, c2)" "cleanup_loop (cleanup_list [k] c) now c2 = (ev3, c3)"
  shows "ev1 = [(k, e_value e)] \<and> ev3 = [(k, e_value e)] \<and> cache c3 k = None
    \<and> (k, v, now + expiration (opts c)) \<in> set (abs_cache c3)"
proof -
  have k: "e_key e = k" using cache_lookup [OF assms(1), of k] assms(2,3) by simp
  have i: "i < next_id c" using assms(1-3) elem_of_Some [OF cache_inv_ids [OF assms(1)], of i e] by (auto simp: cache_inv_def)
  let ?c1 = "c\<lparr>cache := (cache c)(k := None), lru := removeElem i (lru c)\<rparr>"
  have c1: "c1 = ?c1" "ev1 = [(k, e_value e)]"
    using assms(2,3,5) k by (auto simp: cache_Delete_def cache_delete_def)
  with assms(6,7) have c2: "c2 = ?c1\<lparr>lru := removeElem i (lru c) @ [(next_id c, \<lparr>e_key = k, e_value = v, e_expires = now + expiration (opts c)\<rparr>)],
       cache := (cache c)(k := Some (next_id c)), next_id := Suc (next_id c)\<rparr>"
    by (auto simp: cache_Set_def Let_def)
  have "cleanup_list [k] c = [(i, e)]" using assms(2,3) by (simp add: cleanup_list_def)
  with assms(4,8) k have "ev3 = [(k, e_value e)]" "c3 = c2\<lparr>cache := (cache c2)(k := None), lru := removeElem i (lru c2)\<rparr>"
    by (auto simp: cache_delete_def)
  with c1 c2 i show ?thesis by (auto simp: abs_cache_def removeElem_def)
qed

theorem stale_cleanup_drops_fresh_entry_witness:
  "let c = snd (snd (cache_Set 0 ''h'' (1 :: nat) (newLru two_entries)));
       c1 = snd (cache_Delete ''h'' c);
       c2 = snd (snd (cache_Set 20 ''h'' 2 c1));
       (ev, c3) = cleanup_loop (cleanup_list [''h''] c) 20 c2
   in ev = [(''h'', 1)] \<and> fst (cache_Get 20 ''h'' c3) = Err ErrCacheIsNotFound"
proof -
  define c where "c = snd (snd (cache_Set 0 ''h'' (1 :: nat) (newLru two_entries)))"
  define c1 where "c1 = snd (cache_Delete ''h'' c)"
  define c2 where "c2 = snd (snd (cache_Set 20 ''h'' 2 c1))"
  have c: "cache c ''h'' = Some 0" "elem_of (lru c) 0 = Some \<lparr>e_key = ''h'', e_value = 1, e_expires = 10\<rparr>"
    "length (lru c1) < maxSize (opts c)"
    by (simp_all add: c_def c1_def cache_eval Let_def)
  have inv: "cache_inv c" by (simp add: c_def cache_eval Let_def cache_inv_def)
  obtain ev c3 where r: "cleanup_loop (cleanup_list [''h''] c) 20 c2 = (ev, c3)" by fastforce
  have "ev = [(''h'', 1)]" "cache c3 ''h'' = None"
    using stale_cleanup_drops_fresh_entry [OF inv c(1,2) _ _ c(3) _ r, of "fst (cache_Delete ''h'' c)" 2
        "fst (cache_Set 20 ''h'' 2 c1)" "fst (snd (cache_Set 20 ''h'' 2 c1))"]
    by (simp_all add: c1_def c2_def)
  then show ?thesis using r unfolding c_def [symmetric] c1_def [symmetric] c2_def [symmetric] Let_def
    by (simp add: cache_Get_def)
qed

end
