(* ===== verification/Fake_IP.thy ===== *)
theory Fake_IP
  imports Ip_Pool Lru_Cache
begin

text \<open>
  \<open>resolver/fakeip.go\<close>: a fake IPv4 address per queried host, kept in two caches, one by host and one
  by address. The address of an entry that leaves the first cache returns to the pool. A message of
  \<open>miekg/dns\<close> is a record of the fields the code uses; the functions of that package are the
  parameter \<open>dnslib\<close>.
\<close>

section \<open>DNS messages\<close>

datatype rr = RR_A string nat bytes | RR_AAAA string nat bytes | RR_Other

record question =
  qname :: string
  qtype :: nat
  qclass :: nat

record 'h msg =
  m_hdr :: 'h
  Rcode :: nat
  RecursionAvailable :: bool
  RecursionDesired :: bool
  Question :: "question list"
  Answer :: "rr list"

text \<open>\<open>SetReply L m r\<close> is \<open>m.SetReply(r)\<close>; \<open>zero_hdr\<close> the remaining header of \<open>&dns.Msg{}\<close>.\<close>

record 'h dnslib =
  zero_hdr :: 'h
  SetReply :: "'h msg \<Rightarrow> 'h msg \<Rightarrow> 'h msg"
  Fqdn :: "string \<Rightarrow> string"

definition new_msg :: "'h dnslib \<Rightarrow> 'h msg" where
  "new_msg L = \<lparr>m_hdr = zero_hdr L, Rcode = 0, RecursionAvailable = False, RecursionDesired = False, Question = [], Answer = []\<rparr>"

text \<open>Replying to a request does not touch the answers.\<close>

definition reply_laws :: "'h dnslib \<Rightarrow> bool" where
  "reply_laws L \<longleftrightarrow> (\<forall>m r. Answer (SetReply L m r) = Answer m)"

definition TrimDomain :: "string \<Rightarrow> string" where
  "TrimDomain name = (if hasSuffix name ''.'' then butlast name else name)"

definition req_name :: "'h msg \<Rightarrow> string go" where
  "req_name req = (case Question req of [] \<Rightarrow> Panic | q # _ \<Rightarrow> Ret (qname q))"

section \<open>Model of fakeip.go\<close>

definition DefaultFakeIPDnsRecordTTL :: int where
  "DefaultFakeIPDnsRecordTTL = 60000000000"

definition DefaultFakeIPCacheInterval :: int where
  "DefaultFakeIPCacheInterval = 30000000000"

record 'h Record =
  Domain :: string
  FakeIP :: netaddr
  Query :: "'h msg"
  Reply :: "'h msg"

record 'h fakeIPResolver =
  pool :: ipPool
  hcache :: "(string, 'h Record) LruCache"
  ipCache :: "(netaddr, 'h Record) LruCache"
  dnsIP :: netaddr
  tunPrefix :: "netaddr \<times> nat"

text \<open>\<open>netip.Addr.Next\<close> of an IPv4 address: the zero address after the last one.\<close>

definition addr_Next :: "netaddr \<Rightarrow> netaddr" where
  "addr_Next a = (case a of Addr4 b \<Rightarrow> (let v = word_of_octets b in if v = - 1 then NoAddr else intToIP (v + 1)) | _ \<Rightarrow> NoAddr)"

definition newFakeIPResolver :: "netaddr \<times> nat \<Rightarrow> 'h fakeIPResolver go" where
  "newFakeIPResolver cidr =
     bind_go (newIPPool cidr) (\<lambda>p0.
     bind_go (allocateFor (fst cidr) p0) (\<lambda>(tun, p1). case tun of
       None \<Rightarrow> Err ErrTunIPUnavailable
     | Some tunIP \<Rightarrow>
         bind_go (allocateFor (addr_Next tunIP) p1) (\<lambda>(dns, p2).
         Ret \<lparr>pool = p2,
              hcache = NewCache [WithMaxSize 4096, WithInterval DefaultFakeIPCacheInterval,
                WithExpiration DefaultFakeIPDnsRecordTTL, WithDeleteExpiredCacheOnGet, WithBackgroundCheckCache],
              ipCache = NewCache [WithMaxSize 4096, WithInterval DefaultFakeIPCacheInterval,
                WithExpiration DefaultFakeIPDnsRecordTTL, WithDeleteExpiredCacheOnGet, WithBackgroundCheckCache],
              dnsIP = (case dns of Some a \<Rightarrow> a | None \<Rightarrow> NoAddr),
              tunPrefix = (tunIP, bits p2)\<rparr>)))"

definition onReleaseFakeIP :: "string \<times> 'h Record \<Rightarrow> ipPool \<Rightarrow> ipPool go" where
  "onReleaseFakeIP kv p = bind_go (Release (FakeIP (snd kv)) p) (\<lambda>(_, p'). Ret p')"

text \<open>The evictions of one cache operation, in order.\<close>

fun releases :: "(string \<times> 'h Record) list \<Rightarrow> ipPool \<Rightarrow> ipPool go" where
  "releases [] p = Ret p"
| "releases (kv # kvs) p = bind_go (onReleaseFakeIP kv p) (releases kvs)"

definition GetAllocatedTunPrefix :: "'h fakeIPResolver \<Rightarrow> netaddr \<times> nat" where
  "GetAllocatedTunPrefix r = tunPrefix r"

definition GetAllocatedDnsIP :: "'h fakeIPResolver \<Rightarrow> netaddr" where
  "GetAllocatedDnsIP r = dnsIP r"

definition IsFakeIP :: "'h fakeIPResolver \<Rightarrow> netaddr \<Rightarrow> bool go" where
  "IsFakeIP r ip = Contains (pool r) ip"

text \<open>A step of the cache by host, with what the evict callback does to the pool.\<close>

definition on_hcache :: "((string, 'h Record) LruCache \<Rightarrow> 'a go \<times> (string \<times> 'h Record) list \<times> (string, 'h Record) LruCache)
    \<Rightarrow> ('h fakeIPResolver, 'a) proc" where
  "on_hcache f r = (case f (hcache r) of (res, ev, c) \<Rightarrow>
     (case releases ev (pool r) of Ret p \<Rightarrow> (res, r\<lparr>hcache := c, pool := p\<rparr>) | Err e \<Rightarrow> (Err e, r) | Panic \<Rightarrow> (Panic, r)))"

definition find :: "int \<Rightarrow> string \<Rightarrow> ('h fakeIPResolver, 'h Record) proc" where
  "find now host = on_hcache (cache_Get now host)"

definition FindByIP :: "int \<Rightarrow> netaddr \<Rightarrow> ('h fakeIPResolver, 'h Record) proc" where
  "FindByIP now ip r = (case cache_Get now ip (ipCache r) of (res, _, c) \<Rightarrow>
     (case res of Ret rec \<Rightarrow> find now (Domain rec) (r\<lparr>ipCache := c\<rparr>)
      | Err e \<Rightarrow> (Err e, r\<lparr>ipCache := c\<rparr>) | Panic \<Rightarrow> (Panic, r\<lparr>ipCache := c\<rparr>)))"

definition asSlice :: "netaddr \<Rightarrow> bytes" where
  "asSlice a = (case a of NoAddr \<Rightarrow> [] | Addr4 b \<Rightarrow> b | Addr6 b _ \<Rightarrow> b)"

definition fake_reply :: "'h dnslib \<Rightarrow> string \<Rightarrow> netaddr \<Rightarrow> 'h msg \<Rightarrow> 'h msg" where
  "fake_reply L host ip request =
     (let reply = (SetReply L (new_msg L) request)\<lparr>RecursionAvailable := True\<rparr> in
      reply\<lparr>Answer := Answer reply @ [RR_A (Fqdn L host) (nat (DefaultFakeIPDnsRecordTTL div 1000000000)) (asSlice ip)]\<rparr>)"

definition makeNewFakeDnsRecord :: "'h dnslib \<Rightarrow> int \<Rightarrow> string \<Rightarrow> 'h msg \<Rightarrow> ('h fakeIPResolver, 'h Record) proc" where
  "makeNewFakeDnsRecord L now host request r = (case Allocate host (pool r) of
     Err e \<Rightarrow> (Err e, r)
   | Panic \<Rightarrow> (Panic, r)
   | Ret (ip, p) \<Rightarrow>
       if \<not> IsValid ip then (Err ErrFakeIPInvalid, r\<lparr>pool := p\<rparr>)
       else
         let rec = \<lparr>Domain = host, FakeIP = ip, Query = request, Reply = fake_reply L host ip request\<rparr> in
         bindP (on_hcache (cache_Set now host rec)) (\<lambda>_ r1.
           case cache_Set now ip rec (ipCache r1) of
             (Ret _, _, c) \<Rightarrow> (Ret rec, r1\<lparr>ipCache := c\<rparr>)
           | (Err e, _, c) \<Rightarrow> (Err e, r1\<lparr>ipCache := c\<rparr>)
           | (Panic, _, c) \<Rightarrow> (Panic, r1\<lparr>ipCache := c\<rparr>)) (r\<lparr>pool := p\<rparr>))"

text \<open>
  \<open>record.Reply.SetReply(req)\<close> changes the reply of the record that the cache points to. The record
  in the cache by address is the same object, but only its domain is ever read there.
\<close>

definition store_reply :: "string \<Rightarrow> 'h msg \<Rightarrow> 'h fakeIPResolver \<Rightarrow> 'h fakeIPResolver" where
  "store_reply host m r = (case cache (hcache r) host of None \<Rightarrow> r
     | Some i \<Rightarrow> r\<lparr>hcache := (hcache r)\<lparr>lru := updateElem i (\<lambda>e. e\<lparr>e_value := (e_value e)\<lparr>Reply := m\<rparr>\<rparr>) (lru (hcache r))\<rparr>\<rparr>)"

definition fake_query :: "'h dnslib \<Rightarrow> int \<Rightarrow> 'h msg \<Rightarrow> ('h fakeIPResolver, 'h msg) proc" where
  "fake_query L now req r = (case req_name req of
     Ret name \<Rightarrow>
       (let host = TrimDomain name in
        case find now host r of
          (Ret rec, r1) \<Rightarrow> (let m = SetReply L (Reply rec) req in (Ret m, store_reply host m r1))
        | (Panic, r1) \<Rightarrow> (Panic, r1)
        | (Err _, r1) \<Rightarrow> (case makeNewFakeDnsRecord L now host req r1 of
            (Ret rec, r2) \<Rightarrow> (Ret (Reply rec), r2) | (Err e, r2) \<Rightarrow> (Err e, r2) | (Panic, r2) \<Rightarrow> (Panic, r2)))
   | Err e \<Rightarrow> (Err e, r)
   | Panic \<Rightarrow> (Panic, r))"

section \<open>The records of the cache hold the addresses of the pool\<close>

definition rec_ips :: "(string, 'h Record) acache \<Rightarrow> netaddr list" where
  "rec_ips l = map (\<lambda>(k, rec, t). FakeIP rec) l"

definition fake_opts :: cache_opts where
  "fake_opts = \<lparr>maxSize = 4096, interval = DefaultFakeIPCacheInterval, expiration = DefaultFakeIPDnsRecordTTL,
     checkCache = True, updateCacheExpOnGet = False, deleteExpCacheOnGet = True\<rparr>"

text \<open>
  \<open>R\<close> are the reserved addresses. Every entry is filed under its domain, the addresses of the entries
  are distinct and not reserved, and no other address of the pool is taken.
\<close>

definition recs_ok :: "netaddr set \<Rightarrow> (string, 'h Record) acache \<Rightarrow> ipPool \<Rightarrow> bool" where
  "recs_ok R l p \<longleftrightarrow> ippool.holds R (rec_ips l) p \<and> distinct (map fst l) \<and> (\<forall>(k, rec, t) \<in> set l. Domain rec = k)"

definition fake_inv :: "netaddr set \<Rightarrow> 'h fakeIPResolver \<Rightarrow> bool" where
  "fake_inv R r \<longleftrightarrow> cache_inv (hcache r) \<and> opts (hcache r) = fake_opts \<and> length (lru (hcache r)) \<le> 4096
     \<and> cache_inv (ipCache r) \<and> opts (ipCache r) = fake_opts \<and> length (lru (ipCache r)) \<le> 4096
     \<and> recs_ok R (abs_cache (hcache r)) (pool r)"

lemma releases_ok:
  assumes "ippool.holds R as p" "distinct (map (FakeIP \<circ> snd) evs)" "set (map (FakeIP \<circ> snd) evs) \<subseteq> set as"
  shows "\<exists>p'. releases evs p = Ret p' \<and> ippool.holds R (filter (\<lambda>x. x \<notin> set (map (FakeIP \<circ> snd) evs)) as) p' \<and> slots p' = slots p"
  using assms
proof (induction evs arbitrary: as p)
  case (Cons ev evs)
  let ?a = "FakeIP (snd ev)"
  obtain p1 where p1: "Release ?a p = Ret (True, p1)" "ippool.holds R (filter (\<lambda>x. x \<noteq> ?a) as) p1" "slots p1 = slots p"
    using ippool.holds_free [OF Cons.prems(1), of ?a] Cons.prems(3) by auto
  have "set (map (FakeIP \<circ> snd) evs) \<subseteq> set (filter (\<lambda>x. x \<noteq> ?a) as)" using Cons.prems(2,3) by (fastforce simp: image_iff)
  from Cons.IH [OF p1(2) _ this] Cons.prems(2) p1(1,3) show ?case
    by (auto simp: onReleaseFakeIP_def conj_commute)
qed auto

text \<open>Removing some keys from the list releases the addresses of their records.\<close>

lemma recs_ok_evict:
  assumes "recs_ok R l p" "l' = filter (\<lambda>(k, rec, t). k \<notin> set (map fst evs)) l"
    and "distinct (map fst evs)" "\<And>k rec. (k, rec) \<in> set evs \<Longrightarrow> \<exists>t. (k, rec, t) \<in> set l"
  shows "\<exists>p'. releases evs p = Ret p' \<and> recs_ok R l' p' \<and> slots p' = slots p"
proof -
  have h: "ippool.holds R (rec_ips l) p" and d: "distinct (map fst l)" and dom: "\<And>k rec t. (k, rec, t) \<in> set l \<Longrightarrow> Domain rec = k"
    using assms(1) by (auto simp: recs_ok_def)
  have di: "distinct (rec_ips l)" using h by (simp add: ippool.holds_def)
  have inj: "k = k'" if "(k, rec, t) \<in> set l" "(k', rec', t') \<in> set l" "FakeIP rec = FakeIP rec'" for k rec t k' rec' t'
  proof -
    have "inj_on (\<lambda>(k, rec, t). FakeIP rec) (set l)" using di by (simp add: rec_ips_def distinct_map)
    from inj_onD [OF this _ that(1,2)] that(3) show ?thesis by simp
  qed
  have func: "rec = rec'" if "(k, rec, t) \<in> set l" "(k, rec', t') \<in> set l" for k rec t rec' t'
    using d that by (auto dest: eq_key_imp_eq_value)
  have "distinct (map (FakeIP \<circ> snd) evs)"
    unfolding distinct_map using assms(3,4) inj func
    by (auto simp: distinct_map inj_on_def) (metis fst_conv snd_conv)+
  moreover have "set (map (FakeIP \<circ> snd) evs) \<subseteq> set (rec_ips l)"
    using assms(4) by (force simp: rec_ips_def)
  moreover have "filter (\<lambda>x. x \<notin> set (map (FakeIP \<circ> snd) evs)) (rec_ips l) = rec_ips l'"
  proof -
    have "FakeIP rec \<in> set (map (FakeIP \<circ> snd) evs) \<longleftrightarrow> k \<in> set (map fst evs)" if l: "(k, rec, t) \<in> set l" for k rec t
    proof
      assume "FakeIP rec \<in> set (map (FakeIP \<circ> snd) evs)"
      then obtain k' rec' where e: "(k', rec') \<in> set evs" "FakeIP rec' = FakeIP rec" by auto
      with assms(4) inj l have "k = k'" by metis
      with e(1) show "k \<in> set (map fst evs)" by force
    next
      assume "k \<in> set (map fst evs)"
      then obtain rec' where e: "(k, rec') \<in> set evs" by auto
      with assms(4) func l have "rec = rec'" by metis
      with e show "FakeIP rec \<in> set (map (FakeIP \<circ> snd) evs)" by force
    qed
    then show ?thesis unfolding rec_ips_def assms(2) filter_map by (intro arg_cong [where f = "map _"] filter_cong) (auto simp del: set_map)
  qed
  ultimately obtain p' where "releases evs p = Ret p'" "ippool.holds R (rec_ips l') p'" "slots p' = slots p"
    using releases_ok [OF h, of evs] by auto
  moreover have "distinct (map fst l')" "\<forall>(k, rec, t) \<in> set l'. Domain rec = k"
    using d dom by (auto simp: assms(2) distinct_map_filter)
  ultimately show ?thesis by (auto simp: recs_ok_def)
qed

lemma recs_ok_perm:
  assumes "recs_ok R l p" "set l' = set l" "distinct l'"
  shows "recs_ok R l' p"
proof -
  have "distinct (rec_ips l')" "distinct (map fst l')" "set (rec_ips l') = set (rec_ips l)"
    using assms by (auto simp: recs_ok_def ippool.holds_def rec_ips_def distinct_map)
  with assms(1,2) show ?thesis by (auto simp: recs_ok_def ippool.holds_def)
qed

lemma recs_ok_Get:
  assumes "recs_ok R l p" "a_Get fake_opts now k l = (res, ev, l')"
  shows "\<exists>p'. releases ev p = Ret p' \<and> recs_ok R l' p' \<and> slots p' = slots p"
    "case res of Ret rec \<Rightarrow> Domain rec = k \<and> (\<exists>t. map_of l' k = Some (rec, t))
       | Err e \<Rightarrow> map_of l' k = None | Panic \<Rightarrow> False"
proof (atomize(full), cases "map_of l k")
  case None
  with assms show "(\<exists>p'. releases ev p = Ret p' \<and> recs_ok R l' p' \<and> slots p' = slots p) \<and>
     (case res of Ret rec \<Rightarrow> Domain rec = k \<and> (\<exists>t. map_of l' k = Some (rec, t)) | Err e \<Rightarrow> map_of l' k = None | Panic \<Rightarrow> False)"
    by (auto simp: a_Get_def)
next
  case (Some vt)
  obtain v t where m: "map_of l k = Some (v, t)" using Some by (cases vt) auto
  then have i: "(k, v, t) \<in> set l" by (rule map_of_SomeD)
  have d: "distinct (map fst l)" and dom: "Domain v = k" using assms(1) i by (auto simp: recs_ok_def)
  have n: "map_of (a_remove k l) k = None" by (auto simp: a_remove_def map_of_eq_None_iff)
  show "(\<exists>p'. releases ev p = Ret p' \<and> recs_ok R l' p' \<and> slots p' = slots p) \<and>
     (case res of Ret rec \<Rightarrow> Domain rec = k \<and> (\<exists>t. map_of l' k = Some (rec, t)) | Err e \<Rightarrow> map_of l' k = None | Panic \<Rightarrow> False)"
  proof (cases "now < t")
    case True
    then have r: "res = Ret v" "ev = []" "l' = a_remove k l @ [(k, v, t)]" using assms(2) m by (auto simp: a_Get_def fake_opts_def)
    have "set l' = set l" using i d by (auto simp: r a_remove_def dest: eq_key_imp_eq_value)
    moreover have "distinct l'" using d by (auto simp: r a_remove_def distinct_map)
    ultimately show ?thesis using recs_ok_perm [OF assms(1), of l'] r n dom by (simp add: map_add_def)
  next
    case False
    then have r: "res = Err ErrCacheWasExpired" "ev = [(k, v)]" "l' = a_remove k l" using assms(2) m by (auto simp: a_Get_def fake_opts_def)
    have "\<exists>p'. releases ev p = Ret p' \<and> recs_ok R l' p' \<and> slots p' = slots p"
      using i by (intro recs_ok_evict [OF assms(1)]) (auto simp: r a_remove_def split_def)
    with n r show ?thesis by simp
  qed
qed

lemma recs_ok_Set:
  assumes "recs_ok R l p" "Allocate h p = Ret (ip, p1)" "map_of l k = None" "Domain rec = k" "FakeIP rec = ip"
    "length l \<le> 4096" "a_Set fake_opts now k rec l = (res, ev, l')"
  shows "\<exists>p'. releases ev p1 = Ret p' \<and> recs_ok R l' p' \<and> slots p' = slots p"
proof -
  let ?e = "(k, rec, now + DefaultFakeIPDnsRecordTTL)"
  have h: "ippool.holds R (rec_ips l) p" and d: "distinct (map fst l)" and k: "k \<notin> fst ` set l"
    using assms(1,3) by (auto simp: recs_ok_def map_of_eq_None_iff)
  note al = ippool.holds_alloc [OF h assms(2)]
  have ok: "recs_ok R (l @ [?e]) p1"
    using al assms(1,4,5) k by (auto simp: recs_ok_def rec_ips_def)
  have "l \<noteq> []" if "\<not> length l < 4096" using that by auto
  then have r: "(ev = [] \<and> l' = l @ [?e]) \<or> (\<exists>k' v' t' m. l = (k', v', t') # m \<and> ev = [(k', v')] \<and> l' = m @ [?e])"
    using assms(3,7) by (auto simp: a_Set_def fake_opts_def Let_def split: if_splits list.splits)
  have "l' = filter (\<lambda>(k', rec, t). k' \<notin> set (map fst ev)) (l @ [?e])"
    using r
  proof
    assume "\<exists>k' v' t' m. l = (k', v', t') # m \<and> ev = [(k', v')] \<and> l' = m @ [?e]"
    then obtain k' v' t' m where l: "l = (k', v', t') # m" "ev = [(k', v')]" "l' = m @ [?e]" by blast
    moreover have "filter (\<lambda>(k'', rec, t). k'' \<noteq> k') m = m" using d l(1) by (force simp: filter_id_conv)
    ultimately show ?thesis using k by auto
  qed (simp add: split_def)
  then have "\<exists>p'. releases ev p1 = Ret p' \<and> recs_ok R l' p' \<and> slots p' = slots p1"
    using r by (intro recs_ok_evict [OF ok]) auto
  then show "\<exists>p'. releases ev p1 = Ret p' \<and> recs_ok R l' p' \<and> slots p' = slots p" using al(3) by simp
qed

lemma recs_ok_cleanup:
  assumes "recs_ok R l p" "distinct ks" "a_cleanup ks now l = (ev, l')"
  shows "\<exists>p'. releases ev p = Ret p' \<and> recs_ok R l' p' \<and> slots p' = slots p"
proof (rule recs_ok_evict [OF assms(1)])
  have d: "distinct (map fst l)" using assms(1) by (simp add: recs_ok_def)
  have ev: "ev = concat (map (\<lambda>k. case map_of l k of Some (v, t) \<Rightarrow> if t \<le> now then [(k, v)] else [] | None \<Rightarrow> []) ks)"
    and l': "l' = filter (\<lambda>(k, v, t). \<not> (t \<le> now \<and> k \<in> set ks)) l" using assms(3) by (auto simp: a_cleanup_def)
  have k: "map fst ev = filter (\<lambda>k. \<exists>v t. map_of l k = Some (v, t) \<and> t \<le> now) ks"
    unfolding ev by (induction ks) (auto split: option.splits)
  show "distinct (map fst ev)" using assms(2) by (simp add: k)
  show "\<exists>t. (k, rec, t) \<in> set l" if "(k, rec) \<in> set ev" for k rec
    using that by (auto simp: ev split: option.splits if_splits dest: map_of_SomeD [OF sym])
  show "l' = filter (\<lambda>(k, rec, t). k \<notin> set (map fst ev)) l"
    unfolding l' k using d by (intro filter_cong) (auto simp: map_of_eq_Some_iff dest: eq_key_imp_eq_value)
qed

section \<open>Every operation keeps the invariant\<close>

text \<open>What no operation changes: the addresses of the pool and the two reserved ones.\<close>

definition same_net :: "'h fakeIPResolver \<Rightarrow> 'h fakeIPResolver \<Rightarrow> bool" where
  "same_net r r' \<longleftrightarrow> slots (pool r') = slots (pool r) \<and> dnsIP r' = dnsIP r \<and> tunPrefix r' = tunPrefix r"

lemma same_net_trans: "same_net r1 r2 \<Longrightarrow> same_net r2 r3 \<Longrightarrow> same_net r1 r3"
  by (simp add: same_net_def)

lemma fake_inv_ipCache:
  "fake_inv R r \<Longrightarrow> cache_inv c \<Longrightarrow> opts c = fake_opts \<Longrightarrow> length (lru c) \<le> 4096 \<Longrightarrow>
   fake_inv R (r\<lparr>ipCache := c\<rparr>) \<and> same_net r (r\<lparr>ipCache := c\<rparr>)"
  by (simp add: fake_inv_def same_net_def)

lemma a_Get_length:
  assumes "a_Get opt now k l = (res, ev, l')"
  shows "length l' \<le> length l"
proof (cases "map_of l k")
  case None
  with assms show ?thesis by (simp add: a_Get_def)
next
  case (Some vt)
  with assms length_a_remove [where k = k and l = l] show ?thesis by (auto simp: a_Get_def split: if_splits prod.splits)
qed

lemma find_ok:
  assumes "fake_inv R r" "find now host r = (res, r')"
  shows "fake_inv R r' \<and> same_net r r' \<and> (case res of Ret rec \<Rightarrow> Domain rec = host \<and> (\<exists>t. map_of (abs_cache (hcache r')) host = Some (rec, t))
    | Err e \<Rightarrow> map_of (abs_cache (hcache r')) host = None | Panic \<Rightarrow> False)"
proof -
  obtain gr ev c where g: "cache_Get now host (hcache r) = (gr, ev, c)" by (metis prod_cases3)
  have i: "cache_inv (hcache r)" "opts (hcache r) = fake_opts" "recs_ok R (abs_cache (hcache r)) (pool r)"
    using assms(1) by (simp_all add: fake_inv_def)
  note gr = Get_refines [OF i(1) g, unfolded i(2)]
  obtain p where p: "releases ev (pool r) = Ret p" "recs_ok R (abs_cache c) p" "slots p = slots (pool r)"
    using recs_ok_Get(1) [OF i(3) gr(3)] by auto
  have "res = gr" "r' = r\<lparr>hcache := c, pool := p\<rparr>" using assms(2) g p(1) by (auto simp: find_def on_hcache_def)
  then show ?thesis using assms(1) gr p recs_ok_Get(2) [OF i(3) gr(3)] a_Get_length [OF gr(3)]
    by (cases gr) (auto simp: fake_inv_def same_net_def length_abs_cache)
qed

lemma ipCache_Get:
  assumes "fake_inv R r" "cache_Get now ip (ipCache r) = (res, ev, c)"
  shows "fake_inv R (r\<lparr>ipCache := c\<rparr>) \<and> same_net r (r\<lparr>ipCache := c\<rparr>)"
proof -
  have i: "cache_inv (ipCache r)" "opts (ipCache r) = fake_opts" "length (lru (ipCache r)) \<le> 4096"
    using assms(1) by (simp_all add: fake_inv_def)
  note g = Get_refines [OF i(1) assms(2)]
  show ?thesis using i g(1,2) a_Get_length [OF g(3)] by (intro fake_inv_ipCache [OF assms(1)]) (auto simp: length_abs_cache)
qed

lemma FindByIP_ok:
  assumes "fake_inv R r" "FindByIP now ip r = (res, r')"
  shows "fake_inv R r' \<and> same_net r r' \<and> res \<noteq> Panic"
proof -
  obtain gr ev c where g: "cache_Get now ip (ipCache r) = (gr, ev, c)" by (metis prod_cases3)
  note k = ipCache_Get [OF assms(1) g]
  have np: "gr \<noteq> Panic" using g cache_lookup [of "ipCache r" ip] assms(1)
    by (auto simp: cache_Get_def Let_def fake_inv_def split: option.splits if_splits prod.splits)
  show ?thesis
  proof (cases gr)
    case (Ret rec)
    then have "find now (Domain rec) (r\<lparr>ipCache := c\<rparr>) = (res, r')" using assms(2) g by (simp add: FindByIP_def)
    from find_ok [OF conjunct1 [OF k] this] k show ?thesis by (auto intro: same_net_trans)
  qed (use assms(2) g k np in \<open>auto simp: FindByIP_def\<close>)
qed

lemma a_Set_spec:
  assumes "a_Set fake_opts now k v l = (res, ev, l')"
  shows "res = Ret ()" "map_of l' k = Some (v, now + DefaultFakeIPDnsRecordTTL)"
proof (atomize(full), cases "map_of l k")
  case None
  have "l \<noteq> []" if "\<not> length l < 4096" using that by auto
  with None assms show "res = Ret () \<and> map_of l' k = Some (v, now + DefaultFakeIPDnsRecordTTL)"
    by (auto simp: a_Set_def Let_def fake_opts_def map_add_def split: if_splits list.splits)
next
  case (Some x)
  have "map_of (a_remove k l) k = None" by (auto simp: a_remove_def map_of_eq_None_iff)
  with Some assms show "res = Ret () \<and> map_of l' k = Some (v, now + DefaultFakeIPDnsRecordTTL)"
    by (auto simp: a_Set_def Let_def fake_opts_def map_add_def)
qed

lemma Set_keeps:
  assumes "cache_inv c" "opts c = fake_opts" "length (lru c) \<le> 4096" "cache_Set now k v c = (res, ev, c')"
  shows "cache_inv c' \<and> opts c' = fake_opts \<and> length (lru c') \<le> 4096 \<and> a_Set fake_opts now k v (abs_cache c) = (res, ev, abs_cache c')
    \<and> res = Ret () \<and> map_of (abs_cache c') k = Some (v, now + DefaultFakeIPDnsRecordTTL)"
proof -
  have m: "maxSize fake_opts = 4096" by (simp add: fake_opts_def)
  note r = Set_refines [OF assms(1) _ _ assms(4), unfolded assms(2) m]
  have "a_step fake_opts (CSet now k v) (abs_cache c) = ((RSet res, ev), abs_cache c')" using r assms(3) by simp
  from a_step_bound [OF _ _ this] r assms(3) a_Set_spec [OF r(3)] show ?thesis by (simp add: m length_abs_cache)
qed

lemma makeNew_ok:
  assumes "fake_inv R r" "map_of (abs_cache (hcache r)) host = None" "makeNewFakeDnsRecord L now host req r = (res, r')"
  shows "fake_inv R r' \<and> same_net r r' \<and> (case res of
      Ret rec \<Rightarrow> Domain rec = host \<and> FakeIP rec \<in> slots (pool r) - R \<and> FakeIP rec \<notin> set (rec_ips (abs_cache (hcache r)))
        \<and> Reply rec = fake_reply L host (FakeIP rec) req
        \<and> map_of (abs_cache (hcache r')) host = Some (rec, now + DefaultFakeIPDnsRecordTTL)
        \<and> map_of (abs_cache (ipCache r')) (FakeIP rec) = Some (rec, now + DefaultFakeIPDnsRecordTTL)
    | Err e \<Rightarrow> e = ErrNoAvailableFakeIP \<and> R \<union> set (rec_ips (abs_cache (hcache r))) = slots (pool r)
    | Panic \<Rightarrow> False)"
proof -
  have i: "cache_inv (hcache r)" "opts (hcache r) = fake_opts" "length (lru (hcache r)) \<le> 4096" "recs_ok R (abs_cache (hcache r)) (pool r)"
    "cache_inv (ipCache r)" "opts (ipCache r) = fake_opts" "length (lru (ipCache r)) \<le> 4096"
    using assms(1) by (simp_all add: fake_inv_def)
  have h: "ippool.holds R (rec_ips (abs_cache (hcache r))) (pool r)" using i(4) by (simp add: recs_ok_def)
  show ?thesis
  proof (cases "R \<union> set (rec_ips (abs_cache (hcache r))) = slots (pool r)")
    case True
    with ippool.holds_full [OF h, of host] assms(1,3) show ?thesis by (auto simp: makeNewFakeDnsRecord_def same_net_def)
  next
    case False
    then obtain ip p where al: "Allocate host (pool r) = Ret (ip, p)" using ippool.holds_room [OF h] by blast
    note al' = ippool.holds_alloc [OF h al]
    then have v: "IsValid ip" by (auto simp: slots_def intToIP_def IsValid_def)
    define rec where "rec = \<lparr>Domain = host, FakeIP = ip, Query = req, Reply = fake_reply L host ip req\<rparr>"
    obtain sr ev c where s: "cache_Set now host rec (hcache r) = (sr, ev, c)" by (metis prod_cases3)
    note sk = Set_keeps [OF i(1-3) s]
    note so = recs_ok_Set [OF i(4) al assms(2), of rec now sr ev "abs_cache c"]
    obtain p' where p': "releases ev p = Ret p'" "recs_ok R (abs_cache c) p'" "slots p' = slots (pool r)"
      using so sk i(3) by (auto simp: rec_def length_abs_cache)
    obtain sr2 ev2 c2 where s2: "cache_Set now ip rec (ipCache r) = (sr2, ev2, c2)" by (metis prod_cases3)
    note sk2 = Set_keeps [OF i(5-7) s2]
    have r': "res = Ret rec" "r' = r\<lparr>pool := p', hcache := c, ipCache := c2\<rparr>"
      using assms(3) al v s s2 p'(1) sk sk2 by (auto simp: makeNewFakeDnsRecord_def rec_def [symmetric] Let_def bindP_apply on_hcache_def)
    then show ?thesis using sk sk2 p' al' assms(1) i(3) by (auto simp: fake_inv_def same_net_def rec_def length_abs_cache)
  qed
qed

text \<open>Storing a reply changes neither keys, addresses nor expiration times.\<close>

lemma abs_store_reply:
  "abs_cache (c\<lparr>lru := updateElem i (\<lambda>e. e\<lparr>e_value := (e_value e)\<lparr>Reply := m\<rparr>\<rparr>) (lru c)\<rparr>)
   = map (\<lambda>(j, e). (e_key e, if j = i then (e_value e)\<lparr>Reply := m\<rparr> else e_value e, e_expires e)) (lru c)"
  by (auto simp: abs_cache_def updateElem_def)

lemma store_reply_ok:
  assumes "fake_inv R r"
  shows "fake_inv R (store_reply host m r) \<and> same_net r (store_reply host m r)"
proof (cases "cache (hcache r) host")
  case (Some i)
  let ?c = "(hcache r)\<lparr>lru := updateElem i (\<lambda>e. e\<lparr>e_value := (e_value e)\<lparr>Reply := m\<rparr>\<rparr>) (lru (hcache r))\<rparr>"
  have "cache_inv ?c" using assms by (intro cache_inv_update) (auto simp: fake_inv_def)
  moreover have "rec_ips (abs_cache ?c) = rec_ips (abs_cache (hcache r))" "map fst (abs_cache ?c) = map fst (abs_cache (hcache r))"
    unfolding abs_store_reply by (auto simp: rec_ips_def abs_cache_def)
  moreover have "\<forall>(k, rec, t) \<in> set (abs_cache ?c). Domain rec = k"
    using assms unfolding abs_store_reply by (auto simp: fake_inv_def recs_ok_def abs_cache_def)
  ultimately show ?thesis using assms Some
    by (simp add: fake_inv_def same_net_def store_reply_def recs_ok_def) (simp add: updateElem_def)
qed (use assms in \<open>simp add: store_reply_def same_net_def\<close>)

lemma fake_query_ok:
  assumes "fake_inv R r" "fake_query L now req r = (res, r')"
  shows "fake_inv R r' \<and> same_net r r' \<and> (res = Panic \<longrightarrow> Question req = [])"
proof (cases "Question req")
  case (Cons q qs)
  define host where "host = TrimDomain (qname q)"
  obtain fr r1 where f: "find now host r = (fr, r1)" by fastforce
  note fo = find_ok [OF assms(1) f]
  show ?thesis
  proof (cases fr)
    case (Ret rec)
    then show ?thesis using assms(2) Cons f fo store_reply_ok [of R r1]
      by (auto simp: fake_query_def req_name_def host_def [symmetric] Let_def intro: same_net_trans)
  next
    case (Err e)
    obtain mr r2 where mk: "makeNewFakeDnsRecord L now host req r1 = (mr, r2)" by fastforce
    from makeNew_ok [OF _ _ mk] fo Err have "fake_inv R r2 \<and> same_net r1 r2 \<and> mr \<noteq> Panic" by (auto split: go.splits)
    then show ?thesis using assms(2) Cons f fo Err mk
      by (auto simp: fake_query_def req_name_def host_def [symmetric] Let_def intro: same_net_trans split: go.splits)
  qed (use fo in auto)
qed (use assms in \<open>auto simp: fake_query_def req_name_def same_net_def\<close>)

lemma cleanup_length: "a_cleanup ks now l = (ev, l') \<Longrightarrow> length l' \<le> length l"
  by (auto simp: a_cleanup_def)

definition hcache_cleanup :: "string list \<Rightarrow> int \<Rightarrow> ('h fakeIPResolver, unit) proc" where
  "hcache_cleanup ks now = on_hcache (\<lambda>c. (Ret (), cache_cleanup ks now c))"

definition ipCache_cleanup :: "netaddr list \<Rightarrow> int \<Rightarrow> ('h fakeIPResolver, unit) proc" where
  "ipCache_cleanup ks now r = (Ret (), r\<lparr>ipCache := snd (cache_cleanup ks now (ipCache r))\<rparr>)"

lemma hcache_cleanup_ok:
  assumes "fake_inv R r" "distinct ks"
  shows "\<exists>r'. hcache_cleanup ks now r = (Ret (), r') \<and> fake_inv R r' \<and> same_net r r'
    \<and> abs_cache (hcache r') = filter (\<lambda>(k, v, t). \<not> (t \<le> now \<and> k \<in> set ks)) (abs_cache (hcache r))"
proof -
  obtain ev c where g: "cache_cleanup ks now (hcache r) = (ev, c)" by fastforce
  have i: "cache_inv (hcache r)" "opts (hcache r) = fake_opts" "recs_ok R (abs_cache (hcache r)) (pool r)"
    using assms(1) by (simp_all add: fake_inv_def)
  note gr = cleanup_refines [OF i(1) assms(2) g, unfolded i(2)]
  obtain p where p: "releases ev (pool r) = Ret p" "recs_ok R (abs_cache c) p" "slots p = slots (pool r)"
    using recs_ok_cleanup [OF i(3) assms(2) gr(3)] by auto
  have "hcache_cleanup ks now r = (Ret (), r\<lparr>hcache := c, pool := p\<rparr>)" using g p(1) by (auto simp: hcache_cleanup_def on_hcache_def)
  then show ?thesis using assms(1) gr p cleanup_length [OF gr(3)]
    by (auto simp: fake_inv_def same_net_def length_abs_cache a_cleanup_def)
qed

lemma ipCache_cleanup_ok:
  assumes "fake_inv R r" "distinct ks"
  shows "\<exists>r'. ipCache_cleanup ks now r = (Ret (), r') \<and> fake_inv R r' \<and> same_net r r'"
proof -
  obtain ev c where g: "cache_cleanup ks now (ipCache r) = (ev, c)" by fastforce
  have i: "cache_inv (ipCache r)" "opts (ipCache r) = fake_opts" "length (lru (ipCache r)) \<le> 4096"
    using assms(1) by (simp_all add: fake_inv_def)
  note gr = cleanup_refines [OF i(1) assms(2) g, unfolded i(2)]
  show ?thesis using g i gr cleanup_length [OF gr(3)] fake_inv_ipCache [OF assms(1), of c]
    by (auto simp: ipCache_cleanup_def length_abs_cache)
qed

section \<open>The new resolver\<close>

lemma intToIP_octets:
  assumes "length b = 4"
  shows "intToIP (word_of_octets b) = Addr4 b"
proof -
  obtain b0 b1 b2 b3 where b: "b = [b0, b1, b2, b3]" using assms by (auto simp: numeral_eq_Suc length_Suc_conv)
  have "ucast (drop_bit 24 (word_of_octets b)) = b0" "ucast (drop_bit 16 (word_of_octets b)) = b1"
    "ucast (drop_bit 8 (word_of_octets b)) = b2" "ucast (word_of_octets b) = b3"
    unfolding b word_of_octets_def by (rule bit_word_eqI; auto simp: bit_simps dest: bit_imp_le_length)+
  then show ?thesis by (simp add: intToIP_def b)
qed

lemma card_slots: "pool_inv p \<Longrightarrow> card (slots p) = length (flags p)"
  using slot_inj [of p] by (simp add: slots_def card_image inj_on_def)

lemma addr_Next_intToIP: "addr_Next (intToIP v) = (if v = - 1 then NoAddr else intToIP (v + 1))"
proof -
  have "word_of_octets (asSlice (intToIP v)) = v"
    using ipToInt_intToIP [of v] by (simp add: ipToInt_def intToIP_def as4_def asSlice_def)
  then show ?thesis by (auto simp: addr_Next_def intToIP_def asSlice_def Let_def)
qed

lemma newFakeIPResolver_inv:
  assumes "length b = 4" "n \<le> 32" "newFakeIPResolver (Addr4 b, n) = Ret r"
  defines "R \<equiv> {fst (tunPrefix r), dnsIP r}"
  shows "fake_inv R r" "R \<subseteq> slots (pool r)" "fst (tunPrefix r) \<noteq> dnsIP r" "abs_cache (hcache r) = []"
proof -
  obtain p0 where p0: "newIPPool (Addr4 b, n) = Ret p0" using assms(3) by (auto simp: newFakeIPResolver_def bind_go_eq_Ret)
  have i0: "pool_inv p0" "used p0 = {}" using newIPPool_spec [OF assms(2) p0] by auto
  have c: "1 < card (slots p0)" using card_slots [OF i0(1)] i0(1) by (auto simp: pool_inv_def unat_gt_0)
  have "used p0 \<noteq> slots p0" using c i0(2) by auto
  then obtain tun p1 where p1: "allocateFor (Addr4 b) p0 = Ret (Some tun, p1)" "pool_inv p1" "slots p1 = slots p0"
      "tun \<in> slots p0" "used p1 = {tun}"
    using allocateFor_spec [OF i0(1), of "word_of_octets b"] i0(2) by (auto simp: intToIP_octets [OF assms(1)])
  obtain v where v: "tun = intToIP v" using p1(4) by (auto simp: slots_def)
  have "used p1 \<noteq> slots p1"
  proof
    assume "used p1 = slots p1"
    then have "card (slots p0) = card {tun}" using p1(3,5) by metis
    then show False using c by simp
  qed
  note a2 = allocateFor_spec [OF p1(2) this]
  have "v \<noteq> - 1"
  proof
    assume "v = - 1"
    then have "allocateFor (addr_Next tun) p1 = Panic" by (simp add: v addr_Next_intToIP allocateFor_def index_def ipToInt_def as4_def)
    then show False using assms(3) p0 p1(1) by (simp add: newFakeIPResolver_def)
  qed
  then obtain dns p2 where p2: "allocateFor (addr_Next tun) p1 = Ret (Some dns, p2)" "pool_inv p2" "slots p2 = slots p1"
      "dns \<in> slots p1" "used p2 = {tun, dns}" "dns \<noteq> tun"
    using a2 [of "v + 1"] p1(5) by (auto simp: v addr_Next_intToIP insert_commute split: if_splits)
  have r: "pool r = p2" "fst (tunPrefix r) = tun" "dnsIP r = dns"
    "hcache r = newLru fake_opts" "ipCache r = newLru fake_opts"
    using assms(3) p0 p1(1) p2(1)
    by (auto simp: newFakeIPResolver_def NewCache_def WithMaxSize_def WithInterval_def WithExpiration_def WithDeleteExpiredCacheOnGet_def
        WithBackgroundCheckCache_def default_opts_def fake_opts_def)
  show "fake_inv R r" using r p2 by (simp add: fake_inv_def recs_ok_def ippool.holds_def rec_ips_def R_def)
  show "R \<subseteq> slots (pool r)" "fst (tunPrefix r) \<noteq> dnsIP r" "abs_cache (hcache r) = []"
    using r p1 p2 by (auto simp: R_def)
qed

section \<open>Runs of the resolver\<close>

datatype 'h fop = OpQuery int "'h msg" | OpFindByIP int netaddr | OpCleanHosts "string list" int | OpCleanIPs "netaddr list" int

fun fop_step :: "'h dnslib \<Rightarrow> 'h fop \<Rightarrow> 'h fakeIPResolver \<Rightarrow> 'h fakeIPResolver" where
  "fop_step L (OpQuery now req) r = snd (fake_query L now req r)"
| "fop_step L (OpFindByIP now ip) r = snd (FindByIP now ip r)"
| "fop_step L (OpCleanHosts ks now) r = snd (hcache_cleanup ks now r)"
| "fop_step L (OpCleanIPs ks now) r = snd (ipCache_cleanup ks now r)"

fun fop_ok :: "'h fop \<Rightarrow> bool" where
  "fop_ok (OpCleanHosts ks now) = distinct ks"
| "fop_ok (OpCleanIPs ks now) = distinct ks"
| "fop_ok _ = True"

lemma fop_step_ok:
  assumes "fake_inv R r" "fop_ok x"
  shows "fake_inv R (fop_step L x r) \<and> same_net r (fop_step L x r)"
proof (cases x)
  case (OpQuery now req)
  then show ?thesis using fake_query_ok [OF assms(1), of L now req] by (cases "fake_query L now req r") auto
next
  case (OpFindByIP now ip)
  then show ?thesis using FindByIP_ok [OF assms(1), of now ip] by (cases "FindByIP now ip r") auto
next
  case (OpCleanHosts ks now)
  then show ?thesis using hcache_cleanup_ok [OF assms(1), of ks now] assms(2) by auto
next
  case (OpCleanIPs ks now)
  then show ?thesis using ipCache_cleanup_ok [OF assms(1), of ks now] assms(2) by auto
qed

lemma fops_ok:
  assumes "fake_inv R r" "list_all fop_ok xs"
  shows "fake_inv R (fold (fop_step L) xs r) \<and> same_net r (fold (fop_step L) xs r)"
  using assms
proof (induction xs arbitrary: r)
  case (Cons x xs)
  then show ?case using fop_step_ok [OF Cons.prems(1), of x L] by (auto intro: same_net_trans)
qed (simp add: same_net_def)

section \<open>Properties\<close>

text \<open>
  C5. Whatever sequence of queries, lookups by address and cleanups a new resolver serves, the addresses
  of its live records are pairwise different and different from the addresses of the TUN device and the
  DNS server, and the pool has no other address marked as used: no fake address is shared and none leaks.
\<close>

theorem fake_ips_unique_and_accounted:
  assumes "length b = 4" "n \<le> 32" "newFakeIPResolver (Addr4 b, n) = Ret r0" "list_all fop_ok xs"
  shows "let r = fold (fop_step L) xs r0; ips = rec_ips (abs_cache (hcache r));
             R = {fst (GetAllocatedTunPrefix r), GetAllocatedDnsIP r} in
    distinct ips \<and> set ips \<inter> R = {} \<and> used (pool r) = R \<union> set ips \<and> used (pool r) \<subseteq> slots (pool r0)"
proof -
  note i = newFakeIPResolver_inv [OF assms(1-3)]
  from fops_ok [OF i(1) assms(4), of L] i(2) used_slots [of "pool (fold (fop_step L) xs r0)"] show ?thesis
    by (auto simp: Let_def fake_inv_def recs_ok_def ippool.holds_def same_net_def GetAllocatedTunPrefix_def GetAllocatedDnsIP_def)
qed

lemma newFakeIPResolver_Ret:
  assumes "length b = 4" "n \<le> 30"
  shows "\<exists>r. newFakeIPResolver (Addr4 b, n) = Ret r"
proof -
  have n: "n \<le> 32" using assms(2) by simp
  obtain p0 where p0: "newIPPool (Addr4 b, n) = Ret p0"
    using prefix_mask_full [OF n] assms(2) by (simp add: newIPPool_def Let_def split: prod.splits)
  note sp = newIPPool_spec [OF n p0]
  have c: "1 < card (slots p0)" using card_slots [of p0] sp by (auto simp: pool_inv_def unat_gt_0)
  then have "used p0 \<noteq> slots p0" using sp by auto
  then obtain tun p1 where p1: "allocateFor (Addr4 b) p0 = Ret (Some tun, p1)" "pool_inv p1" "slots p1 = slots p0" "tun \<in> slots p0" "used p1 = {tun}"
    using allocateFor_spec [of p0 "word_of_octets b"] sp by (auto simp: intToIP_octets [OF assms(1)])
  obtain v where v: "tun = intToIP v" using p1(4) by (auto simp: slots_def)
  have "unat v \<le> unat (hmax p0)" using slots_iff [of p0 v] p1(4) v sp by (simp add: word_le_nat_alt)
  moreover have "unat (hmax p0) + 1 < 2 ^ 32"
    using sp prefix_base_last [OF n, of "word_of_octets b"] assms(2) by simp
  ultimately have "v \<noteq> - 1" by (auto simp: unsigned_minus_1_eq_mask mask_eq_exp_minus_1)
  moreover have "used p1 \<noteq> slots p1"
  proof
    assume "used p1 = slots p1"
    then have "card (slots p0) = card {tun}" using p1(3,5) by metis
    then show False using c by simp
  qed
  ultimately show ?thesis using allocateFor_spec [OF p1(2), of "v + 1"] p0 p1(1)
    by (auto simp: newFakeIPResolver_def v addr_Next_intToIP)
qed

lemma newFakeIPResolver_run:
  assumes "length b = 4" "n \<le> 32" "newFakeIPResolver (Addr4 b, n) = Ret r0" "list_all fop_ok xs"
  shows "fake_inv {fst (tunPrefix r0), dnsIP r0} (fold (fop_step L) xs r0)"
  using fops_ok [OF newFakeIPResolver_inv(1) [OF assms(1-3)] assms(4)] by simp

text \<open>Right after its record was made, an address leads back to the record.\<close>

lemma FindByIP_new:
  assumes "fake_inv R r" "map_of (abs_cache (hcache r)) (Domain rec) = Some (rec, t)" "map_of (abs_cache (ipCache r)) ip = Some (rec, t)" "now < t"
  shows "\<exists>r'. FindByIP now ip r = (Ret rec, r')"
proof -
  obtain g1 e1 c1 where g1: "cache_Get now ip (ipCache r) = (g1, e1, c1)" by (metis prod_cases3)
  obtain g2 e2 c2 where g2: "cache_Get now (Domain rec) (hcache r) = (g2, e2, c2)" by (metis prod_cases3)
  have "g1 = Ret rec" "g2 = Ret rec" "e2 = []"
    using Get_refines(3) [OF _ g1] Get_refines(3) [OF _ g2] assms by (auto simp: fake_inv_def a_Get_def)
  then show ?thesis using g1 g2 by (simp add: FindByIP_def find_def on_hcache_def)
qed

text \<open>A query for a host without a live record makes a record with a free address, or every address is taken.\<close>

lemma fake_query_new:
  assumes "fake_inv R r0" "Question req = q # qs" "find now (TrimDomain (qname q)) r0 = (Err e, r)" "fake_query L now req r0 = (res, r')"
  shows "fake_inv R r' \<and> same_net r r' \<and> (case res of
      Ret m \<Rightarrow> \<exists>rec. FakeIP rec \<in> slots (pool r) - used (pool r) \<and> Domain rec = TrimDomain (qname q)
        \<and> m = fake_reply L (TrimDomain (qname q)) (FakeIP rec) req
        \<and> (\<forall>now'. now' < now + DefaultFakeIPDnsRecordTTL \<longrightarrow> (\<exists>r''. FindByIP now' (FakeIP rec) r' = (Ret rec, r'')))
    | Err e \<Rightarrow> e = ErrNoAvailableFakeIP \<and> used (pool r) = slots (pool r)
    | Panic \<Rightarrow> False)"
proof -
  let ?host = "TrimDomain (qname q)"
  note fo = find_ok [OF assms(1,3)]
  then have inv: "fake_inv R r" and none: "map_of (abs_cache (hcache r)) ?host = None" by simp_all
  have u: "used (pool r) = R \<union> set (rec_ips (abs_cache (hcache r)))" using inv by (simp add: fake_inv_def recs_ok_def ippool.holds_def)
  obtain mr r2 where mk: "makeNewFakeDnsRecord L now ?host req r = (mr, r2)" by fastforce
  note mo = makeNew_ok [OF inv none mk]
  show ?thesis
  proof (cases mr)
    case (Ret rec)
    then have res: "res = Ret (Reply rec)" "r' = r2" using assms(2-4) mk by (auto simp: fake_query_def req_name_def Let_def)
    have "\<exists>r''. FindByIP now' (FakeIP rec) r2 = (Ret rec, r'')" if "now' < now + DefaultFakeIPDnsRecordTTL" for now'
      using mo Ret that by (intro FindByIP_new [where R = R]) auto
    then show ?thesis using mo Ret res u by auto
  next
    case (Err e')
    then show ?thesis using mo u assms(2-4) mk by (auto simp: fake_query_def req_name_def Let_def)
  qed (use mo in auto)
qed

lemma IsFakeIP_slot:
  assumes "fake_inv R r" "ip \<in> slots (pool r)"
  shows "IsFakeIP r ip = Ret True"
proof -
  have p: "pool_inv (pool r)" using assms(1) by (simp add: fake_inv_def recs_ok_def ippool.holds_def)
  obtain i where i: "ip = intToIP (hmin (pool r) + word_of_nat i)" "i < length (flags (pool r))" using assms(2) by (auto simp: slots_def)
  then show ?thesis using index_slot [OF p i(2)] by (simp add: IsFakeIP_def Contains_def)
qed

text \<open>
  C14. A query for a host without a live record answers with a fresh address, neither reserved nor held
  by another host, in a single A record; it fails only when every address of the pool is taken. Until
  the entry expires, a lookup by that address right after the query leads back to the host.
\<close>

theorem fake_ip_leads_back_to_host:
  assumes "length b = 4" "n \<le> 32" "newFakeIPResolver (Addr4 b, n) = Ret r0" "list_all fop_ok xs" "reply_laws L"
    and "Question req = q # qs" "find now (TrimDomain (qname q)) (fold (fop_step L) xs r0) = (Err e, r)"
    and "fake_query L now req (fold (fop_step L) xs r0) = (res, r')" "now' < now + DefaultFakeIPDnsRecordTTL"
  shows "case res of
      Ret m \<Rightarrow> \<exists>rec r''. FakeIP rec \<in> slots (pool r) - used (pool r) \<and> Domain rec = TrimDomain (qname q)
        \<and> Answer m = [RR_A (Fqdn L (TrimDomain (qname q))) 60 (asSlice (FakeIP rec))]
        \<and> FindByIP now' (FakeIP rec) r' = (Ret rec, r'')
    | Err e \<Rightarrow> e = ErrNoAvailableFakeIP \<and> used (pool r) = slots (pool r)
    | Panic \<Rightarrow> False"
proof -
  have "Answer (fake_reply L h ip req) = [RR_A (Fqdn L h) 60 (asSlice ip)]" for h ip
    using assms(5) by (simp add: fake_reply_def reply_laws_def new_msg_def Let_def DefaultFakeIPDnsRecordTTL_def)
  then show ?thesis using fake_query_new [OF newFakeIPResolver_run [OF assms(1-4)] assms(6-8)] assms(9)
    by (auto split: go.splits)
qed

definition toy_dns :: "unit dnslib" where
  "toy_dns = \<lparr>zero_hdr = (), SetReply = (\<lambda>m r. m\<lparr>Question := take 1 (Question r)\<rparr>), Fqdn = (\<lambda>s. s @ ''.'')\<rparr>"

definition toy_req :: "string \<Rightarrow> unit msg" where
  "toy_req name = (new_msg toy_dns)\<lparr>Question := [\<lparr>qname = name, qtype = 1, qclass = 1\<rparr>]\<rparr>"

lemma toy_dns_laws: "reply_laws toy_dns"
  by (simp add: reply_laws_def toy_dns_def)

theorem fake_ips_unique_and_accounted_witness:
  "\<exists>r0. newFakeIPResolver (Addr4 [198, 18, 0, 1], 16) = Ret r0 \<and>
     distinct (rec_ips (abs_cache (hcache (fold (fop_step toy_dns)
       [OpQuery 0 (toy_req ''a.b.''), OpQuery 1 (toy_req ''c.d.''), OpCleanHosts [''a.b'', ''c.d''] 60000000000] r0))))"
proof -
  obtain r0 where r0: "newFakeIPResolver (Addr4 [198, 18, 0, 1], 16) = (Ret r0 :: unit fakeIPResolver go)"
    using newFakeIPResolver_Ret [of "[198, 18, 0, 1]" 16] by auto
  with fake_ips_unique_and_accounted [OF _ _ r0, of "[OpQuery 0 (toy_req ''a.b.''), OpQuery 1 (toy_req ''c.d.''), OpCleanHosts [''a.b'', ''c.d''] 60000000000]" toy_dns]
  show ?thesis by (auto simp: Let_def)
qed

theorem fake_ip_leads_back_to_host_witness:
  "\<exists>r0 res r'. newFakeIPResolver (Addr4 [198, 18, 0, 1], 16) = Ret r0 \<and> fake_query toy_dns 0 (toy_req ''a.b.'') r0 = (res, r')
     \<and> (\<forall>m. res = Ret m \<longrightarrow> (\<exists>rec r''. Domain rec = ''a.b'' \<and> Answer m = [RR_A ''a.b.'' 60 (asSlice (FakeIP rec))]
          \<and> FindByIP 59000000000 (FakeIP rec) r' = (Ret rec, r'')))"
proof -
  obtain r0 where r0: "newFakeIPResolver (Addr4 [198, 18, 0, 1], 16) = (Ret r0 :: unit fakeIPResolver go)"
    using newFakeIPResolver_Ret [of "[198, 18, 0, 1]" 16] by auto
  have inv: "cache_inv (hcache r0)" "abs_cache (hcache r0) = []"
    using newFakeIPResolver_inv [OF _ _ r0] by (auto simp: fake_inv_def)
  obtain g ev c where g: "cache_Get 0 ''a.b'' (hcache r0) = (g, ev, c)" by (metis prod_cases3)
  have "g = Err ErrCacheIsNotFound \<and> ev = []" using Get_refines(3) [OF inv(1) g] inv(2) by (simp add: a_Get_def)
  then have f: "find 0 ''a.b'' r0 = (Err ErrCacheIsNotFound, r0\<lparr>hcache := c, pool := pool r0\<rparr>)" using g by (simp add: find_def on_hcache_def)
  have t: "TrimDomain ''a.b.'' = ''a.b''" by (simp add: TrimDomain_def hasSuffix_def)
  obtain res r' where q: "fake_query toy_dns 0 (toy_req ''a.b.'') r0 = (res, r')" by fastforce
  from fake_ip_leads_back_to_host [OF _ _ r0 _ toy_dns_laws _ _ , of "[]" "toy_req ''a.b.''" "\<lparr>qname = ''a.b.'', qtype = 1, qclass = 1\<rparr>" "[]" 0 _ _ res r' 59000000000] f q t
  have "case res of Ret m \<Rightarrow> \<exists>rec r''. Domain rec = ''a.b'' \<and> Answer m = [RR_A ''a.b.'' 60 (asSlice (FakeIP rec))]
          \<and> FindByIP 59000000000 (FakeIP rec) r' = (Ret rec, r'') | _ \<Rightarrow> True"
    by (cases res) (auto simp: toy_req_def toy_dns_def new_msg_def DefaultFakeIPDnsRecordTTL_def)
  then show ?thesis using r0 q by (intro exI [of _ r0] exI [of _ res] exI [of _ r']) auto
qed

lemma newFakeIPResolver_card:
  assumes "n \<le> 30" "newFakeIPResolver (Addr4 b, n) = Ret r"
  shows "card (slots (pool r)) = 2 ^ (32 - n) - 2"
proof -
  obtain p0 where p0: "newIPPool (Addr4 b, n) = Ret p0" "slots (pool r) = slots p0"
    using assms(2) by (auto simp: newFakeIPResolver_def bind_go_eq_Ret split: option.splits dest!: allocateFor_slots)
  have n: "n \<le> 32" using assms(1) by simp
  show ?thesis using newIPPool_spec [OF n p0(1)] newIPPool_length [OF assms(1) p0(1)] card_slots [of p0] p0(2) by simp
qed

text \<open>The cache never holds enough records to exhaust a pool of more than 4098 addresses.\<close>

lemma pool_not_full:
  assumes "fake_inv {a, c} r" "4098 < card (slots (pool r))"
  shows "used (pool r) \<noteq> slots (pool r)"
proof
  assume f: "used (pool r) = slots (pool r)"
  have "used (pool r) = {a, c} \<union> set (rec_ips (abs_cache (hcache r)))" "length (rec_ips (abs_cache (hcache r))) \<le> 4096"
    using assms(1) by (simp_all add: fake_inv_def recs_ok_def ippool.holds_def rec_ips_def length_abs_cache)
  moreover have "card {a, c} \<le> 2" by (simp add: card_insert_if)
  ultimately have "card (used (pool r)) \<le> 4098"
    using card_Un_le [of "{a, c}" "set (rec_ips (abs_cache (hcache r)))"] card_length [of "rec_ips (abs_cache (hcache r))"] by simp
  with assms(2) f show False by simp
qed

text \<open>A record for a host that already has one: the older record is overwritten.\<close>

lemma makeNew_existing:
  assumes "fake_inv R r" "map_of (abs_cache (hcache r)) host \<noteq> None" "used (pool r) \<noteq> slots (pool r)"
  obtains rec r' where "makeNewFakeDnsRecord L now host req r = (Ret rec, r')" "Domain rec = host"
    "FakeIP rec \<notin> used (pool r)" "used (pool r') = insert (FakeIP rec) (used (pool r))"
    "abs_cache (hcache r') = a_remove host (abs_cache (hcache r)) @ [(host, rec, now + DefaultFakeIPDnsRecordTTL)]"
proof -
  have i: "cache_inv (hcache r)" "opts (hcache r) = fake_opts" "length (lru (hcache r)) \<le> 4096" and ro: "recs_ok R (abs_cache (hcache r)) (pool r)"
    and i2: "cache_inv (ipCache r)" "opts (ipCache r) = fake_opts" "length (lru (ipCache r)) \<le> 4096"
    using assms(1) by (simp_all add: fake_inv_def)
  have h: "ippool.holds R (rec_ips (abs_cache (hcache r))) (pool r)" and p: "pool_inv (pool r)" using ro by (simp_all add: recs_ok_def ippool.holds_def)
  obtain ip p' where al: "Allocate host (pool r) = Ret (ip, p')" "ip \<in> slots (pool r) - used (pool r)" "used p' = insert ip (used (pool r))"
    using ippool.alloc_free [OF p assms(3)] by blast
  then have v: "IsValid ip" by (auto simp: slots_def intToIP_def IsValid_def)
  define rec where "rec = \<lparr>Domain = host, FakeIP = ip, Query = req, Reply = fake_reply L host ip req\<rparr>"
  obtain sr ev c where s: "cache_Set now host rec (hcache r) = (sr, ev, c)" by (metis prod_cases3)
  note sk = Set_keeps [OF i s]
  have st: "ev = []" "abs_cache c = a_remove host (abs_cache (hcache r)) @ [(host, rec, now + DefaultFakeIPDnsRecordTTL)]"
    using sk assms(2) by (auto simp: a_Set_def Let_def fake_opts_def)
  obtain sr2 ev2 c2 where s2: "cache_Set now ip rec (ipCache r) = (sr2, ev2, c2)" by (metis prod_cases3)
  note sk2 = Set_keeps [OF i2 s2]
  have "makeNewFakeDnsRecord L now host req r = (Ret rec, r\<lparr>pool := p', hcache := c, ipCache := c2\<rparr>)"
    using al(1) v s s2 sk sk2 st(1) by (simp add: makeNewFakeDnsRecord_def rec_def [symmetric] Let_def bindP_apply on_hcache_def)
  then show ?thesis using that al(2,3) st(2) by (simp add: rec_def)
qed

text \<open>
  When two queries for one host both miss the cache before either has stored its record, the second
  record replaces the first without the evict callback, so that the first address stays marked as used
  although no record holds it any more: it is never given back.
\<close>

theorem overlapping_queries_leak_address:
  assumes "fake_inv R r" "map_of (abs_cache (hcache r)) host = None"
    and "makeNewFakeDnsRecord L now host req r = (Ret rec1, r1)" "used (pool r1) \<noteq> slots (pool r1)"
  shows "\<exists>rec2 r2. makeNewFakeDnsRecord L now host req' r1 = (Ret rec2, r2)
    \<and> FakeIP rec1 \<in> used (pool r2) - R \<and> FakeIP rec1 \<notin> set (rec_ips (abs_cache (hcache r2)))"
proof -
  have m1: "fake_inv R r1" "map_of (abs_cache (hcache r1)) host = Some (rec1, now + DefaultFakeIPDnsRecordTTL)" "FakeIP rec1 \<notin> R"
    using makeNew_ok [OF assms(1-3)] by auto
  let ?l = "abs_cache (hcache r1)"
  have h: "ippool.holds R (rec_ips ?l) (pool r1)" using m1(1) by (simp add: fake_inv_def recs_ok_def)
  obtain rec2 r2 where r2: "makeNewFakeDnsRecord L now host req' r1 = (Ret rec2, r2)" "FakeIP rec2 \<notin> used (pool r1)"
    "used (pool r2) = insert (FakeIP rec2) (used (pool r1))"
    "abs_cache (hcache r2) = a_remove host ?l @ [(host, rec2, now + DefaultFakeIPDnsRecordTTL)]"
    using makeNew_existing [OF m1(1) _ assms(4)] m1(2) by (metis option.distinct(1))
  have mem: "(host, rec1, now + DefaultFakeIPDnsRecordTTL) \<in> set ?l" using m1(2) by (rule map_of_SomeD)
  then have in1: "FakeIP rec1 \<in> used (pool r1)" using h by (force simp: rec_ips_def ippool.holds_def)
  have "FakeIP rec1 \<notin> set (rec_ips (a_remove host ?l))"
  proof
    assume "FakeIP rec1 \<in> set (rec_ips (a_remove host ?l))"
    then obtain k r3 t where k: "(k, r3, t) \<in> set ?l" "k \<noteq> host" "FakeIP r3 = FakeIP rec1" by (auto simp: rec_ips_def a_remove_def)
    have "inj_on (\<lambda>(k, rec, t). FakeIP rec) (set ?l)" using h by (simp add: ippool.holds_def rec_ips_def distinct_map)
    from inj_onD [OF this _ k(1) mem] k show False by simp
  qed
  then show ?thesis using r2 in1 m1(3) by (auto simp: rec_ips_def)
qed

theorem overlapping_queries_leak_address_witness:
  "\<exists>r0 rec1 r1 rec2 r2. newFakeIPResolver (Addr4 [198, 18, 0, 1], 16) = Ret r0
    \<and> makeNewFakeDnsRecord toy_dns 0 ''a.b'' (toy_req ''a.b.'') r0 = (Ret rec1, r1)
    \<and> makeNewFakeDnsRecord toy_dns 0 ''a.b'' (toy_req ''a.b.'') r1 = (Ret rec2, r2)
    \<and> FakeIP rec1 \<in> used (pool r2) \<and> FakeIP rec1 \<notin> set (rec_ips (abs_cache (hcache r2)))"
proof -
  obtain r0 where r0: "newFakeIPResolver (Addr4 [198, 18, 0, 1], 16) = (Ret r0 :: unit fakeIPResolver go)"
    using newFakeIPResolver_Ret [of "[198, 18, 0, 1]" 16] by auto
  let ?R = "{fst (tunPrefix r0), dnsIP r0}"
  have inv: "fake_inv ?R r0" "map_of (abs_cache (hcache r0)) ''a.b'' = None" using newFakeIPResolver_inv [OF _ _ r0] by auto
  have c: "4098 < card (slots (pool r0))" using newFakeIPResolver_card [OF _ r0] by simp
  obtain mr r1 where mk: "makeNewFakeDnsRecord toy_dns 0 ''a.b'' (toy_req ''a.b.'') r0 = (mr, r1)" by fastforce
  note mo = makeNew_ok [OF inv mk]
  have "used (pool r0) = ?R \<union> set (rec_ips (abs_cache (hcache r0)))" using inv(1) by (simp add: fake_inv_def recs_ok_def ippool.holds_def)
  then obtain rec1 where rec1: "mr = Ret rec1" using mo pool_not_full [OF inv(1) c] by (cases mr) auto
  have "used (pool r1) \<noteq> slots (pool r1)" using mo c by (intro pool_not_full) (auto simp: same_net_def)
  from overlapping_queries_leak_address [OF inv mk [unfolded rec1] this] show ?thesis using r0 mk rec1 by blast
qed

text \<open>
  With a prefix of at most 19 bits, which leaves more addresses than the cache holds records, every
  query for an IPv4 address is answered, whatever was queried before.
\<close>

theorem large_pool_always_answers:
  assumes "length b = 4" "n \<le> 19" "newFakeIPResolver (Addr4 b, n) = Ret r0" "list_all fop_ok xs" "Question req \<noteq> []"
  shows "\<exists>m r. fake_query L now req (fold (fop_step L) xs r0) = (Ret m, r)"
proof -
  let ?r = "fold (fop_step L) xs r0" and ?R = "{fst (tunPrefix r0), dnsIP r0}"
  have n: "n \<le> 32" using assms(2) by simp
  note fr = fops_ok [OF newFakeIPResolver_inv(1) [OF assms(1) n assms(3)] assms(4), of L]
  have c: "4098 < card (slots (pool ?r))"
  proof -
    have "(2 :: nat) ^ 13 \<le> 2 ^ (32 - n)" using assms(2) by (intro power_increasing) auto
    then show ?thesis using fr newFakeIPResolver_card [OF _ assms(3)] assms(2) by (simp add: same_net_def)
  qed
  obtain q qs where q: "Question req = q # qs" using assms(5) by (cases "Question req") auto
  obtain f r1 where f: "find now (TrimDomain (qname q)) ?r = (f, r1)" by fastforce
  have inv: "fake_inv ?R ?r" using fr by simp
  note fo = find_ok [OF inv f]
  show ?thesis
  proof (cases f)
    case (Err e)
    obtain mr r2 where mk: "makeNewFakeDnsRecord L now (TrimDomain (qname q)) req r1 = (mr, r2)" by fastforce
    have i1: "fake_inv ?R r1" "map_of (abs_cache (hcache r1)) (TrimDomain (qname q)) = None" using fo Err by simp_all
    have "used (pool r1) = ?R \<union> set (rec_ips (abs_cache (hcache r1)))" using i1(1) by (simp add: fake_inv_def recs_ok_def ippool.holds_def)
    moreover have "used (pool r1) \<noteq> slots (pool r1)" using fo c by (intro pool_not_full [OF i1(1)]) (simp add: same_net_def)
    ultimately obtain rec where "mr = Ret rec" using makeNew_ok [OF i1 mk] by (cases mr) auto
    then show ?thesis using q f Err mk by (simp add: fake_query_def req_name_def Let_def)
  qed (use q f fo in \<open>auto simp: fake_query_def req_name_def Let_def\<close>)
qed

theorem large_pool_always_answers_witness:
  "\<exists>r0 m r. newFakeIPResolver (Addr4 [198, 18, 0, 1], 16) = Ret r0 \<and> fake_query toy_dns 7 (toy_req ''c.d.'')
     (fold (fop_step toy_dns) [OpQuery 0 (toy_req ''a.b.''), OpFindByIP 5 (Addr4 [198, 18, 0, 2])] r0) = (Ret m, r)"
proof -
  obtain r0 where r0: "newFakeIPResolver (Addr4 [198, 18, 0, 1], 16) = (Ret r0 :: unit fakeIPResolver go)"
    using newFakeIPResolver_Ret [of "[198, 18, 0, 1]" 16] by auto
  from large_pool_always_answers [OF _ _ r0, of "[OpQuery 0 (toy_req ''a.b.''), OpFindByIP 5 (Addr4 [198, 18, 0, 2])]" "toy_req ''c.d.''" toy_dns 7] r0
  show ?thesis by (simp add: toy_req_def)
qed

end
