(* ===== verification/Options.thy ===== *)
theory Options
  imports Rule
begin

text \<open>
  \<open>options/option.go\<close>, \<open>ss/option.go\<close> and the authentication data of \<open>ss/auth.go\<close>. An option is a
  function on the options under construction; some also write package variables, which form the record
  \<open>globals\<close>. Indexing an empty server list and a failing type assertion panic.
\<close>

section \<open>Transport options (options/option.go)\<close>

datatype TlsMode = TlsNone | TLS | MTLS

record TlsOptions =
  Mode :: TlsMode
  CAFile :: string
  KeyFile :: string
  CertFile :: string
  Hostname :: string

definition zero_tls :: TlsOptions where
  "zero_tls = \<lparr>Mode = TlsNone, CAFile = [], KeyFile = [], CertFile = [], Hostname = []\<rparr>"

record defaultOptions =
  OutboundInterface :: string
  AutoDetectInterface :: bool

record WsOptions =
  ws_tls :: TlsOptions
  ws_Host :: string
  ws_Path :: string
  ws_SndBuffer :: int
  ws_RevBuffer :: int
  ws_Compress :: bool
  ws_UserAgent :: string

record ObfsOptions =
  obfs_Host :: string

record QuicOptions =
  quic_tls :: TlsOptions
  HandshakeIdleTimeout :: int
  KeepAlivePeriod :: int
  MaxIdleTimeout :: int
  Conns :: int

record GrpcOptions =
  grpc_tls :: TlsOptions
  grpc_SndBuffer :: int
  grpc_RevBuffer :: int

record SshOptions =
  ssh_User :: string
  ssh_Password :: string
  ssh_PrivateKey :: string
  ssh_PublicKey :: string
  ssh_AuthorizedKey :: string

text \<open>The interface \<open>Options\<close>: nil or a pointer to one of the implementations.\<close>

datatype Options =
    NoOptions
  | OptDefault defaultOptions
  | OptWs WsOptions
  | OptObfs ObfsOptions
  | OptQuic QuicOptions
  | OptGrpc GrpcOptions
  | OptSsh SshOptions

definition second :: int where
  "second = 1000000000"

definition DefaultQuicOptions :: QuicOptions where
  "DefaultQuicOptions = \<lparr>quic_tls = zero_tls, HandshakeIdleTimeout = 5 * second, KeepAlivePeriod = 30 * second,
     MaxIdleTimeout = 30 * second, Conns = 3\<rparr>"

definition DefaultWsOptions :: WsOptions where
  "DefaultWsOptions = \<lparr>ws_tls = zero_tls, ws_Host = ''www.baidu.com'', ws_Path = ''/ws'', ws_SndBuffer = 4096,
     ws_RevBuffer = 4096, ws_Compress = False,
     ws_UserAgent = ''Mozilla/5.0 (Macintosh; Intel Mac OS X 10_15_7) AppleWebKit/537.36 (KHTML, like Gecko) Chrome/106.0.0.0 Safari/537.36''\<rparr>"

definition DefaultObfsOptions :: ObfsOptions where
  "DefaultObfsOptions = \<lparr>obfs_Host = ''www.baidu.com''\<rparr>"

definition DefaultGrpcOptions :: GrpcOptions where
  "DefaultGrpcOptions = \<lparr>grpc_tls = zero_tls, grpc_SndBuffer = 0, grpc_RevBuffer = 0\<rparr>"

definition DefaultSshOptions :: SshOptions where
  "DefaultSshOptions = \<lparr>ssh_User = [], ssh_Password = [], ssh_PrivateKey = [], ssh_PublicKey = [], ssh_AuthorizedKey = []\<rparr>"

section \<open>Authentication data (ss/auth.go)\<close>

text \<open>\<open>url.Userinfo\<close>: a user name and perhaps a password.\<close>

type_synonym Userinfo = "string \<times> string option"

record Auth =
  auth_info :: Userinfo

definition NewAuth :: "string \<Rightarrow> string \<Rightarrow> Auth option" where
  "NewAuth username password =
     (if username = [] then None
      else if password \<noteq> [] then Some \<lparr>auth_info = (username, Some password)\<rparr>
      else Some \<lparr>auth_info = (username, None)\<rparr>)"

definition UserInfo :: "Auth option \<Rightarrow> Userinfo option" where
  "UserInfo a = (case a of None \<Rightarrow> None | Some x \<Rightarrow> Some (auth_info x))"

definition Username :: "Auth option \<Rightarrow> string go" where
  "Username a = (case a of None \<Rightarrow> Panic | Some x \<Rightarrow> Ret (fst (auth_info x)))"

definition Password :: "Auth option \<Rightarrow> string go" where
  "Password a = (case a of None \<Rightarrow> Panic | Some x \<Rightarrow> Ret (case snd (auth_info x) of Some p \<Rightarrow> p | None \<Rightarrow> []))"

definition Validate :: "Auth \<Rightarrow> string \<Rightarrow> string \<Rightarrow> bool" where
  "Validate a username password = (case snd (auth_info a) of
     Some p \<Rightarrow> username = fst (auth_info a) \<and> password = p
   | None \<Rightarrow> username = fst (auth_info a))"

section \<open>Options of the client and the server (ss/option.go)\<close>

datatype Type = Tcp | Quic | Websocket | Obfs | Grpc | Ssh

record ShadowsocksROption =
  Protocol :: string
  ProtocolParam :: string
  ssr_Obfs :: string
  ObfsParam :: string

record serverOptions =
  s_name :: string
  s_addr :: string
  s_cipher :: string
  s_password :: string
  s_transport :: Type
  s_udp :: bool
  s_opts :: Options
  s_ssr :: bool
  s_ssrOpt :: ShadowsocksROption

definition zero_server :: serverOptions where
  "zero_server = \<lparr>s_name = [], s_addr = [], s_cipher = [], s_password = [], s_transport = Tcp, s_udp = False,
     s_opts = NoOptions, s_ssr = False, s_ssrOpt = \<lparr>Protocol = [], ProtocolParam = [], ssr_Obfs = [], ObfsParam = []\<rparr>\<rparr>"

text \<open>The fields of \<open>tun.Options\<close> (a package outside the repository) that are set here.\<close>

record EnhancerConfig =
  Tun_Name :: string
  Inet4Address :: "(netaddr \<times> nat) list"
  Tun_MTU :: "32 word"
  AutoRoute :: bool
  FakeDNS :: string
  DisableRewrite :: bool
  DnsHijack :: "(netaddr \<times> nat) list"

record MimtOption =
  mitm_Enable :: bool
  mitm_Proxy :: string
  mitm_CaPath :: string
  mitm_KeyPath :: string
  mitm_Capacity :: int
  mitm_Interval :: int
  mitm_ExpireSecond :: int

record localOptions =
  socksAddr :: string
  httpAddr :: string
  mixedAddr :: string
  socksAuth :: "Auth option"
  httpAuth :: "Auth option"
  tcpTunAddr :: "string list list"
  systemProxy :: bool
  enableTun :: bool
  lookupHostsFile :: bool
  enhancerConfig :: EnhancerConfig
  mitmConfig :: MimtOption

definition zero_local :: localOptions where
  "zero_local = \<lparr>socksAddr = [], httpAddr = [], mixedAddr = [], socksAuth = None, httpAuth = None, tcpTunAddr = [],
     systemProxy = False, enableTun = False, lookupHostsFile = False,
     enhancerConfig = \<lparr>Tun_Name = [], Inet4Address = [], Tun_MTU = 0, AutoRoute = False, FakeDNS = [], DisableRewrite = False, DnsHijack = []\<rparr>,
     mitmConfig = \<lparr>mitm_Enable = False, mitm_Proxy = [], mitm_CaPath = [], mitm_KeyPath = [], mitm_Capacity = 0, mitm_Interval = 0, mitm_ExpireSecond = 0\<rparr>\<rparr>"

record ssOptions =
  serverOpts :: "serverOptions list"
  localOpts :: localOptions

text \<open>The package variables that options write.\<close>

record globals =
  DefaultOptions :: defaultOptions
  DefaultDomainFilter :: "string list"
  DefaultDnsNameservers :: "string list"
  MatchRuler :: "Ruler option"

type_synonym SSOption = "(ssOptions \<times> globals, unit) proc"

text \<open>Applying options in order.\<close>

fun applyTo :: "SSOption list \<Rightarrow> SSOption" where
  "applyTo [] = retP ()"
| "applyTo (opt # opts) = bindP opt (\<lambda>_. applyTo opts)"

text \<open>Changes of the first server, of its transport options, of the local options and of the variables.\<close>

definition on_server :: "(serverOptions \<Rightarrow> serverOptions go) \<Rightarrow> SSOption" where
  "on_server f s = (case s of (so, g) \<Rightarrow> (case serverOpts so of
     [] \<Rightarrow> (Panic, s)
   | x # xs \<Rightarrow> (case f x of Ret x' \<Rightarrow> (Ret (), (so\<lparr>serverOpts := x' # xs\<rparr>, g)) | Err e \<Rightarrow> (Err e, s) | Panic \<Rightarrow> (Panic, s))))"

definition set_server :: "(serverOptions \<Rightarrow> serverOptions) \<Rightarrow> SSOption" where
  "set_server f = on_server (\<lambda>x. Ret (f x))"

definition on_ws :: "(WsOptions \<Rightarrow> WsOptions) \<Rightarrow> SSOption" where
  "on_ws f = on_server (\<lambda>x. case s_opts x of OptWs o' \<Rightarrow> Ret (x\<lparr>s_opts := OptWs (f o')\<rparr>) | _ \<Rightarrow> Panic)"

definition on_obfs :: "(ObfsOptions \<Rightarrow> ObfsOptions) \<Rightarrow> SSOption" where
  "on_obfs f = on_server (\<lambda>x. case s_opts x of OptObfs o' \<Rightarrow> Ret (x\<lparr>s_opts := OptObfs (f o')\<rparr>) | _ \<Rightarrow> Panic)"

definition on_quic :: "(QuicOptions \<Rightarrow> QuicOptions) \<Rightarrow> SSOption" where
  "on_quic f = on_server (\<lambda>x. case s_opts x of OptQuic o' \<Rightarrow> Ret (x\<lparr>s_opts := OptQuic (f o')\<rparr>) | _ \<Rightarrow> Panic)"

definition on_grpc :: "(GrpcOptions \<Rightarrow> GrpcOptions) \<Rightarrow> SSOption" where
  "on_grpc f = on_server (\<lambda>x. case s_opts x of OptGrpc o' \<Rightarrow> Ret (x\<lparr>s_opts := OptGrpc (f o')\<rparr>) | _ \<Rightarrow> Panic)"

definition on_ssh :: "(SshOptions \<Rightarrow> SshOptions) \<Rightarrow> SSOption" where
  "on_ssh f = on_server (\<lambda>x. case s_opts x of OptSsh o' \<Rightarrow> Ret (x\<lparr>s_opts := OptSsh (f o')\<rparr>) | _ \<Rightarrow> Panic)"

definition on_local :: "(localOptions \<Rightarrow> localOptions) \<Rightarrow> SSOption" where
  "on_local f = (\<lambda>(so, g). (Ret (), (so\<lparr>localOpts := f (localOpts so)\<rparr>, g)))"

definition on_enhancer :: "(EnhancerConfig \<Rightarrow> EnhancerConfig) \<Rightarrow> SSOption" where
  "on_enhancer f = on_local (\<lambda>l. l\<lparr>enhancerConfig := f (enhancerConfig l)\<rparr>)"

definition on_mitm :: "(MimtOption \<Rightarrow> MimtOption) \<Rightarrow> SSOption" where
  "on_mitm f = on_local (\<lambda>l. l\<lparr>mitmConfig := f (mitmConfig l)\<rparr>)"

definition on_globals :: "(globals \<Rightarrow> globals) \<Rightarrow> SSOption" where
  "on_globals f = (\<lambda>(so, g). (Ret (), (so, f g)))"

lemmas option_defs = on_server_def set_server_def on_ws_def on_obfs_def on_quic_def on_grpc_def on_ssh_def
  on_local_def on_enhancer_def on_mitm_def on_globals_def

definition WithEnableTun :: "SSOption" where
  "WithEnableTun = on_local (\<lambda>x. x\<lparr>enableTun := True\<rparr>)"

definition WithTunName :: "string \<Rightarrow> SSOption" where
  "WithTunName name = on_enhancer (\<lambda>x. x\<lparr>Tun_Name := name\<rparr>)"

definition WithTunCIDR :: "string \<Rightarrow> SSOption" where
  "WithTunCIDR cidr = on_enhancer (\<lambda>x. case ParsePrefix cidr of Some prefix \<Rightarrow> x\<lparr>Inet4Address := [prefix]\<rparr> | None \<Rightarrow> x)"

definition WithTunMTU :: "32 word \<Rightarrow> SSOption" where
  "WithTunMTU mtu = on_enhancer (\<lambda>x. x\<lparr>Tun_MTU := mtu\<rparr>)"

definition WithTunAutoRoute :: "bool \<Rightarrow> SSOption" where
  "WithTunAutoRoute autoRoute = on_enhancer (\<lambda>x. x\<lparr>AutoRoute := autoRoute\<rparr>)"

text \<open>\<open>strings.ReplaceAll\<close> with a non-empty pattern, and \<open>netip.ParseAddrPort\<close>.\<close>

function (sequential) replaceAll :: "string \<Rightarrow> string \<Rightarrow> string \<Rightarrow> string" where
  "replaceAll pat new [] = []"
| "replaceAll pat new (c # s) = (if pat \<noteq> [] \<and> hasPrefix (c # s) pat
     then new @ replaceAll pat new (drop (length pat) (c # s)) else c # replaceAll pat new s)"
  by pat_completeness auto
termination by (relation "measure (\<lambda>(pat, new, s). length s)") auto

definition ParseAddrPort :: "string \<Rightarrow> (netaddr \<times> nat) option" where
  "ParseAddrPort s = (case last_index_chr (CHR '':'') s of
     None \<Rightarrow> None
   | Some i \<Rightarrow>
       (let ip = take i s; port = drop (i + 1) s;
            bracket = (ip \<noteq> [] \<and> hd ip = CHR ''['');
            inner = (if bracket then tl (butlast ip) else ip) in
        if ip = [] \<or> port = [] \<or> (bracket \<and> (length ip < 2 \<or> last ip \<noteq> CHR '']'')) then None
        else case parseUint 65535 port of
          (p, Some _) \<Rightarrow> None
        | (p, None) \<Rightarrow> (case netip_ParseAddr inner of
            Some (Addr4 b) \<Rightarrow> if bracket then None else Some (Addr4 b, p)
          | Some (Addr6 b z) \<Rightarrow> if bracket then Some (Addr6 b z, p) else None
          | _ \<Rightarrow> None)))"

text \<open>One address of the hijack list: \<open>None\<close> when the loop skips it.\<close>

definition hijack_addr :: "string \<Rightarrow> (netaddr \<times> nat) option" where
  "hijack_addr addr0 =
     (let addr1 = (if contains_sub addr0 ''any'' then replaceAll ''any'' ''0.0.0.0'' addr0 else addr0);
          (host, port1) = (case splitHostPort addr1 of Ret hp \<Rightarrow> hp | _ \<Rightarrow> ([], []));
          (addr, port) = (if host = [] \<or> port1 = [] then (joinHostPort addr1 ''53'', ''53'') else (addr1, port1)) in
      if port \<noteq> ''53'' then None else ParseAddrPort addr)"

definition WithTunDnsHijack :: "string list \<Rightarrow> SSOption" where
  "WithTunDnsHijack dns = on_enhancer (\<lambda>x. x\<lparr>DnsHijack := DnsHijack x @ List.map_filter hijack_addr dns\<rparr>)"

definition WithFakeDnsDomainFilter :: "string list \<Rightarrow> SSOption" where
  "WithFakeDnsDomainFilter domain = on_globals (\<lambda>g. g\<lparr>DefaultDomainFilter := domain\<rparr>)"

definition WithFakeDnsServer :: "string \<Rightarrow> SSOption" where
  "WithFakeDnsServer addr = on_enhancer (\<lambda>x. x\<lparr>FakeDNS := addr\<rparr>)"

definition WithFakeDnsDisableRewrite :: "bool \<Rightarrow> SSOption" where
  "WithFakeDnsDisableRewrite disable = on_enhancer (\<lambda>x. x\<lparr>DisableRewrite := disable\<rparr>)"

definition WithOutboundInterface :: "string \<Rightarrow> SSOption" where
  "WithOutboundInterface ifaceName = on_globals (\<lambda>g. g\<lparr>DefaultOptions := (DefaultOptions g)\<lparr>OutboundInterface := ifaceName\<rparr>\<rparr>)"

definition WithDefaultDnsNameservers :: "string list \<Rightarrow> SSOption" where
  "WithDefaultDnsNameservers ns = on_globals (\<lambda>g. if ns = [] then g else g\<lparr>DefaultDnsNameservers := ns\<rparr>)"

definition WithAutoDetectInterface :: "bool \<Rightarrow> SSOption" where
  "WithAutoDetectInterface enable = on_globals (\<lambda>g. g\<lparr>DefaultOptions := (DefaultOptions g)\<lparr>AutoDetectInterface := enable\<rparr>\<rparr>)"

text \<open>
  \<open>WithServerCompose\<close> applies its options when it is called, to fresh options with one server; the
  option it returns appends that server.
\<close>

definition WithServerCompose :: "SSOption list \<Rightarrow> (ssOptions \<times> globals, SSOption) proc" where
  "WithServerCompose opts s = (case applyTo opts (\<lparr>serverOpts = [zero_server], localOpts = zero_local\<rparr>, snd s) of
     (Ret _, (o', g)) \<Rightarrow> (Ret (\<lambda>(so, g'). (Ret (), (so\<lparr>serverOpts := serverOpts so @ serverOpts o'\<rparr>, g'))), (fst s, g))
   | (Err e, (_, g)) \<Rightarrow> (Err e, (fst s, g))
   | (Panic, (_, g)) \<Rightarrow> (Panic, (fst s, g)))"

definition WithServerName :: "string \<Rightarrow> SSOption" where
  "WithServerName name = set_server (\<lambda>x. x\<lparr>s_name := name\<rparr>)"

definition WithServerAddr :: "string \<Rightarrow> SSOption" where
  "WithServerAddr addr = set_server (\<lambda>x. x\<lparr>s_addr := addr\<rparr>)"

definition WithUDPRelay :: "bool \<Rightarrow> SSOption" where
  "WithUDPRelay enable = set_server (\<lambda>x. x\<lparr>s_udp := enable\<rparr>)"

definition WithEnableSSR :: "SSOption" where
  "WithEnableSSR = set_server (\<lambda>x. x\<lparr>s_ssr := True\<rparr>)"

definition WithSSRProtocol :: "string \<Rightarrow> SSOption" where
  "WithSSRProtocol name = set_server (\<lambda>x. x\<lparr>s_ssrOpt := (s_ssrOpt x)\<lparr>Protocol := name\<rparr>\<rparr>)"

definition WithSSRProtocolParam :: "string \<Rightarrow> SSOption" where
  "WithSSRProtocolParam param = set_server (\<lambda>x. x\<lparr>s_ssrOpt := (s_ssrOpt x)\<lparr>ProtocolParam := param\<rparr>\<rparr>)"

definition WithSSRObfs :: "string \<Rightarrow> SSOption" where
  "WithSSRObfs name = set_server (\<lambda>x. x\<lparr>s_ssrOpt := (s_ssrOpt x)\<lparr>ssr_Obfs := name\<rparr>\<rparr>)"

definition WithObfsParam :: "string \<Rightarrow> SSOption" where
  "WithObfsParam param = set_server (\<lambda>x. x\<lparr>s_ssrOpt := (s_ssrOpt x)\<lparr>ObfsParam := param\<rparr>\<rparr>)"

definition WithMethod :: "string \<Rightarrow> SSOption" where
  "WithMethod cipher = set_server (\<lambda>x. x\<lparr>s_cipher := cipher\<rparr>)"

definition WithPassword :: "string \<Rightarrow> SSOption" where
  "WithPassword password = set_server (\<lambda>x. x\<lparr>s_password := password\<rparr>)"

text \<open>The default transport copies the current package defaults.\<close>

definition WithDefaultTransport :: SSOption where
  "WithDefaultTransport s = set_server (\<lambda>x. x\<lparr>s_transport := Tcp, s_opts := OptDefault (DefaultOptions (snd s))\<rparr>) s"

definition WithRuler :: "Ruler option \<Rightarrow> SSOption" where
  "WithRuler ruler = on_globals (\<lambda>g. g\<lparr>MatchRuler := ruler\<rparr>)"

definition WithSystemProxy :: "SSOption" where
  "WithSystemProxy = on_local (\<lambda>x. x\<lparr>systemProxy := True\<rparr>)"

definition WithLookupHostsFile :: "SSOption" where
  "WithLookupHostsFile = on_local (\<lambda>x. x\<lparr>lookupHostsFile := True\<rparr>)"

definition WithSocksUserInfo :: "string \<Rightarrow> string \<Rightarrow> SSOption" where
  "WithSocksUserInfo username password = on_local (\<lambda>x. x\<lparr>socksAuth := NewAuth username password\<rparr>)"

definition WithSocksAddr :: "string \<Rightarrow> SSOption" where
  "WithSocksAddr addr = on_local (\<lambda>x. x\<lparr>socksAddr := addr\<rparr>)"

definition WithHttpAddr :: "string \<Rightarrow> SSOption" where
  "WithHttpAddr addr = on_local (\<lambda>x. x\<lparr>httpAddr := addr\<rparr>)"

definition WithHttpUserInfo :: "string \<Rightarrow> string \<Rightarrow> SSOption" where
  "WithHttpUserInfo username password = on_local (\<lambda>x. x\<lparr>httpAuth := NewAuth username password\<rparr>)"

definition WithMixedAddr :: "string \<Rightarrow> SSOption" where
  "WithMixedAddr addr = on_local (\<lambda>x. x\<lparr>mixedAddr := addr\<rparr>)"

definition WithTcpTunAddr :: "string list list \<Rightarrow> SSOption" where
  "WithTcpTunAddr addrs = on_local (\<lambda>x. x\<lparr>tcpTunAddr := addrs\<rparr>)"

definition WithMitm :: "bool \<Rightarrow> SSOption" where
  "WithMitm enable = on_mitm (\<lambda>x. x\<lparr>mitm_Enable := enable\<rparr>)"

definition WithMitmProxy :: "string \<Rightarrow> SSOption" where
  "WithMitmProxy proxy = on_mitm (\<lambda>x. x\<lparr>mitm_Proxy := proxy\<rparr>)"

definition WithMitmCAPath :: "string \<Rightarrow> SSOption" where
  "WithMitmCAPath caPath = on_mitm (\<lambda>x. x\<lparr>mitm_CaPath := caPath\<rparr>)"

definition WithMitmKeyPath :: "string \<Rightarrow> SSOption" where
  "WithMitmKeyPath keyPath = on_mitm (\<lambda>x. x\<lparr>mitm_KeyPath := keyPath\<rparr>)"

definition WithMitmFakeCertPool :: "int \<Rightarrow> int \<Rightarrow> int \<Rightarrow> SSOption" where
  "WithMitmFakeCertPool capacity interval expireSecond = on_mitm (\<lambda>x. x\<lparr>mitm_Capacity := capacity, mitm_Interval := interval, mitm_ExpireSecond := expireSecond\<rparr>)"

definition WithObfsTransport :: "SSOption" where
  "WithObfsTransport = set_server (\<lambda>x. x\<lparr>s_transport := Obfs, s_opts := OptObfs DefaultObfsOptions\<rparr>)"

definition WithObfsHost :: "string \<Rightarrow> SSOption" where
  "WithObfsHost host = on_obfs (\<lambda>x. x\<lparr>obfs_Host := host\<rparr>)"

definition WithQuicTransport :: "SSOption" where
  "WithQuicTransport = set_server (\<lambda>x. x\<lparr>s_transport := Quic, s_opts := OptQuic DefaultQuicOptions\<rparr>)"

definition WithQuicHandshakeIdleTimeout :: "int \<Rightarrow> SSOption" where
  "WithQuicHandshakeIdleTimeout timeout = on_quic (\<lambda>x. x\<lparr>HandshakeIdleTimeout := timeout\<rparr>)"

definition WithQuicKeepAlivePeriod :: "int \<Rightarrow> SSOption" where
  "WithQuicKeepAlivePeriod timeout = on_quic (\<lambda>x. x\<lparr>KeepAlivePeriod := timeout\<rparr>)"

definition WithQuicMaxIdleTimeout :: "int \<Rightarrow> SSOption" where
  "WithQuicMaxIdleTimeout timeout = on_quic (\<lambda>x. x\<lparr>MaxIdleTimeout := timeout\<rparr>)"

definition WithQuicConns :: "int \<Rightarrow> SSOption" where
  "WithQuicConns conns = (if conns \<le> 0 then retP () else on_quic (\<lambda>x. x\<lparr>Conns := conns\<rparr>))"

definition WithQuicTLS :: "TlsMode \<Rightarrow> SSOption" where
  "WithQuicTLS tlsMode = on_quic (\<lambda>x. x\<lparr>quic_tls := (quic_tls x)\<lparr>Mode := tlsMode\<rparr>\<rparr>)"

definition WithQuicHostname :: "string \<Rightarrow> SSOption" where
  "WithQuicHostname hostname = on_quic (\<lambda>x. x\<lparr>quic_tls := (quic_tls x)\<lparr>Hostname := hostname\<rparr>\<rparr>)"

definition WithQuicCertPath :: "string \<Rightarrow> SSOption" where
  "WithQuicCertPath certFile = on_quic (\<lambda>x. x\<lparr>quic_tls := (quic_tls x)\<lparr>CertFile := certFile\<rparr>\<rparr>)"

definition WithQuicKeyPath :: "string \<Rightarrow> SSOption" where
  "WithQuicKeyPath keyFile = on_quic (\<lambda>x. x\<lparr>quic_tls := (quic_tls x)\<lparr>KeyFile := keyFile\<rparr>\<rparr>)"

definition WithQuicCAPath :: "string \<Rightarrow> SSOption" where
  "WithQuicCAPath caFile = on_quic (\<lambda>x. x\<lparr>quic_tls := (quic_tls x)\<lparr>CAFile := caFile\<rparr>\<rparr>)"

definition WithWsTransport :: "SSOption" where
  "WithWsTransport = set_server (\<lambda>x. x\<lparr>s_transport := Websocket, s_opts := OptWs DefaultWsOptions\<rparr>)"

definition WithWsHost :: "string \<Rightarrow> SSOption" where
  "WithWsHost host = on_ws (\<lambda>x. x\<lparr>ws_Host := host\<rparr>)"

definition WithWsPath :: "string \<Rightarrow> SSOption" where
  "WithWsPath path = on_ws (\<lambda>x. x\<lparr>ws_Path := path\<rparr>)"

definition WithWsSndRevBuffer :: "int \<Rightarrow> int \<Rightarrow> SSOption" where
  "WithWsSndRevBuffer sndBuffer revBuffer = on_ws (\<lambda>x. x\<lparr>ws_SndBuffer := sndBuffer, ws_RevBuffer := revBuffer\<rparr>)"

definition WithWsCompress :: "SSOption" where
  "WithWsCompress = on_ws (\<lambda>x. x\<lparr>ws_Compress := True\<rparr>)"

definition WithWsUserAgent :: "string \<Rightarrow> SSOption" where
  "WithWsUserAgent userAgent = on_ws (\<lambda>x. x\<lparr>ws_UserAgent := userAgent\<rparr>)"

definition WithWsTLS :: "TlsMode \<Rightarrow> SSOption" where
  "WithWsTLS tlsMode = on_ws (\<lambda>x. x\<lparr>ws_tls := (ws_tls x)\<lparr>Mode := tlsMode\<rparr>\<rparr>)"

definition WithWsHostname :: "string \<Rightarrow> SSOption" where
  "WithWsHostname hostname = on_ws (\<lambda>x. x\<lparr>ws_tls := (ws_tls x)\<lparr>Hostname := hostname\<rparr>\<rparr>)"

definition WithWsCertPath :: "string \<Rightarrow> SSOption" where
  "WithWsCertPath certFile = on_ws (\<lambda>x. x\<lparr>ws_tls := (ws_tls x)\<lparr>CertFile := certFile\<rparr>\<rparr>)"

definition WithWsKeyPath :: "string \<Rightarrow> SSOption" where
  "WithWsKeyPath keyFile = on_ws (\<lambda>x. x\<lparr>ws_tls := (ws_tls x)\<lparr>KeyFile := keyFile\<rparr>\<rparr>)"

definition WithWsCAPath :: "string \<Rightarrow> SSOption" where
  "WithWsCAPath caFile = on_ws (\<lambda>x. x\<lparr>ws_tls := (ws_tls x)\<lparr>CAFile := caFile\<rparr>\<rparr>)"

definition WithGrpcTransport :: "SSOption" where
  "WithGrpcTransport = set_server (\<lambda>x. x\<lparr>s_transport := Grpc, s_opts := OptGrpc DefaultGrpcOptions\<rparr>)"

definition WithGrpcTLS :: "TlsMode \<Rightarrow> SSOption" where
  "WithGrpcTLS tlsMode = on_grpc (\<lambda>x. x\<lparr>grpc_tls := (grpc_tls x)\<lparr>Mode := tlsMode\<rparr>\<rparr>)"

definition WithGrpcHostname :: "string \<Rightarrow> SSOption" where
  "WithGrpcHostname hostname = on_grpc (\<lambda>x. x\<lparr>grpc_tls := (grpc_tls x)\<lparr>Hostname := hostname\<rparr>\<rparr>)"

definition WithGrpcCertPath :: "string \<Rightarrow> SSOption" where
  "WithGrpcCertPath certFile = on_grpc (\<lambda>x. x\<lparr>grpc_tls := (grpc_tls x)\<lparr>CertFile := certFile\<rparr>\<rparr>)"

definition WithGrpcKeyPath :: "string \<Rightarrow> SSOption" where
  "WithGrpcKeyPath keyFile = on_grpc (\<lambda>x. x\<lparr>grpc_tls := (grpc_tls x)\<lparr>KeyFile := keyFile\<rparr>\<rparr>)"

definition WithGrpcCAPath :: "string \<Rightarrow> SSOption" where
  "WithGrpcCAPath caFile = on_grpc (\<lambda>x. x\<lparr>grpc_tls := (grpc_tls x)\<lparr>CAFile := caFile\<rparr>\<rparr>)"

definition WithGrpcSndRevBuffer :: "int \<Rightarrow> int \<Rightarrow> SSOption" where
  "WithGrpcSndRevBuffer sndBuffer revBuffer = on_grpc (\<lambda>x. x\<lparr>grpc_SndBuffer := sndBuffer, grpc_RevBuffer := revBuffer\<rparr>)"

definition WithSshTransport :: "SSOption" where
  "WithSshTransport = set_server (\<lambda>x. x\<lparr>s_transport := Ssh, s_opts := OptSsh DefaultSshOptions\<rparr>)"

definition WithSshUser :: "string \<Rightarrow> SSOption" where
  "WithSshUser user = on_ssh (\<lambda>x. x\<lparr>ssh_User := user\<rparr>)"

definition WithSshPassword :: "string \<Rightarrow> SSOption" where
  "WithSshPassword password = on_ssh (\<lambda>x. x\<lparr>ssh_Password := password\<rparr>)"

definition WithSshPrivateKey :: "string \<Rightarrow> SSOption" where
  "WithSshPrivateKey key = on_ssh (\<lambda>x. x\<lparr>ssh_PrivateKey := key\<rparr>)"

definition WithSshPublicKey :: "string \<Rightarrow> SSOption" where
  "WithSshPublicKey key = on_ssh (\<lambda>x. x\<lparr>ssh_PublicKey := key\<rparr>)"

definition WithSshAuthorizedKey :: "string \<Rightarrow> SSOption" where
  "WithSshAuthorizedKey key = on_ssh (\<lambda>x. x\<lparr>ssh_AuthorizedKey := key\<rparr>)"

lemmas with_defs = WithEnableTun_def WithTunName_def WithTunCIDR_def WithTunMTU_def WithTunAutoRoute_def
  WithTunDnsHijack_def WithFakeDnsDomainFilter_def WithFakeDnsServer_def WithFakeDnsDisableRewrite_def
  WithOutboundInterface_def WithDefaultDnsNameservers_def WithAutoDetectInterface_def WithServerName_def
  WithServerAddr_def WithUDPRelay_def WithEnableSSR_def WithSSRProtocol_def WithSSRProtocolParam_def
  WithSSRObfs_def WithObfsParam_def WithMethod_def WithPassword_def WithDefaultTransport_def
  WithRuler_def WithSystemProxy_def WithLookupHostsFile_def WithSocksUserInfo_def WithSocksAddr_def
  WithHttpAddr_def WithHttpUserInfo_def WithMixedAddr_def WithTcpTunAddr_def WithMitm_def
  WithMitmProxy_def WithMitmCAPath_def WithMitmKeyPath_def WithMitmFakeCertPool_def WithObfsTransport_def
  WithObfsHost_def WithQuicTransport_def WithQuicHandshakeIdleTimeout_def WithQuicKeepAlivePeriod_def WithQuicMaxIdleTimeout_def
  WithQuicConns_def WithQuicTLS_def WithQuicHostname_def WithQuicCertPath_def WithQuicKeyPath_def
  WithQuicCAPath_def WithWsTransport_def WithWsHost_def WithWsPath_def WithWsSndRevBuffer_def
  WithWsCompress_def WithWsUserAgent_def WithWsTLS_def WithWsHostname_def WithWsCertPath_def
  WithWsKeyPath_def WithWsCAPath_def WithGrpcTransport_def WithGrpcTLS_def WithGrpcHostname_def
  WithGrpcCertPath_def WithGrpcKeyPath_def WithGrpcCAPath_def WithGrpcSndRevBuffer_def WithSshTransport_def
  WithSshUser_def WithSshPassword_def WithSshPrivateKey_def WithSshPublicKey_def WithSshAuthorizedKey_def

end
