(* ===== verification/Config.thy ===== *)
theory Config
  imports Options
begin

text \<open>
  \<open>config/config.go\<close>: the configuration file's data and the options and rules built from it. A pointer
  to an optional block is an option; following a missing one panics, as does \<open>logger.Fatal\<close>, which ends
  the program. Reading and unmarshalling the file is not modelled.
\<close>

section \<open>Data\<close>

record TlsOption =
  t_Mode :: string
  t_Hostname :: string
  t_KeyPath :: string
  t_CertPath :: string
  t_CAPath :: string

record WsOption =
  w_Path :: string
  w_Host :: string
  w_Compress :: bool
  w_TLS :: TlsOption

record ObfsOption =
  o_Host :: string

record QuicOption =
  q_Conns :: int
  q_KeepAlive :: int
  q_MaxIdleTimeout :: int
  q_HandshakeIdleTimeout :: int
  q_TLS :: TlsOption

record GrpcOption =
  g_SendBufferSize :: int
  g_RecvBufferSize :: int
  g_TLS :: TlsOption

record SshOption =
  h_User :: string
  h_Password :: string
  h_PrivateKey :: string
  h_PublicKey :: string
  h_AuthorizedKey :: string

record SSROption =
  r_Protocol :: string
  r_ProtocolParam :: string
  r_Obfs :: string
  r_ObfsParam :: string

record ServerConfig =
  Disable :: bool
  c_Type :: string
  c_Name :: string
  c_Addr :: string
  c_Password :: string
  c_Method :: string
  c_Transport :: string
  c_Udp :: bool
  c_Ws :: "WsOption option"
  c_Obfs :: "ObfsOption option"
  c_Quic :: "QuicOption option"
  c_Grpc :: "GrpcOption option"
  c_Ssh :: "SshOption option"
  c_SSR :: "SSROption option"

record TunOption =
  tun_Enable :: bool
  tun_Name :: string
  tun_Cidr :: string
  tun_Mtu :: int
  tun_AutoRoute :: bool
  tun_DnsHijack :: "string list"

record DnsOption =
  dns_Listen :: string
  dns_DomainFilter :: "string list"
  dns_Nameservers :: "string list"
  dns_DisableRewrite :: bool

record MitmFakeCertPool =
  p_Capacity :: int
  p_Interval :: int
  p_ExpireSecond :: int

record MitmOption =
  m_Enable :: bool
  m_Proxy :: string
  m_CAPath :: string
  m_KeyPath :: string
  m_FakeCertPool :: "MitmFakeCertPool option"

record LocalConfig =
  l_SocksAddr :: string
  l_HTTPAddr :: string
  l_SocksAuth :: string
  l_HTTPAuth :: string
  l_MixedAddr :: string
  l_TCPTunAddr :: "string list"
  l_SystemProxy :: bool
  l_LookupHostsFile :: bool
  l_Mitm :: "MitmOption option"
  l_Tun :: "TunOption option"
  l_DNS :: "DnsOption option"

text \<open>The five rule blocks have the same fields; the domain blocks have no \<open>resolve\<close>.\<close>

record DomainBlock =
  b_Proxy :: string
  b_Action :: string
  b_Value :: "string list"

record AddrBlock = DomainBlock +
  b_Resolve :: bool

record MatchConfig =
  Others :: string
  Domains :: "DomainBlock list"
  DomainKeywords :: "DomainBlock list"
  DomainSuffixs :: "DomainBlock list"
  GeoIPs :: "AddrBlock list"
  IPCidrs :: "AddrBlock list"

record Rules =
  ru_Mode :: string
  ru_DirectTo :: string
  ru_GlobalTo :: string
  ru_Match :: "MatchConfig option"

record Config =
  cfg_Server :: "ServerConfig list"
  cfg_Local :: "LocalConfig option"
  cfg_Iface :: string
  cfg_AutoDetectIface :: bool
  cfg_Rules :: "Rules option"

section \<open>Servers and rules\<close>

fun delete_first :: "string \<Rightarrow> ServerConfig list \<Rightarrow> ServerConfig list" where
  "delete_first name [] = []"
| "delete_first name (c # cs) = (if c_Name c = name then cs else c # delete_first name cs)"

definition DeleteServerConfig :: "string \<Rightarrow> Config \<Rightarrow> Config" where
  "DeleteServerConfig name cfg = cfg\<lparr>cfg_Server := delete_first name (cfg_Server cfg)\<rparr>"

definition domain_item :: "string \<Rightarrow> DomainBlock \<Rightarrow> RuleItem" where
  "domain_item ty r = \<lparr>ruleMode = Match, ruleType = ty, Proxy = b_Proxy r, Value = b_Value r, Resolve = False,
     Accept = (b_Action r = ''accept'')\<rparr>"

definition addr_item :: "string \<Rightarrow> AddrBlock \<Rightarrow> RuleItem" where
  "addr_item ty r = \<lparr>ruleMode = Match, ruleType = ty, Proxy = b_Proxy r, Value = b_Value r, Resolve = b_Resolve r,
     Accept = (b_Action r = ''accept'')\<rparr>"

definition other_item :: "MatchConfig \<Rightarrow> RuleItem" where
  "other_item m = \<lparr>ruleMode = Match, ruleType = RuleOthers, Proxy = Others m, Value = [], Resolve = False, Accept = True\<rparr>"

definition BuildRuler :: "Config \<Rightarrow> Ruler go" where
  "BuildRuler cfg = (case cfg_Rules cfg of
     None \<Rightarrow> NewRuler Direct [] [] []
   | Some ru \<Rightarrow>
       (let md = (if ru_Mode ru = ''global'' then Global else if ru_Mode ru = ''direct'' then Direct else Match) in
        if md = Global \<or> md = Direct then NewRuler md (ru_DirectTo ru) (ru_GlobalTo ru) []
        else case ru_Match ru of
          None \<Rightarrow> Panic
        | Some m \<Rightarrow> NewRuler md (ru_DirectTo ru) (ru_GlobalTo ru)
            [map (domain_item RuleDomain) (Domains m),
             map (domain_item RuleDomainKeyword) (DomainKeywords m),
             map (domain_item RuleDomainSuffix) (DomainSuffixs m),
             map (addr_item RuleGeoIP) (GeoIPs m),
             map (addr_item RuleIPCIDR) (IPCidrs m),
             [other_item m]]))"

text \<open>The options of one server; \<open>deref\<close> follows the pointer to a block.\<close>

definition deref :: "'a option \<Rightarrow> 'a go" where
  "deref p = (case p of None \<Rightarrow> Panic | Some x \<Rightarrow> Ret x)"

definition tls_mode :: "(TlsMode \<Rightarrow> SSOption) \<Rightarrow> string \<Rightarrow> SSOption list" where
  "tls_mode f m = (if m = ''tls'' then [f TLS] else if m = ''mtls'' then [f MTLS] else [])"

text \<open>\<open>time.Second*time.Duration(n)\<close> in 64 bits.\<close>

definition seconds :: "int \<Rightarrow> int" where
  "seconds n = sint (word_of_int (second * n) :: 64 word)"

definition transport_options :: "ServerConfig \<Rightarrow> SSOption list go" where
  "transport_options opt =
     (if c_Transport opt = ''ws'' then bind_go (deref (c_Ws opt)) (\<lambda>w. Ret (
        [WithWsTransport, WithWsHost (w_Host w), WithWsPath (w_Path w), WithWsCertPath (t_CertPath (w_TLS w)),
         WithWsKeyPath (t_KeyPath (w_TLS w)), WithWsCAPath (t_CAPath (w_TLS w)), WithWsHostname (t_Hostname (w_TLS w))]
        @ (if w_Compress w then [WithWsCompress] else []) @ tls_mode WithWsTLS (t_Mode (w_TLS w))))
      else if c_Transport opt = ''obfs'' then bind_go (deref (c_Obfs opt)) (\<lambda>x. Ret [WithObfsTransport, WithObfsHost (o_Host x)])
      else if c_Transport opt = ''quic'' then bind_go (deref (c_Quic opt)) (\<lambda>q. Ret (
        [WithQuicTransport, WithQuicConns (q_Conns q), WithQuicKeepAlivePeriod (seconds (q_KeepAlive q)),
         WithQuicMaxIdleTimeout (seconds (q_MaxIdleTimeout q)), WithQuicHandshakeIdleTimeout (seconds (q_HandshakeIdleTimeout q)),
         WithQuicCertPath (t_CertPath (q_TLS q)), WithQuicKeyPath (t_KeyPath (q_TLS q)), WithQuicCAPath (t_CAPath (q_TLS q)),
         WithQuicHostname (t_Hostname (q_TLS q))] @ tls_mode WithQuicTLS (t_Mode (q_TLS q))))
      else if c_Transport opt = ''grpc'' then bind_go (deref (c_Grpc opt)) (\<lambda>g. Ret (
        [WithGrpcTransport, WithGrpcSndRevBuffer (g_SendBufferSize g) (g_RecvBufferSize g), WithGrpcCertPath (t_CertPath (g_TLS g)),
         WithGrpcKeyPath (t_KeyPath (g_TLS g)), WithGrpcCAPath (t_CAPath (g_TLS g)), WithGrpcHostname (t_Hostname (g_TLS g))]
        @ tls_mode WithGrpcTLS (t_Mode (g_TLS g))))
      else if c_Transport opt = ''ssh'' then bind_go (deref (c_Ssh opt)) (\<lambda>h. Ret
        [WithSshTransport, WithSshUser (h_User h), WithSshPassword (h_Password h), WithSshPrivateKey (h_PrivateKey h),
         WithSshPublicKey (h_PublicKey h), WithSshAuthorizedKey (h_AuthorizedKey h)])
      else if c_Transport opt = ''default'' \<and> c_Type opt = ''ssr'' then bind_go (deref (c_SSR opt)) (\<lambda>r. Ret
        [WithEnableSSR, WithSSRProtocol (r_Protocol r), WithSSRProtocolParam (r_ProtocolParam r), WithSSRObfs (r_Obfs r),
         WithObfsParam (r_ObfsParam r)])
      else Ret [])"

definition server_options :: "ServerConfig \<Rightarrow> SSOption list go" where
  "server_options opt = bind_go (transport_options opt) (\<lambda>os. Ret (os @
     [WithServerName (c_Name opt), WithServerAddr (c_Addr opt), WithMethod (c_Method opt), WithPassword (c_Password opt),
      WithUDPRelay (c_Udp opt)]))"

fun build_servers :: "ServerConfig list \<Rightarrow> (ssOptions \<times> globals, SSOption list) proc" where
  "build_servers [] = retP []"
| "build_servers (opt # cs) =
     (if Disable opt then build_servers cs
      else bindP (liftP (server_options opt)) (\<lambda>os. bindP (WithServerCompose os) (\<lambda>c.
           bindP (build_servers cs) (\<lambda>rest. retP (c # rest)))))"

definition BuildServerOptions :: "Config \<Rightarrow> (ssOptions \<times> globals, SSOption list) proc" where
  "BuildServerOptions cfg = bindP (build_servers (cfg_Server cfg)) (\<lambda>res.
     retP (res @ [WithOutboundInterface (cfg_Iface cfg), WithAutoDetectInterface (cfg_AutoDetectIface cfg)]))"

section \<open>Local options\<close>

definition splitAuthInfo :: "string \<Rightarrow> string \<times> string" where
  "splitAuthInfo auth = (case cut_chr (CHR '':'') auth of (u, p, _) \<Rightarrow> (u, p))"

text \<open>The slice that \<open>BuildLocalOptions\<close> keeps: nil when the address is malformed, the error being dropped.\<close>

definition splitTunAddrInfo :: "string \<Rightarrow> (string list) go" where
  "splitTunAddrInfo addr = (case cut_chr (CHR ''='') addr of
     (l, r, found) \<Rightarrow> if found then Ret [l, r] else Err ErrTunAddrInvalid)"

definition tun_pair :: "string \<Rightarrow> string list" where
  "tun_pair addr = (case splitTunAddrInfo addr of Ret lr \<Rightarrow> lr | _ \<Rightarrow> [])"

definition listen_options :: "LocalConfig \<Rightarrow> SSOption list" where
  "listen_options l =
     (if l_MixedAddr l \<noteq> [] then
        [WithMixedAddr (l_MixedAddr l), case splitAuthInfo (l_HTTPAuth l) of (u, p) \<Rightarrow> WithHttpUserInfo u p,
         case splitAuthInfo (l_SocksAuth l) of (u, p) \<Rightarrow> WithSocksUserInfo u p]
      else (if l_SocksAddr l \<noteq> [] then
              [WithSocksAddr (l_SocksAddr l), case splitAuthInfo (l_SocksAuth l) of (u, p) \<Rightarrow> WithSocksUserInfo u p] else [])
         @ (if l_HTTPAddr l \<noteq> [] then
              [WithHttpAddr (l_HTTPAddr l), case splitAuthInfo (l_HTTPAuth l) of (u, p) \<Rightarrow> WithHttpUserInfo u p] else []))"

definition mitm_options :: "LocalConfig \<Rightarrow> SSOption list" where
  "mitm_options l = (case l_Mitm l of None \<Rightarrow> [] | Some m \<Rightarrow>
     if m_Enable m then
       [WithMitm (m_Enable m), WithMitmProxy (m_Proxy m), WithMitmCAPath (m_CAPath m), WithMitmKeyPath (m_KeyPath m)]
       @ (case m_FakeCertPool m of None \<Rightarrow> [] | Some p \<Rightarrow> [WithMitmFakeCertPool (p_Capacity p) (p_Interval p) (p_ExpireSecond p)])
     else [])"

definition tun_options :: "LocalConfig \<Rightarrow> SSOption list go" where
  "tun_options l = (case l_Tun l of None \<Rightarrow> Ret [] | Some t \<Rightarrow>
     if \<not> tun_Enable t then Ret []
     else if l_DNS l = None then Panic
     else Ret [WithEnableTun, WithTunName (tun_Name t), WithTunCIDR (tun_Cidr t), WithTunMTU (word_of_int (tun_Mtu t)),
       WithTunDnsHijack (tun_DnsHijack t), WithTunAutoRoute (tun_AutoRoute t)])"

definition dns_options :: "LocalConfig \<Rightarrow> SSOption list" where
  "dns_options l = (case l_DNS l of None \<Rightarrow> [] | Some d \<Rightarrow>
     [WithFakeDnsServer (dns_Listen d), WithFakeDnsDisableRewrite (dns_DisableRewrite d),
      WithFakeDnsDomainFilter (dns_DomainFilter d), WithDefaultDnsNameservers (dns_Nameservers d)])"

definition BuildLocalOptions :: "Config \<Rightarrow> SSOption list go" where
  "BuildLocalOptions cfg =
     bind_go (deref (cfg_Local cfg)) (\<lambda>l.
     bind_go (BuildRuler cfg) (\<lambda>ruler.
     bind_go (tun_options l) (\<lambda>tun.
     Ret (listen_options l @ [WithTcpTunAddr (map tun_pair (l_TCPTunAddr l)), WithRuler (Some ruler)]
          @ mitm_options l @ tun @ dns_options l
          @ (if l_SystemProxy l then [WithSystemProxy] else [])
          @ (if l_LookupHostsFile l then [WithLookupHostsFile] else [])))))"

definition BuildSSLocalOptions :: "Config \<Rightarrow> (ssOptions \<times> globals, SSOption list) proc" where
  "BuildSSLocalOptions cfg = bindP (BuildServerOptions cfg) (\<lambda>so. bindP (liftP (BuildLocalOptions cfg)) (\<lambda>lo. retP (so @ lo)))"

section \<open>What a server block means\<close>

definition tls_of :: "TlsOption \<Rightarrow> TlsOptions" where
  "tls_of t = \<lparr>Mode = (if t_Mode t = ''tls'' then TLS else if t_Mode t = ''mtls'' then MTLS else TlsNone),
     CAFile = t_CAPath t, KeyFile = t_KeyPath t, CertFile = t_CertPath t, Hostname = t_Hostname t\<rparr>"

text \<open>The transport and its options, with the package defaults for what the block does not set.\<close>

definition transport_of :: "ServerConfig \<Rightarrow> Type \<times> Options" where
  "transport_of c = (case (c_Transport c, c_Ws c, c_Obfs c, c_Quic c, c_Grpc c, c_Ssh c) of (tr, w, ob, q, g, h) \<Rightarrow>
     if tr = ''ws'' \<and> w \<noteq> None then (Websocket, OptWs \<lparr>ws_tls = tls_of (w_TLS (the w)), ws_Host = w_Host (the w),
       ws_Path = w_Path (the w), ws_SndBuffer = 4096, ws_RevBuffer = 4096, ws_Compress = w_Compress (the w),
       ws_UserAgent = ws_UserAgent DefaultWsOptions\<rparr>)
     else if tr = ''obfs'' \<and> ob \<noteq> None then (Obfs, OptObfs \<lparr>obfs_Host = o_Host (the ob)\<rparr>)
     else if tr = ''quic'' \<and> q \<noteq> None then (Quic, OptQuic \<lparr>quic_tls = tls_of (q_TLS (the q)),
       HandshakeIdleTimeout = seconds (q_HandshakeIdleTimeout (the q)), KeepAlivePeriod = seconds (q_KeepAlive (the q)),
       MaxIdleTimeout = seconds (q_MaxIdleTimeout (the q)), Conns = (if q_Conns (the q) \<le> 0 then 3 else q_Conns (the q))\<rparr>)
     else if tr = ''grpc'' \<and> g \<noteq> None then (Grpc, OptGrpc \<lparr>grpc_tls = tls_of (g_TLS (the g)),
       grpc_SndBuffer = g_SendBufferSize (the g), grpc_RevBuffer = g_RecvBufferSize (the g)\<rparr>)
     else if tr = ''ssh'' \<and> h \<noteq> None then (Ssh, OptSsh \<lparr>ssh_User = h_User (the h), ssh_Password = h_Password (the h),
       ssh_PrivateKey = h_PrivateKey (the h), ssh_PublicKey = h_PublicKey (the h), ssh_AuthorizedKey = h_AuthorizedKey (the h)\<rparr>)
     else (Tcp, NoOptions))"

definition ssr_of :: "ServerConfig \<Rightarrow> ShadowsocksROption option" where
  "ssr_of c = (if c_Transport c = ''default'' \<and> c_Type c = ''ssr'' then map_option (\<lambda>r. \<lparr>Protocol = r_Protocol r,
     ProtocolParam = r_ProtocolParam r, ssr_Obfs = r_Obfs r, ObfsParam = r_ObfsParam r\<rparr>) (c_SSR c) else None)"

definition server_of :: "ServerConfig \<Rightarrow> serverOptions" where
  "server_of c = \<lparr>s_name = c_Name c, s_addr = c_Addr c, s_cipher = c_Method c, s_password = c_Password c,
     s_transport = fst (transport_of c), s_udp = c_Udp c, s_opts = snd (transport_of c), s_ssr = (ssr_of c \<noteq> None),
     s_ssrOpt = (case ssr_of c of Some r \<Rightarrow> r | None \<Rightarrow> s_ssrOpt zero_server)\<rparr>"

text \<open>The block of the chosen transport is present.\<close>

definition server_ok :: "ServerConfig \<Rightarrow> bool" where
  "server_ok c \<longleftrightarrow> (c_Transport c = ''ws'' \<longrightarrow> c_Ws c \<noteq> None) \<and> (c_Transport c = ''obfs'' \<longrightarrow> c_Obfs c \<noteq> None)
     \<and> (c_Transport c = ''quic'' \<longrightarrow> c_Quic c \<noteq> None) \<and> (c_Transport c = ''grpc'' \<longrightarrow> c_Grpc c \<noteq> None)
     \<and> (c_Transport c = ''ssh'' \<longrightarrow> c_Ssh c \<noteq> None) \<and> (c_Transport c = ''default'' \<and> c_Type c = ''ssr'' \<longrightarrow> c_SSR c \<noteq> None)"

lemmas server_eval = transport_options_def deref_def server_of_def transport_of_def ssr_of_def tls_of_def tls_mode_def
  zero_server_def zero_tls_def DefaultWsOptions_def DefaultObfsOptions_def DefaultQuicOptions_def DefaultGrpcOptions_def
  DefaultSshOptions_def bindP_apply

lemma applyTo_append: "applyTo (xs @ ys) = bindP (applyTo xs) (\<lambda>_. applyTo ys)"
  by (induction xs) (simp_all only: applyTo.simps append.simps bindP_retP bindP_assoc)

lemma transport_options_ok:
  assumes "server_ok c"
  shows "\<exists>os. transport_options c = Ret os \<and> applyTo os (\<lparr>serverOpts = [zero_server], localOpts = l\<rparr>, g)
    = (Ret (), (\<lparr>serverOpts = [zero_server\<lparr>s_transport := fst (transport_of c), s_opts := snd (transport_of c), s_ssr := (ssr_of c \<noteq> None),
        s_ssrOpt := (case ssr_of c of Some r \<Rightarrow> r | None \<Rightarrow> s_ssrOpt zero_server)\<rparr>], localOpts = l\<rparr>, g))"
proof -
  consider "c_Transport c = ''ws''" | "c_Transport c = ''obfs''" | "c_Transport c = ''quic''" | "c_Transport c = ''grpc''"
    | "c_Transport c = ''ssh''" | "c_Transport c = ''default''" "c_Type c = ''ssr''"
    | "c_Transport c \<notin> {''ws'', ''obfs'', ''quic'', ''grpc'', ''ssh''}" "\<not> (c_Transport c = ''default'' \<and> c_Type c = ''ssr'')"
    by blast
  then show ?thesis
  proof cases
    case 1
    then obtain w where "c_Ws c = Some w" using assms by (auto simp: server_ok_def)
    with 1 show ?thesis by (auto simp: server_eval with_defs option_defs)
  next
    case 2
    then obtain w where "c_Obfs c = Some w" using assms by (auto simp: server_ok_def)
    with 2 show ?thesis by (auto simp: server_eval with_defs option_defs)
  next
    case 3
    then obtain w where "c_Quic c = Some w" using assms by (auto simp: server_ok_def)
    with 3 show ?thesis by (auto simp: server_eval with_defs option_defs)
  next
    case 4
    then obtain w where "c_Grpc c = Some w" using assms by (auto simp: server_ok_def)
    with 4 show ?thesis by (auto simp: server_eval with_defs option_defs)
  next
    case 5
    then obtain w where "c_Ssh c = Some w" using assms by (auto simp: server_ok_def)
    with 5 show ?thesis by (auto simp: server_eval with_defs option_defs)
  next
    case 6
    then obtain w where "c_SSR c = Some w" using assms by (auto simp: server_ok_def)
    with 6 show ?thesis by (auto simp: server_eval with_defs option_defs)
  next
    case 7
    then show ?thesis by (auto simp: server_eval)
  qed
qed

lemma server_options_ok:
  assumes "server_ok c"
  shows "\<exists>os. server_options c = Ret os \<and> WithServerCompose os s
    = (Ret (\<lambda>(so, g'). (Ret (), (so\<lparr>serverOpts := serverOpts so @ [server_of c]\<rparr>, g'))), s)"
proof -
  obtain os where os: "transport_options c = Ret os" "applyTo os (\<lparr>serverOpts = [zero_server], localOpts = zero_local\<rparr>, snd s)
    = (Ret (), (\<lparr>serverOpts = [zero_server\<lparr>s_transport := fst (transport_of c), s_opts := snd (transport_of c), s_ssr := (ssr_of c \<noteq> None),
        s_ssrOpt := (case ssr_of c of Some r \<Rightarrow> r | None \<Rightarrow> s_ssrOpt zero_server)\<rparr>], localOpts = zero_local\<rparr>, snd s))"
    using transport_options_ok [OF assms, of zero_local "snd s"] by blast
  show ?thesis
    by (simp add: server_options_def os WithServerCompose_def applyTo_append bindP_apply with_defs option_defs)
      (simp add: server_of_def zero_server_def)
qed

lemma build_servers_ok:
  assumes "\<forall>c \<in> set cs. \<not> Disable c \<longrightarrow> server_ok c"
  shows "\<exists>opts. build_servers cs s = (Ret opts, s) \<and> (\<forall>so g. applyTo opts (so, g)
    = (Ret (), (so\<lparr>serverOpts := serverOpts so @ map server_of (filter (\<lambda>c. \<not> Disable c) cs)\<rparr>, g)))"
  using assms
proof (induction cs)
  case (Cons c cs)
  then obtain opts where IH: "build_servers cs s = (Ret opts, s)" "\<And>so g. applyTo opts (so, g)
    = (Ret (), (so\<lparr>serverOpts := serverOpts so @ map server_of (filter (\<lambda>c. \<not> Disable c) cs)\<rparr>, g))" by auto
  show ?case
  proof (cases "Disable c")
    case False
    then obtain os where "server_options c = Ret os" "WithServerCompose os s
      = (Ret (\<lambda>(so, g'). (Ret (), (so\<lparr>serverOpts := serverOpts so @ [server_of c]\<rparr>, g'))), s)"
      using server_options_ok [of c s] Cons.prems by auto
    then show ?thesis using IH False by (auto simp: bindP_apply)
  qed (use IH in auto)
qed (simp add: retP_def)

text \<open>A missing block panics whatever the other servers are.\<close>

lemma build_servers_panic:
  assumes "\<exists>c \<in> set cs. \<not> Disable c \<and> \<not> server_ok c"
  shows "\<exists>s'. build_servers cs s = (Panic, s')"
  using assms
proof (induction cs)
  case (Cons c cs)
  show ?case
  proof (cases "\<not> Disable c \<and> \<not> server_ok c")
    case True
    then have "server_options c = Panic"
      by (auto simp: server_ok_def server_options_def transport_options_def deref_def)
    with True show ?thesis by (simp add: bindP_apply)
  next
    case False
    with Cons obtain s' where IH: "build_servers cs s = (Panic, s')" by auto
    show ?thesis
    proof (cases "Disable c")
      case False
      with \<open>\<not> (\<not> Disable c \<and> \<not> server_ok c)\<close> obtain os where "server_options c = Ret os" "WithServerCompose os s
        = (Ret (\<lambda>(so, g'). (Ret (), (so\<lparr>serverOpts := serverOpts so @ [server_of c]\<rparr>, g'))), s)"
        using server_options_ok [of c s] by auto
      with IH False show ?thesis by (simp add: bindP_apply)
    qed (use IH in auto)
  qed
qed simp

section \<open>What the local block means\<close>

definition listen_of :: "LocalConfig \<Rightarrow> localOptions \<Rightarrow> localOptions" where
  "listen_of l x =
     (let ha = (case splitAuthInfo (l_HTTPAuth l) of (u, p) \<Rightarrow> NewAuth u p);
          sa = (case splitAuthInfo (l_SocksAuth l) of (u, p) \<Rightarrow> NewAuth u p) in
      if l_MixedAddr l \<noteq> [] then x\<lparr>mixedAddr := l_MixedAddr l, httpAuth := ha, socksAuth := sa\<rparr>
      else x\<lparr>socksAddr := (if l_SocksAddr l \<noteq> [] then l_SocksAddr l else socksAddr x),
             socksAuth := (if l_SocksAddr l \<noteq> [] then sa else socksAuth x),
             httpAddr := (if l_HTTPAddr l \<noteq> [] then l_HTTPAddr l else httpAddr x),
             httpAuth := (if l_HTTPAddr l \<noteq> [] then ha else httpAuth x)\<rparr>)"

definition mitm_of :: "LocalConfig \<Rightarrow> MimtOption \<Rightarrow> MimtOption" where
  "mitm_of l x = (case l_Mitm l of None \<Rightarrow> x | Some m \<Rightarrow> if \<not> m_Enable m then x
     else \<lparr>mitm_Enable = True, mitm_Proxy = m_Proxy m, mitm_CaPath = m_CAPath m, mitm_KeyPath = m_KeyPath m,
       mitm_Capacity = (case m_FakeCertPool m of Some p \<Rightarrow> p_Capacity p | None \<Rightarrow> mitm_Capacity x),
       mitm_Interval = (case m_FakeCertPool m of Some p \<Rightarrow> p_Interval p | None \<Rightarrow> mitm_Interval x),
       mitm_ExpireSecond = (case m_FakeCertPool m of Some p \<Rightarrow> p_ExpireSecond p | None \<Rightarrow> mitm_ExpireSecond x)\<rparr>)"

definition tun_on :: "LocalConfig \<Rightarrow> bool" where
  "tun_on l = (case l_Tun l of None \<Rightarrow> False | Some t \<Rightarrow> tun_Enable t)"

definition enhancer_of :: "LocalConfig \<Rightarrow> EnhancerConfig \<Rightarrow> EnhancerConfig" where
  "enhancer_of l x =
     (let y = (case l_Tun l of None \<Rightarrow> x | Some t \<Rightarrow> if \<not> tun_Enable t then x
        else x\<lparr>Tun_Name := tun_Name t, Inet4Address := (case ParsePrefix (tun_Cidr t) of Some p \<Rightarrow> [p] | None \<Rightarrow> Inet4Address x),
               Tun_MTU := word_of_int (tun_Mtu t), DnsHijack := DnsHijack x @ List.map_filter hijack_addr (tun_DnsHijack t),
               AutoRoute := tun_AutoRoute t\<rparr>) in
      case l_DNS l of None \<Rightarrow> y | Some d \<Rightarrow> y\<lparr>FakeDNS := dns_Listen d, DisableRewrite := dns_DisableRewrite d\<rparr>)"

definition local_of :: "LocalConfig \<Rightarrow> localOptions \<Rightarrow> localOptions" where
  "local_of l x = (listen_of l x)\<lparr>tcpTunAddr := map tun_pair (l_TCPTunAddr l), mitmConfig := mitm_of l (mitmConfig x),
     enhancerConfig := enhancer_of l (enhancerConfig x), enableTun := (tun_on l \<or> enableTun x),
     systemProxy := (l_SystemProxy l \<or> systemProxy x), lookupHostsFile := (l_LookupHostsFile l \<or> lookupHostsFile x)\<rparr>"

definition globals_of :: "LocalConfig \<Rightarrow> Ruler \<Rightarrow> globals \<Rightarrow> globals" where
  "globals_of l ruler g =
     (let g1 = g\<lparr>MatchRuler := Some ruler\<rparr> in
      case l_DNS l of None \<Rightarrow> g1
      | Some d \<Rightarrow> g1\<lparr>DefaultDomainFilter := dns_DomainFilter d,
          DefaultDnsNameservers := (if dns_Nameservers d = [] then DefaultDnsNameservers g else dns_Nameservers d)\<rparr>)"

lemma listen_options_apply:
  "applyTo (listen_options l) (so, g) = (Ret (), (so\<lparr>localOpts := listen_of l (localOpts so)\<rparr>, g))"
proof -
  obtain hu hp where h: "splitAuthInfo (l_HTTPAuth l) = (hu, hp)" by fastforce
  obtain su sp where s: "splitAuthInfo (l_SocksAuth l) = (su, sp)" by fastforce
  show ?thesis
    by (auto simp: listen_options_def listen_of_def h s Let_def bindP_apply with_defs option_defs)
qed

lemma mitm_options_apply:
  "applyTo (mitm_options l) (so, g) = (Ret (), (so\<lparr>localOpts := (localOpts so)\<lparr>mitmConfig := mitm_of l (mitmConfig (localOpts so))\<rparr>\<rparr>, g))"
  by (auto simp: mitm_options_def mitm_of_def bindP_apply with_defs option_defs split: option.splits)

lemma tun_options_apply:
  assumes "tun_on l \<Longrightarrow> l_DNS l \<noteq> None"
  shows "\<exists>tun. tun_options l = Ret tun \<and> (\<forall>so g. applyTo (tun @ dns_options l) (so, g)
    = (Ret (), (so\<lparr>localOpts := (localOpts so)\<lparr>enhancerConfig := enhancer_of l (enhancerConfig (localOpts so)),
        enableTun := (tun_on l \<or> enableTun (localOpts so))\<rparr>\<rparr>,
        case l_DNS l of None \<Rightarrow> g | Some d \<Rightarrow> g\<lparr>DefaultDomainFilter := dns_DomainFilter d,
          DefaultDnsNameservers := (if dns_Nameservers d = [] then DefaultDnsNameservers g else dns_Nameservers d)\<rparr>)))"
proof -
  consider "l_Tun l = None" | t where "l_Tun l = Some t" "\<not> tun_Enable t" | t where "l_Tun l = Some t" "tun_Enable t" by (cases "l_Tun l") auto
  then show ?thesis
    by cases (use assms in \<open>cases "l_DNS l"; auto simp: tun_options_def tun_on_def dns_options_def enhancer_of_def Let_def bindP_apply
      with_defs option_defs split: option.splits\<close>)+
qed

lemma listen_of_simps [simp]:
  "mitmConfig (listen_of l x) = mitmConfig x" "enhancerConfig (listen_of l x) = enhancerConfig x"
  "enableTun (listen_of l x) = enableTun x" "systemProxy (listen_of l x) = systemProxy x"
  "lookupHostsFile (listen_of l x) = lookupHostsFile x"
  by (simp_all add: listen_of_def Let_def)

lemma local_options_apply:
  assumes "tun_on l \<Longrightarrow> l_DNS l \<noteq> None" "cfg_Local cfg = Some l" "BuildRuler cfg = Ret ruler"
  shows "\<exists>opts. BuildLocalOptions cfg = Ret opts \<and> (\<forall>so g. applyTo opts (so, g)
    = (Ret (), (so\<lparr>localOpts := local_of l (localOpts so)\<rparr>, globals_of l ruler g)))"
proof -
  obtain tun where tun: "tun_options l = Ret tun" "\<And>so g. applyTo (tun @ dns_options l) (so, g)
    = (Ret (), (so\<lparr>localOpts := (localOpts so)\<lparr>enhancerConfig := enhancer_of l (enhancerConfig (localOpts so)),
        enableTun := (tun_on l \<or> enableTun (localOpts so))\<rparr>\<rparr>,
        case l_DNS l of None \<Rightarrow> g | Some d \<Rightarrow> g\<lparr>DefaultDomainFilter := dns_DomainFilter d,
          DefaultDnsNameservers := (if dns_Nameservers d = [] then DefaultDnsNameservers g else dns_Nameservers d)\<rparr>))"
    using tun_options_apply [OF assms(1)] by auto
  have fl: "applyTo ((if l_SystemProxy l then [WithSystemProxy] else []) @ (if l_LookupHostsFile l then [WithLookupHostsFile] else [])) (so, g)
    = (Ret (), (so\<lparr>localOpts := (localOpts so)\<lparr>systemProxy := (l_SystemProxy l \<or> systemProxy (localOpts so)),
        lookupHostsFile := (l_LookupHostsFile l \<or> lookupHostsFile (localOpts so))\<rparr>\<rparr>, g))" for so g
    by (auto simp: bindP_apply with_defs option_defs)
  let ?fl = "(if l_SystemProxy l then [WithSystemProxy] else []) @ (if l_LookupHostsFile l then [WithLookupHostsFile] else [])"
  let ?opts = "listen_options l @ [WithTcpTunAddr (map tun_pair (l_TCPTunAddr l)), WithRuler (Some ruler)] @ mitm_options l @ (tun @ dns_options l) @ ?fl"
  have "BuildLocalOptions cfg = Ret ?opts" using assms tun(1) by (simp add: BuildLocalOptions_def deref_def)
  moreover have "applyTo ?opts (so, g) = (Ret (), (so\<lparr>localOpts := local_of l (localOpts so)\<rparr>, globals_of l ruler g))" for so g
    unfolding applyTo_append [of "listen_options l"] applyTo_append [of "[WithTcpTunAddr _, WithRuler _]"] applyTo_append [of "mitm_options l"]
      applyTo_append [of "tun @ dns_options l"]
    by (simp only: bindP_apply listen_options_apply mitm_options_apply tun(2) fl)
      (auto simp: bindP_apply listen_options_apply mitm_options_apply tun(2) fl with_defs option_defs local_of_def globals_of_def split: option.splits)
  ultimately show ?thesis by blast
qed

section \<open>The ruler of a configuration\<close>

definition rule_matchers :: "MatchConfig \<Rightarrow> Matcher list" where
  "rule_matchers m = [newDomainRule (map (domain_item RuleDomain) (Domains m)),
     DomainKeywordRule None (map (domain_item RuleDomainKeyword) (DomainKeywords m)),
     newDomainSuffixRule (map (domain_item RuleDomainSuffix) (DomainSuffixs m)),
     GeoipRule None (map (addr_item RuleGeoIP) (GeoIPs m)),
     IpCIDRRule None (map (addr_item RuleIPCIDR) (IPCidrs m))]"

lemma BuildRuler_match:
  assumes "cfg_Rules cfg = Some ru" "ru_Mode ru \<notin> {''global'', ''direct''}" "ru_Match ru = Some m"
  shows "\<exists>r. BuildRuler cfg = Ret r \<and> mode r = Match \<and> MS r = rule_matchers m @ [OtherRule (other_item m)]
    \<and> DirectTo r = (if ru_DirectTo ru \<in> {''direct'', ''global''} then [] else ru_DirectTo ru)
    \<and> GlobalTo r = (if ru_GlobalTo ru \<in> {''direct'', ''global''} then [] else ru_GlobalTo ru)"
  using assms
  by (auto simp: BuildRuler_def NewRuler_def rule_matchers_def IndexToRuleType_def newRuleMatcher_def RuleDomain_def
      RuleDomainKeyword_def RuleDomainSuffix_def RuleGeoIP_def RuleIPCIDR_def RuleOthers_def)

lemma first_rule_snoc:
  assumes "\<forall>m \<in> set ms. cidr_ok m"
  shows "first_rule E (ms @ [OtherRule item]) t = (case first_rule E ms t of Some x \<Rightarrow> Some x 
    | None \<Rightarrow> if Proxy item = [] then None else Some item)"
  using assms
proof (induction ms arbitrary: t)
  case (Cons m ms)
  obtain b m' t' where m: "Matcher_Match E (fresh_matcher m) t = (b, m', t')" by (metis prod_cases3)
  show ?case
  proof (cases "b = Ret True")
    case True
    then obtain x where "MatchedResult m' = Some x" using m rule_matcher.match_result by fastforce
    then show ?thesis using m True by simp
  qed (use Cons m in \<open>auto split: go.splits bool.splits\<close>)
qed simp

text \<open>
  A configuration whose enabled servers have the block of their transport, and which has a DNS block
  when TUN is on, turns into options without a panic. Applied to any options they append exactly the
  servers that the enabled blocks describe, in their order and with the package defaults for what a block
  leaves out, set the local options that the local block describes, and install the configured ruler,
  interface, domain filter and name servers; nothing else changes.
\<close>

lemma built_options_apply:
  assumes "\<forall>c \<in> set (cfg_Server cfg). \<not> Disable c \<longrightarrow> server_ok c" "cfg_Local cfg = Some l"
    "tun_on l \<longrightarrow> l_DNS l \<noteq> None" "BuildRuler cfg = Ret ruler"
  shows "\<exists>opts. BuildSSLocalOptions cfg s = (Ret opts, s) \<and> (\<forall>so g. applyTo opts (so, g) = (Ret (),
      (\<lparr>serverOpts = serverOpts so @ map server_of (filter (\<lambda>c. \<not> Disable c) (cfg_Server cfg)), localOpts = local_of l (localOpts so)\<rparr>,
       globals_of l ruler (g\<lparr>DefaultOptions := \<lparr>OutboundInterface = cfg_Iface cfg, AutoDetectInterface = cfg_AutoDetectIface cfg\<rparr>\<rparr>))))"
proof -
  obtain os where os: "build_servers (cfg_Server cfg) s = (Ret os, s)" "\<And>so g. applyTo os (so, g)
    = (Ret (), (so\<lparr>serverOpts := serverOpts so @ map server_of (filter (\<lambda>c. \<not> Disable c) (cfg_Server cfg))\<rparr>, g))"
    using build_servers_ok [OF assms(1), of s] by auto
  obtain lo where lo: "BuildLocalOptions cfg = Ret lo" "\<And>so g. applyTo lo (so, g)
    = (Ret (), (so\<lparr>localOpts := local_of l (localOpts so)\<rparr>, globals_of l ruler g))"
    using local_options_apply [OF _ assms(2,4)] assms(3) by auto
  let ?opts = "(os @ [WithOutboundInterface (cfg_Iface cfg), WithAutoDetectInterface (cfg_AutoDetectIface cfg)]) @ lo"
  have "BuildSSLocalOptions cfg s = (Ret ?opts, s)"
    by (simp add: BuildSSLocalOptions_def BuildServerOptions_def bindP_apply os(1) lo(1))
  moreover have d: "x\<lparr>OutboundInterface := i, AutoDetectInterface := a\<rparr> = \<lparr>OutboundInterface = i, AutoDetectInterface = a\<rparr>" for x :: defaultOptions and i a
    by (cases x) simp
  have "applyTo ?opts (so, g) = (Ret (),
      (\<lparr>serverOpts = serverOpts so @ map server_of (filter (\<lambda>c. \<not> Disable c) (cfg_Server cfg)), localOpts = local_of l (localOpts so)\<rparr>,
       globals_of l ruler (g\<lparr>DefaultOptions := \<lparr>OutboundInterface = cfg_Iface cfg, AutoDetectInterface = cfg_AutoDetectIface cfg\<rparr>\<rparr>)))" for so g
    unfolding applyTo_append by (simp add: bindP_apply os(2) lo(2) WithOutboundInterface_def WithAutoDetectInterface_def on_globals_def d)
  ultimately show ?thesis by blast
qed

section \<open>Properties\<close>

text \<open>
  When an enabled server names a transport whose block is missing, building the options dereferences
  the nil block and panics, whatever the rest of the configuration is.
\<close>

theorem missing_transport_block_panics:
  assumes "\<exists>c \<in> set (cfg_Server cfg). \<not> Disable c \<and> \<not> server_ok c"
  shows "\<exists>s'. BuildSSLocalOptions cfg s = (Panic, s')"
proof -
  obtain s' where "build_servers (cfg_Server cfg) s = (Panic, s')" using build_servers_panic [OF assms, of s] by blast
  then show ?thesis by (simp add: BuildSSLocalOptions_def BuildServerOptions_def bindP_apply)
qed


section \<open>A configuration\<close>

definition sample_server :: "string \<Rightarrow> string \<Rightarrow> ServerConfig" where
  "sample_server name tr = \<lparr>Disable = False, c_Type = [], c_Name = name, c_Addr = ''127.0.0.1:8388'', c_Password = ''pw'',
     c_Method = ''aes-128-gcm'', c_Transport = tr, c_Udp = True, c_Ws = None, c_Obfs = Some \<lparr>o_Host = ''example.com''\<rparr>,
     c_Quic = None, c_Grpc = None, c_Ssh = None, c_SSR = None\<rparr>"

definition sample_local :: LocalConfig where
  "sample_local = \<lparr>l_SocksAddr = '':1080'', l_HTTPAddr = [], l_SocksAuth = ''u:p'', l_HTTPAuth = [], l_MixedAddr = [],
     l_TCPTunAddr = [''a=b''], l_SystemProxy = False, l_LookupHostsFile = True, l_Mitm = None, l_Tun = None, l_DNS = None\<rparr>"

definition sample_match :: MatchConfig where
  "sample_match = \<lparr>Others = ''n1'', Domains = [], DomainKeywords = [\<lparr>b_Proxy = ''n2'', b_Action = ''accept'', b_Value = [''video'']\<rparr>],
     DomainSuffixs = [], GeoIPs = [], IPCidrs = []\<rparr>"

definition sample_config :: "string \<Rightarrow> Config" where
  "sample_config tr = \<lparr>cfg_Server = [sample_server ''n1'' ''obfs'', sample_server ''n2'' tr], cfg_Local = Some sample_local,
     cfg_Iface = ''eth0'', cfg_AutoDetectIface = False,
     cfg_Rules = Some \<lparr>ru_Mode = ''match'', ru_DirectTo = [], ru_GlobalTo = [], ru_Match = Some sample_match\<rparr>\<rparr>"

definition sample_state :: "ssOptions \<times> globals" where
  "sample_state = (\<lparr>serverOpts = [], localOpts = zero_local\<rparr>, \<lparr>DefaultOptions = \<lparr>OutboundInterface = [], AutoDetectInterface = True\<rparr>,
     DefaultDomainFilter = [], DefaultDnsNameservers = [], MatchRuler = None\<rparr>)"

lemmas sample_defs = sample_config_def sample_server_def sample_local_def sample_match_def


theorem missing_transport_block_panics_witness:
  "\<exists>s'. BuildSSLocalOptions (sample_config ''ws'') sample_state = (Panic, s')"
  using missing_transport_block_panics [of "sample_config ''ws''" sample_state] by (simp add: sample_defs server_ok_def)

end
