(* ===== verification/Socks.thy ===== *)
theory Socks
  imports Fake_IP Options Bufferpool Address
begin

text \<open>
  The SOCKS5 server of \<open>ss/socks.go\<close> up to the relay of the connection, and the SOCKS5 client of
  \<open>client/client.go\<close>. The server's state is its connection, the fake IP resolver (present in TUN mode)
  and the shared ruler.
\<close>

section \<open>Model of ss/socks.go\<close>

definition CONNECT :: byte where "CONNECT = 1"
definition BIND :: byte where "BIND = 2"
definition UDP :: byte where "UDP = 3"

record 'h sstate =
  sk_conn :: conn
  sk_fake :: "'h fakeIPResolver option"
  sk_ruler :: Ruler

text \<open>
  What the handlers read: the configured authentication, whether a MITM handler is set, the clock, the
  rule environment, the local address of a new UDP socket, and the relay of a UDP association.
\<close>

record senv =
  sk_auth :: "Auth option"
  sk_mitm :: bool
  sk_now :: int
  sk_renv :: renv
  listen_udp :: "string go"
  packet_relay :: "string \<Rightarrow> unit go"

definition on_conn :: "(conn, 'a) proc \<Rightarrow> ('h sstate, 'a) proc" where
  "on_conn f s = (case f (sk_conn s) of (r, c) \<Rightarrow> (r, s\<lparr>sk_conn := c\<rparr>))"

definition auth :: "Auth \<Rightarrow> (conn, unit) proc" where
  "auth a =
     bindP (replaceErrP ErrVersion1Invalid (readFull_conn 1)) (\<lambda>ver.
     bindP (guardP (ver ! 0 = 1) ErrVersion1Invalid) (\<lambda>_.
     bindP (readFull_conn 1) (\<lambda>ulen.
     bindP (guardP (0 < unat (ulen ! 0)) ErrAuthUserShortLength) (\<lambda>_.
     bindP (readFull_conn (unat (ulen ! 0))) (\<lambda>username.
     bindP (readFull_conn 1) (\<lambda>plen.
     bindP (guardP (0 < unat (plen ! 0)) ErrAuthPasswordShortLength) (\<lambda>_.
     bindP (readFull_conn (unat (plen ! 0))) (\<lambda>password.
     if Validate a (string_of username) (string_of password) then write_conn_ign [1, 0]
     else bindP (write_conn_ign [1, 1]) (\<lambda>_. errP ErrAuthFailure)))))))))"

definition negotiate :: "senv \<Rightarrow> (conn, unit) proc" where
  "negotiate e =
     bindP (replaceErrP ErrVersion5Invalid (readFull_conn 1)) (\<lambda>ver.
     bindP (guardP (ver ! 0 = 5) ErrVersion5Invalid) (\<lambda>_.
     bindP (replaceErrP ErrUnsupportedMethod (readFull_conn 1)) (\<lambda>n.
     bindP (guardP (0 < unat (n ! 0)) ErrUnsupportedMethod) (\<lambda>_.
     bindP (readFull_conn (unat (n ! 0))) (\<lambda>_.
     bindP (write_conn_ign [5, if sk_auth e = None then 0 else 2]) (\<lambda>_.
     case sk_auth e of None \<Rightarrow> retP () | Some a \<Rightarrow> auth a))))))"

definition handleFail :: "byte \<Rightarrow> (conn, unit) proc" where
  "handleFail errno = write_conn_ign [5, errno, 0]"

definition handleCmdConnect :: "(conn, unit) proc" where
  "handleCmdConnect = (case ParseAddressFromHostPort ''0.0.0.0'' 0 (replicate 7 0) of
     (Ret bindAddr, _) \<Rightarrow> write_conn_ign ([5, 0, 0] @ bindAddr)
   | (Err e, _) \<Rightarrow> errP e
   | (Panic, _) \<Rightarrow> liftP Panic)"

definition handleCmdUdpAssociate :: "senv \<Rightarrow> ('h sstate, unit) proc" where
  "handleCmdUdpAssociate e = bindP (liftP (listen_udp e)) (\<lambda>laddr.
     let port = (case splitHostPort laddr of Ret (_, p) \<Rightarrow> p | _ \<Rightarrow> []);
         bindAddr = (case ParseAddress (joinHostPort ''127.0.0.1'' port) (replicate 7 0) of (Ret a, _) \<Rightarrow> a | _ \<Rightarrow> []) in
     bindP (on_conn (write_conn_ign ([5, 0, 0] @ bindAddr))) (\<lambda>_ s.
     bindP (liftP (Ruler_Select (sk_ruler s))) (\<lambda>proxy. liftP (packet_relay e proxy)) s))"

text \<open>In TUN mode a fake address is replaced by the domain it stands for.\<close>

definition fake_host :: "senv \<Rightarrow> string \<Rightarrow> ('h sstate, string) proc" where
  "fake_host e host s = (case sk_fake s of
     None \<Rightarrow> (Ret host, s)
   | Some f \<Rightarrow> (case netip_ParseAddr host of
       None \<Rightarrow> (Ret host, s)
     | Some ip \<Rightarrow> (case IsFakeIP f ip of
         Ret True \<Rightarrow> (case FindByIP (sk_now e) ip f of
             (Ret rec, f') \<Rightarrow> (Ret (Domain rec), s\<lparr>sk_fake := Some f'\<rparr>)
           | (Err x, f') \<Rightarrow> (Err x, s\<lparr>sk_fake := Some f'\<rparr>)
           | (Panic, f') \<Rightarrow> (Panic, s\<lparr>sk_fake := Some f'\<rparr>))
       | Ret False \<Rightarrow> (Ret host, s)
       | Err x \<Rightarrow> (Err x, s)
       | Panic \<Rightarrow> (Panic, s))))"

text \<open>\<open>rule.MatchRuler.Match(&host)\<close> may replace the host.\<close>

definition match_host :: "senv \<Rightarrow> string \<Rightarrow> ('h sstate, bool \<times> string) proc" where
  "match_host e host s = (case Ruler_Match (sk_renv e) (sk_ruler s) host of
     (Ret b, r, h) \<Rightarrow> (Ret (b, h), s\<lparr>sk_ruler := r\<rparr>)
   | (Err x, r, h) \<Rightarrow> (Err x, s\<lparr>sk_ruler := r\<rparr>)
   | (Panic, r, h) \<Rightarrow> (Panic, s\<lparr>sk_ruler := r\<rparr>))"

definition parse_request :: "bytes \<Rightarrow> (conn, Address) proc" where
  "parse_request buf c = (case ParseAddressFromReader (inp c, buf) of (r, (i, _)) \<Rightarrow> (r, c\<lparr>inp := i\<rparr>))"

definition request :: "senv \<Rightarrow> bytes \<Rightarrow> ('h sstate, string \<times> byte) proc" where
  "request e buf =
     bindP (on_conn (replaceErrP ErrVersion5Invalid (readFull_conn 1))) (\<lambda>ver.
     bindP (guardP (ver ! 0 = 5) ErrVersion5Invalid) (\<lambda>_.
     bindP (on_conn (readFull_conn 2)) (\<lambda>hdr.
     let cmd = hdr ! 0 in
     bindP (on_conn (parse_request (copy_into buf 0 hdr))) (\<lambda>dstAddr.
     bindP (fake_host e (Address_Host dstAddr)) (\<lambda>host0.
     bindP (match_host e host0) (\<lambda>(ok, host).
     if \<not> ok then bindP (on_conn (handleFail 2)) (\<lambda>_. errP ErrRuleMatchDropped)
     else
       let addr = joinHostPort host (itoa_nat (Address_Port dstAddr)) in
       if cmd = CONNECT then bindP (on_conn handleCmdConnect) (\<lambda>_. retP (addr, cmd))
       else if cmd = UDP then bindP (handleCmdUdpAssociate e) (\<lambda>_. retP (addr, cmd))
       else bindP (on_conn (handleFail 7)) (\<lambda>_. errP ErrUnsupportedReqCmd)))))))"

definition handshake :: "senv \<Rightarrow> bytes \<Rightarrow> ('h sstate, string \<times> byte) proc" where
  "handshake e buf = bindP (on_conn (negotiate e)) (\<lambda>_. request e buf)"

text \<open>What \<open>ServeTCP\<close> does with the connection after the handshake.\<close>

datatype served = Done | Failed error | Mitm string string string | Relay string string

definition ServeTCP :: "senv \<Rightarrow> bytes \<Rightarrow> ('h sstate, served) proc" where
  "ServeTCP e buf s = (case handshake e buf s of
     (Err x, s') \<Rightarrow> (Ret (Failed x), s')
   | (Panic, s') \<Rightarrow> (Panic, s')
   | (Ret (dst, cmd), s') \<Rightarrow>
       if cmd \<noteq> CONNECT then (Ret Done, s')
       else if sk_mitm e then
         (case splitHostPort dst of Ret (h, p) \<Rightarrow> (Ret (Mitm h p dst), s') | _ \<Rightarrow> (Ret (Mitm [] [] dst), s'))
       else (case Ruler_Select (sk_ruler s') of
           Ret proxy \<Rightarrow> (Ret (Relay proxy dst), s')
         | Err x \<Rightarrow> (Ret (Failed x), s')
         | Panic \<Rightarrow> (Panic, s')))"

section \<open>Model of client/client.go\<close>

record Socks5Client =
  authMethod :: byte
  authInfo :: "Userinfo option"
  cl_buf :: bytes

definition defaultSupportMethods :: bytes where
  "defaultSupportMethods = [0, 2]"

definition NewSocks5Client :: Socks5Client where
  "NewSocks5Client = \<lparr>authMethod = 0, authInfo = None, cl_buf = replicate MaxSocksBufferSize 0\<rparr>"

definition SetSocksAuth :: "string \<Rightarrow> string \<Rightarrow> Socks5Client \<Rightarrow> Socks5Client" where
  "SetSocksAuth username password c = c\<lparr>authInfo := Some (username, Some password), authMethod := 2\<rparr>"

text \<open>Writing a prefix of the client's buffer, and one \<open>conn.Read\<close> into it: bytes that do not arrive are stale.\<close>

definition cl_send :: "bytes \<Rightarrow> (conn \<times> Socks5Client, unit) proc" where
  "cl_send bs = (\<lambda>(c, cl). (Ret (), (snd (write_conn bs c), cl\<lparr>cl_buf := copy_into (cl_buf cl) 0 bs\<rparr>)))"

definition cl_recv :: "(conn \<times> Socks5Client, bytes) proc" where
  "cl_recv = (\<lambda>(c, cl). case read_conn (length (cl_buf cl)) c of
     (Ret bs, c') \<Rightarrow> (let b = copy_into (cl_buf cl) 0 bs in (Ret b, (c', cl\<lparr>cl_buf := b\<rparr>)))
   | (Err e, c') \<Rightarrow> (Err e, (c', cl))
   | (Panic, c') \<Rightarrow> (Panic, (c', cl)))"

definition cl_negotiate :: "(conn \<times> Socks5Client, unit) proc" where
  "cl_negotiate =
     bindP (cl_send ([5, byte_of (length defaultSupportMethods)] @ defaultSupportMethods)) (\<lambda>_.
     bindP cl_recv (\<lambda>buf.
     bindP (guardP (buf ! 0 = 5) ErrVersion5Invalid) (\<lambda>_ (c, cl). (Ret (), (c, cl\<lparr>authMethod := buf ! 1\<rparr>)))))"

definition cl_authentication :: "(conn \<times> Socks5Client, unit) proc" where
  "cl_authentication = (\<lambda>(c, cl).
     if authMethod cl \<noteq> 2 then (Ret (), (c, cl))
     else
       let user = bytes_of (case authInfo cl of Some (u, _) \<Rightarrow> u | None \<Rightarrow> []);
           pass = bytes_of (case authInfo cl of Some (_, Some p) \<Rightarrow> p | _ \<Rightarrow> []);
           nu = min (length user) (length (cl_buf cl) - 2);
           np = min (length pass) (length (cl_buf cl) - (3 + nu)) in
       if length (cl_buf cl) \<le> 2 + nu then (Panic, (c, cl))
       else bindP (cl_send ([1, byte_of (length user)] @ take nu user @ [byte_of (length pass)] @ take np pass)) (\<lambda>_.
         bindP cl_recv (\<lambda>buf.
         bindP (guardP (buf ! 0 = 1) ErrVersion1Invalid) (\<lambda>_. guardP (buf ! 1 = 0) ErrAuthFailure))) (c, cl))"

definition cl_request :: "string \<Rightarrow> byte \<Rightarrow> (conn \<times> Socks5Client, string) proc" where
  "cl_request target cmd =
     (let hp = split_chr (CHR '':'') target;
          host = hp ! 0;
          port = (if length hp = 1 then 80 else fst (atoi (hp ! 1))) in
      bindP (liftP (fst (ParseAddressFromHostPort host port (replicate 259 0)))) (\<lambda>dstAddr.
      bindP (cl_send ([5, cmd, 0] @ dstAddr)) (\<lambda>_.
      bindP cl_recv (\<lambda>buf.
      bindP (guardP (buf ! 1 = 0) ErrSocksRequestFailure) (\<lambda>_.
      bindP (liftP (ParseAddressFromBuffer (drop 3 buf))) (\<lambda>bindAddr. retP (Address_String bindAddr)))))))"

text \<open>The handshake on a dialled connection.\<close>

definition cl_handshake :: "string \<Rightarrow> byte \<Rightarrow> (conn \<times> Socks5Client, string) proc" where
  "cl_handshake address cmd = bindP cl_negotiate (\<lambda>_. bindP cl_authentication (\<lambda>_. cl_request address cmd))"

section \<open>Reading exactly\<close>

lemma readFull_conn_Ret:
  assumes "readFull_conn n c = (Ret bs, c')"
  shows "length bs = n" "concat (inp c) = bs @ concat (inp c')" "out c' = out c" "wfail c' = wfail c"
proof -
  obtain r where r: "readFull n (inp c) = (Ret bs, r)" "c' = c\<lparr>inp := r\<rparr>"
    using assms by (auto simp: readFull_conn_def split: prod.splits)
  then have l: "n \<le> length (concat (inp c))" "bs = take n (concat (inp c))" "r = snd (rd_loop n (inp c))"
    unfolding readFull_Ret_iff by blast+
  show "length bs = n" using l(1) unfolding l(2) by (simp only: length_take min_absorb2)
  show "concat (inp c) = bs @ concat (inp c')" using rd_loop_spec [of n "inp c"] l r(2) by simp
  show "out c' = out c" "wfail c' = wfail c" using r(2) by simp_all
qed

lemma readFull_conn_exact:
  assumes "concat (inp c) = bs @ rest"
  shows "\<exists>r. readFull_conn (length bs) c = (Ret bs, c\<lparr>inp := r\<rparr>) \<and> concat r = rest"
proof -
  have "length bs \<le> length (concat (inp c))" "take (length bs) (concat (inp c)) = bs" "drop (length bs) (concat (inp c)) = rest"
    unfolding assms by simp_all
  with readFull_conn_enough [of "length bs" c] show ?thesis by metis
qed

lemma readFull_conn_1:
  assumes "concat (inp c) = b # rest"
  shows "\<exists>r. readFull_conn 1 c = (Ret [b], c\<lparr>inp := r\<rparr>) \<and> concat r = rest"
  using readFull_conn_exact [of c "[b]" rest] assms by simp

lemma readFull_conn_2:
  assumes "concat (inp c) = b # b' # rest"
  shows "\<exists>r. readFull_conn 2 c = (Ret [b, b'], c\<lparr>inp := r\<rparr>) \<and> concat r = rest"
  using readFull_conn_exact [of c "[b, b']" rest] assms by (simp add: numeral_2_eq_2)

lemma replaceErr_Ret: "replaceErrP e f s = (Ret a, s') \<longleftrightarrow> f s = (Ret a, s')"
  by (auto simp: replaceErrP_def split: prod.splits go.splits)

lemma guard_Ret: "guardP b e s = (Ret u, s') \<longleftrightarrow> b \<and> s' = s"
  by (cases b) auto

lemma on_conn_Ret: "on_conn f s = (Ret a, s') \<longleftrightarrow> (\<exists>c. f (sk_conn s) = (Ret a, c) \<and> s' = s\<lparr>sk_conn := c\<rparr>)"
  by (auto simp: on_conn_def split: prod.splits)

lemmas proc_Ret = bindP_eq_Ret replaceErr_Ret guard_Ret on_conn_Ret

text \<open>What the server has read when the authentication or the negotiation succeeds.\<close>

lemma auth_Ret:
  assumes "auth a c = (Ret u, c')"
  shows "\<exists>user pass. concat (inp c) = 1 # byte_of (length user) # user @ byte_of (length pass) # pass @ concat (inp c')
    \<and> length user \<in> {1..255} \<and> length pass \<in> {1..255} \<and> Validate a (string_of user) (string_of pass)"
proof -
  from assms obtain ver c1 ulen c2 user c3 plen c4 pass c5 where
    r: "readFull_conn 1 c = (Ret ver, c1)" "ver ! 0 = 1" "readFull_conn 1 c1 = (Ret ulen, c2)" "0 < unat (ulen ! 0)"
      "readFull_conn (unat (ulen ! 0)) c2 = (Ret user, c3)" "readFull_conn 1 c3 = (Ret plen, c4)" "0 < unat (plen ! 0)"
      "readFull_conn (unat (plen ! 0)) c4 = (Ret pass, c5)"
    and f: "(if Validate a (string_of user) (string_of pass) then write_conn_ign [1, 0]
       else bindP (write_conn_ign [1, 1]) (\<lambda>_. errP ErrAuthFailure)) c5 = (Ret u, c')"
    unfolding auth_def proc_Ret by blast
  have v: "Validate a (string_of user) (string_of pass)" using f by (auto simp: bindP_eq_Ret split: if_splits)
  with f have i: "inp c' = inp c5" by (auto simp: write_conn_ign_def write_conn_def)
  note l = readFull_conn_Ret [OF r(1)] readFull_conn_Ret [OF r(3)] readFull_conn_Ret [OF r(5)] readFull_conn_Ret [OF r(6)] readFull_conn_Ret [OF r(8)]
  have one: "length bs = 1 \<Longrightarrow> bs = [bs ! 0]" for bs :: bytes by (cases bs) auto
  have "ver = [1]" "ulen = [byte_of (length user)]" "plen = [byte_of (length pass)]"
    using one [of ver] one [of ulen] one [of plen] l(1,5,9,13,17) r(2) by simp_all
  then have "concat (inp c) = 1 # byte_of (length user) # user @ byte_of (length pass) # pass @ concat (inp c')"
    using l(2,6,10,14,18) i by simp
  moreover have "length user \<in> {1..255}" "length pass \<in> {1..255}"
    using unat_byte_less [of "ulen ! 0"] unat_byte_less [of "plen ! 0"] r(4,7) l(9,17) unfolding atLeastAtMost_iff by linarith+
  ultimately show ?thesis using v by blast
qed

lemma negotiate_Ret:
  assumes "negotiate e c = (Ret u, c')" "sk_auth e = Some a"
  shows "\<exists>methods user pass. concat (inp c) = 5 # byte_of (length methods) # methods @ 1 # byte_of (length user) # user
      @ byte_of (length pass) # pass @ concat (inp c') \<and> length methods \<in> {1..255} \<and> length user \<in> {1..255} \<and> length pass \<in> {1..255}
    \<and> Validate a (string_of user) (string_of pass)"
proof -
  from assms obtain ver c1 n c2 ms c3 c4 where
    r: "readFull_conn 1 c = (Ret ver, c1)" "ver ! 0 = 5" "readFull_conn 1 c1 = (Ret n, c2)" "0 < unat (n ! 0)"
      "readFull_conn (unat (n ! 0)) c2 = (Ret ms, c3)" "write_conn_ign [5, if sk_auth e = None then 0 else 2] c3 = (Ret (), c4)"
      "auth a c4 = (Ret u, c')"
    unfolding negotiate_def proc_Ret by auto
  note l = readFull_conn_Ret [OF r(1)] readFull_conn_Ret [OF r(3)] readFull_conn_Ret [OF r(5)]
  have i: "inp c4 = inp c3" using r(6) by (auto simp: write_conn_ign_def write_conn_def)
  have one: "length bs = 1 \<Longrightarrow> bs = [bs ! 0]" for bs :: bytes by (cases bs) auto
  have "ver = [5]" "n = [byte_of (length ms)]" using one [of ver] one [of n] l(1,5,9) r(2) by simp_all
  moreover have "length ms \<in> {1..255}" using unat_byte_less [of "n ! 0"] r(4) l(9) unfolding atLeastAtMost_iff by linarith
  moreover obtain user pass where "concat (inp c4) = 1 # byte_of (length user) # user @ byte_of (length pass) # pass @ concat (inp c')"
      "length user \<in> {1..255}" "length pass \<in> {1..255}" "Validate a (string_of user) (string_of pass)"
    using auth_Ret [OF r(7)] by blast
  ultimately show ?thesis using l(2,6,10) i
    by (intro exI) (rule conjI, simp, simp)
qed

section \<open>The two ends together\<close>

text \<open>The messages of the protocol: what the client says for its credentials and target, and the server's replies.\<close>

definition auth_msg :: "(string \<times> string) option \<Rightarrow> bytes" where
  "auth_msg cred = (case cred of None \<Rightarrow> []
     | Some (u, p) \<Rightarrow> [1, byte_of (length u)] @ bytes_of u @ [byte_of (length p)] @ bytes_of p)"

definition client_says :: "(string \<times> string) option \<Rightarrow> saddr \<Rightarrow> bytes" where
  "client_says cred sa = [5, 2, 0, 2] @ auth_msg cred @ [5, CONNECT, 0] @ encode sa"

definition server_says :: "(string \<times> string) option \<Rightarrow> bytes list" where
  "server_says cred = [[5, if cred = None then 0 else 2]] @ (if cred = None then [] else [[1, 0]])
     @ [[5, 0, 0] @ encode (saddr_of ''0.0.0.0'' 0)]"

fun wf_cred :: "(string \<times> string) option \<Rightarrow> bool" where
  "wf_cred None = True"
| "wf_cred (Some (u, p)) = (length u \<in> {1..255} \<and> length p \<in> {1..255})"

lemma saddr_zero: "saddr_of ''0.0.0.0'' 0 = IPv4A [0, 0, 0, 0] 0"
  by code_simp

lemma parseIP_zero: "parseIP ''0.0.0.0'' \<noteq> None"
  by code_simp

lemma handleCmdConnect_eq: "handleCmdConnect = write_conn_ign ([5, 0, 0] @ encode (saddr_of ''0.0.0.0'' 0))"
  by (simp add: handleCmdConnect_def ParseAddressFromHostPort_spec saddr_zero parseIP_zero)

lemma auth_ok:
  assumes "concat (inp c) = auth_msg (Some (u, p)) @ rest" "wf_cred (Some (u, p))" "\<not> wfail c" "Validate a u p"
  shows "\<exists>r. auth a c = (Ret (), c\<lparr>inp := r, out := out c @ [1, 0]\<rparr>) \<and> concat r = rest"
proof -
  have c: "concat (inp c) = 1 # byte_of (length u) # bytes_of u @ byte_of (length p) # bytes_of p @ rest"
    using assms(1) by (simp add: auth_msg_def)
  obtain r1 where r1: "readFull_conn 1 c = (Ret [1], c\<lparr>inp := r1\<rparr>)"
      "concat r1 = byte_of (length u) # bytes_of u @ byte_of (length p) # bytes_of p @ rest"
    using readFull_conn_1 [OF c] by blast
  obtain r2 where r2: "readFull_conn 1 (c\<lparr>inp := r1\<rparr>) = (Ret [byte_of (length u)], c\<lparr>inp := r2\<rparr>)"
      "concat r2 = bytes_of u @ byte_of (length p) # bytes_of p @ rest"
    using readFull_conn_1 [of "c\<lparr>inp := r1\<rparr>"] r1(2) by fastforce
  obtain r3 where r3: "readFull_conn (length u) (c\<lparr>inp := r2\<rparr>) = (Ret (bytes_of u), c\<lparr>inp := r3\<rparr>)"
      "concat r3 = byte_of (length p) # bytes_of p @ rest"
    using readFull_conn_exact [of "c\<lparr>inp := r2\<rparr>" "bytes_of u"] r2(2) by fastforce
  obtain r4 where r4: "readFull_conn 1 (c\<lparr>inp := r3\<rparr>) = (Ret [byte_of (length p)], c\<lparr>inp := r4\<rparr>)"
      "concat r4 = bytes_of p @ rest"
    using readFull_conn_1 [of "c\<lparr>inp := r3\<rparr>"] r3(2) by fastforce
  obtain r5 where r5: "readFull_conn (length p) (c\<lparr>inp := r4\<rparr>) = (Ret (bytes_of p), c\<lparr>inp := r5\<rparr>)" "concat r5 = rest"
    using readFull_conn_exact [of "c\<lparr>inp := r4\<rparr>" "bytes_of p"] r4(2) by fastforce
  have "unat (byte_of (length u)) = length u" "unat (byte_of (length p)) = length p" using assms(2) by (simp_all add: unat_byte_of)
  then show ?thesis using assms(2-4) r1 r2 r3 r4 r5
    by (auto simp: auth_def bindP_apply replaceErrP_def Suc_le_eq)
qed

lemma negotiate_ok:
  assumes "concat (inp c) = [5, 2, 0, 2] @ auth_msg cred @ rest" "wf_cred cred" "\<not> wfail c"
    and "sk_auth e = (case cred of None \<Rightarrow> None | Some (u, p) \<Rightarrow> NewAuth u p)"
  shows "\<exists>r. negotiate e c = (Ret (), c\<lparr>inp := r,
      out := out c @ [5, if cred = None then 0 else 2] @ (if cred = None then [] else [1, 0])\<rparr>) \<and> concat r = rest"
proof -
  obtain r1 where r1: "readFull_conn 1 c = (Ret [5], c\<lparr>inp := r1\<rparr>)" "concat r1 = [2, 0, 2] @ auth_msg cred @ rest"
    using readFull_conn_1 [of c] assms(1) by auto
  obtain r2 where r2: "readFull_conn 1 (c\<lparr>inp := r1\<rparr>) = (Ret [2], c\<lparr>inp := r2\<rparr>)" "concat r2 = [0, 2] @ auth_msg cred @ rest"
    using readFull_conn_1 [of "c\<lparr>inp := r1\<rparr>"] r1(2) by fastforce
  obtain r3 where r3: "readFull_conn 2 (c\<lparr>inp := r2\<rparr>) = (Ret [0, 2], c\<lparr>inp := r3\<rparr>)" "concat r3 = auth_msg cred @ rest"
    using readFull_conn_2 [of "c\<lparr>inp := r2\<rparr>"] r2(2) by fastforce
  note run = negotiate_def bindP_apply replaceErrP_def
  show ?thesis
  proof (cases cred)
    case None
    with assms(3,4) r1 r2 r3 show ?thesis by (auto simp: run auth_msg_def)
  next
    case (Some up)
    obtain u p where up: "up = (u, p)" by force
    have "u \<noteq> []" "p \<noteq> []" using assms(2) Some up by auto
    then have a: "sk_auth e = Some \<lparr>auth_info = (u, Some p)\<rparr>" using assms(4) Some up by (simp add: NewAuth_def)
    obtain r where "auth \<lparr>auth_info = (u, Some p)\<rparr> (c\<lparr>inp := r3, out := out c @ [5, 2]\<rparr>)
        = (Ret (), c\<lparr>inp := r, out := out c @ [5, 2, 1, 0]\<rparr>)" "concat r = rest"
      using auth_ok [of "c\<lparr>inp := r3, out := out c @ [5, 2]\<rparr>" u p rest "\<lparr>auth_info = (u, Some p)\<rparr>"] assms(2,3) r3(2) Some up
      by (auto simp: Validate_def)
    with assms(3) r1 r2 r3 Some a show ?thesis by (auto simp: run)
  qed
qed

lemma request_ok:
  assumes "concat (inp (sk_conn s)) = [5, CONNECT, 0] @ encode sa @ rest" "wf_saddr sa" "\<not> wfail (sk_conn s)"
    and "length buf = MaxSocksBufferSize" "sk_fake s = None"
    and "Ruler_Match (sk_renv e) (sk_ruler s) (saddr_host sa) = (Ret True, ruler', host')"
  shows "\<exists>r. request e buf s = (Ret (joinHostPort host' (itoa_nat (saddr_port sa)), CONNECT),
      s\<lparr>sk_conn := (sk_conn s)\<lparr>inp := r, out := out (sk_conn s) @ [5, 0, 0] @ encode (saddr_of ''0.0.0.0'' 0)\<rparr>, sk_ruler := ruler'\<rparr>)
    \<and> concat r = rest"
proof -
  let ?c = "sk_conn s"
  obtain r1 where r1: "readFull_conn 1 ?c = (Ret [5], ?c\<lparr>inp := r1\<rparr>)" "concat r1 = [CONNECT, 0] @ encode sa @ rest"
    using readFull_conn_1 [of ?c] assms(1) by auto
  obtain r2 where r2: "readFull_conn 2 (?c\<lparr>inp := r1\<rparr>) = (Ret [CONNECT, 0], ?c\<lparr>inp := r2\<rparr>)" "concat r2 = encode sa @ rest"
    using readFull_conn_2 [of "?c\<lparr>inp := r1\<rparr>"] r1(2) by fastforce
  obtain r b' where r: "ParseAddressFromReader (r2, copy_into buf 0 [CONNECT, 0]) = (Ret (encode sa), (r, b'))" "concat r = rest"
    using ParseAddressFromReader_encode [OF assms(2) r2(2), of "copy_into buf 0 [CONNECT, 0]"] assms(4)
    by (auto simp: MaxSocksBufferSize_def)
  show ?thesis using assms(2,3,5,6) r1 r2 r
    by (auto simp: request_def bindP_apply on_conn_def replaceErrP_def parse_request_def fake_host_def match_host_def
        handleCmdConnect_eq Let_def intro!: exI [of _ r])
qed

lemma cl_send_ok:
  "\<not> wfail c \<Longrightarrow> cl_send bs (c, cl) = (Ret (), (c\<lparr>out := out c @ bs\<rparr>, cl\<lparr>cl_buf := copy_into (cl_buf cl) 0 bs\<rparr>))"
  by (simp add: cl_send_def)

lemma cl_recv_ok:
  assumes "inp c = bs # r" "length bs \<le> length (cl_buf cl)"
  shows "cl_recv (c, cl) = (Ret (bs @ drop (length bs) (cl_buf cl)), (c\<lparr>inp := r\<rparr>, cl\<lparr>cl_buf := bs @ drop (length bs) (cl_buf cl)\<rparr>))"
  using assms by (simp add: cl_recv_def read_conn_def copy_into_def Let_def)

definition client_of :: "(string \<times> string) option \<Rightarrow> Socks5Client" where
  "client_of cred = (case cred of None \<Rightarrow> NewSocks5Client | Some (u, p) \<Rightarrow> SetSocksAuth u p NewSocks5Client)"

lemma client_of_sel [simp]:
  "authInfo (client_of cred) = map_option (\<lambda>(u, p). (u, Some p)) cred" "length (cl_buf (client_of cred)) = MaxSocksBufferSize"
  by (auto simp: client_of_def NewSocks5Client_def SetSocksAuth_def split: option.splits)

lemma cl_negotiate_ok:
  assumes "inp c = [5, x] # r" "\<not> wfail c" "length (cl_buf cl) = MaxSocksBufferSize"
  shows "\<exists>b. cl_negotiate (c, cl) = (Ret (), (c\<lparr>inp := r, out := out c @ [5, 2, 0, 2]\<rparr>, cl\<lparr>cl_buf := b, authMethod := x\<rparr>))
    \<and> length b = MaxSocksBufferSize"
  using assms by (auto simp: cl_negotiate_def bindP_apply cl_send_ok cl_recv_ok defaultSupportMethods_def MaxSocksBufferSize_def
      copy_into_def byte_of_def intro!: exI)

lemma cl_authentication_ok:
  assumes "authInfo cl = Some (u, Some p)" "authMethod cl = 2" "wf_cred (Some (u, p))"
    and "inp c = [1, 0] # r" "\<not> wfail c" "length (cl_buf cl) = MaxSocksBufferSize"
  shows "\<exists>b. cl_authentication (c, cl) = (Ret (), (c\<lparr>inp := r, out := out c @ auth_msg (Some (u, p))\<rparr>, cl\<lparr>cl_buf := b\<rparr>))
    \<and> length b = MaxSocksBufferSize"
  using assms by (auto simp: cl_authentication_def Let_def bindP_apply cl_send_ok cl_recv_ok MaxSocksBufferSize_def
      auth_msg_def intro!: exI)

lemma cl_request_ok:
  assumes "target = host @ CHR '':'' # itoa_nat port" "CHR '':'' \<notin> set host" "host \<noteq> []" "length host \<le> 255" "port \<le> 65535"
    and "inp c = [[5, 0, 0] @ encode (saddr_of ''0.0.0.0'' 0)]" "\<not> wfail c" "length (cl_buf cl) = MaxSocksBufferSize"
  shows "\<exists>cl'. cl_request target CONNECT (c, cl)
      = (Ret ''0.0.0.0:0'', (c\<lparr>inp := [], out := out c @ [5, CONNECT, 0] @ encode (saddr_of host port)\<rparr>, cl'))"
proof -
  have wf: "wf_saddr (saddr_of host port)" using assms(4,5) by (intro wf_saddr_of) auto
  have hp: "split_chr (CHR '':'') target = [host, itoa_nat port]"
    using assms(1,2) by (simp add: split_chr_append split_chr_no_sep)
  have pa: "fst (ParseAddressFromHostPort host (int port) (replicate 259 0)) = Ret (encode (saddr_of host port))"
    using assms(3-5) length_encode_le [OF wf] by (simp add: ParseAddressFromHostPort_spec Let_def)
  have l: "length (copy_into (cl_buf cl) 0 ([5, CONNECT, 0] @ encode (saddr_of host port))) = MaxSocksBufferSize"
    using assms(8) by simp
  have a: "Address_String (encode (saddr_of ''0.0.0.0'' 0)) = ''0.0.0.0:0''" unfolding saddr_zero by code_simp
  show ?thesis using assms(5-8) hp pa l ParseAddressFromBuffer_encode [of "saddr_of ''0.0.0.0'' 0"] a
    by (simp add: cl_request_def Let_def bindP_apply cl_send_ok cl_recv_ok saddr_zero MaxSocksBufferSize_def)
qed

lemma cl_handshake_ok:
  assumes "target = host @ CHR '':'' # itoa_nat port" "CHR '':'' \<notin> set host" "host \<noteq> []" "length host \<le> 255" "port \<le> 65535"
    and "wf_cred cred" "inp c = server_says cred" "\<not> wfail c"
  shows "\<exists>cl'. cl_handshake target CONNECT (c, client_of cred)
      = (Ret ''0.0.0.0:0'', (c\<lparr>inp := [], out := out c @ client_says cred (saddr_of host port)\<rparr>, cl'))"
proof -
  let ?x = "if cred = None then 0 else 2 :: byte"
  define r where "r = tl (server_says cred)"
  have i: "inp c = [5, ?x] # r" using assms(7) by (simp add: server_says_def r_def)
  obtain b where b: "cl_negotiate (c, client_of cred)
      = (Ret (), (c\<lparr>inp := r, out := out c @ [5, 2, 0, 2]\<rparr>, client_of cred\<lparr>cl_buf := b, authMethod := ?x\<rparr>))" "length b = MaxSocksBufferSize"
    using cl_negotiate_ok [OF i assms(8), of "client_of cred"] by auto
  have "\<exists>b'. cl_authentication (c\<lparr>inp := r, out := out c @ [5, 2, 0, 2]\<rparr>, client_of cred\<lparr>cl_buf := b, authMethod := ?x\<rparr>)
      = (Ret (), (c\<lparr>inp := [last (server_says cred)], out := out c @ [5, 2, 0, 2] @ auth_msg cred\<rparr>,
          client_of cred\<lparr>authMethod := ?x, cl_buf := b'\<rparr>)) \<and> length b' = MaxSocksBufferSize"
  proof (cases cred)
    case None
    then show ?thesis using b(2) by (auto simp: cl_authentication_def server_says_def r_def auth_msg_def client_of_def NewSocks5Client_def)
  next
    case (Some up)
    obtain u p where up: "up = (u, p)" by force
    have "r = [1, 0] # [last (server_says cred)]" using Some by (simp add: r_def server_says_def)
    then show ?thesis using cl_authentication_ok [of "client_of cred\<lparr>cl_buf := b, authMethod := 2\<rparr>" u p
        "c\<lparr>inp := r, out := out c @ [5, 2, 0, 2]\<rparr>" "[last (server_says cred)]"] Some up assms(6,8) b(2)
      by auto
  qed
  then obtain b' where b': "cl_authentication (c\<lparr>inp := r, out := out c @ [5, 2, 0, 2]\<rparr>, client_of cred\<lparr>cl_buf := b, authMethod := ?x\<rparr>)
      = (Ret (), (c\<lparr>inp := [last (server_says cred)], out := out c @ [5, 2, 0, 2] @ auth_msg cred\<rparr>,
          client_of cred\<lparr>authMethod := ?x, cl_buf := b'\<rparr>))" "length b' = MaxSocksBufferSize" by blast
  show ?thesis
    using cl_request_ok [OF assms(1-5), of "c\<lparr>inp := [last (server_says cred)], out := out c @ [5, 2, 0, 2] @ auth_msg cred\<rparr>"
        "client_of cred\<lparr>authMethod := ?x, cl_buf := b'\<rparr>"] b b' assms(8)
    by (auto simp: cl_handshake_def bindP_apply client_says_def server_says_def)
qed

section \<open>Properties\<close>

text \<open>
  C12. With authentication configured, the server completes a handshake only for a client that sent the
  configured credentials: what it has read starts with a greeting and an authentication message whose
  user name and password it validated.
\<close>

theorem handshake_requires_credentials:
  assumes "sk_auth e = Some a" "handshake e buf s = (Ret (dst, cmd), s')"
  shows "\<exists>methods user pass rest. concat (inp (sk_conn s)) = 5 # byte_of (length methods) # methods @ 1 # byte_of (length user) # user
      @ byte_of (length pass) # pass @ rest \<and> length user \<in> {1..255} \<and> length pass \<in> {1..255}
    \<and> string_of user = fst (auth_info a) \<and> (case snd (auth_info a) of Some p \<Rightarrow> string_of pass = p | None \<Rightarrow> True)"
proof -
  obtain c where "negotiate e (sk_conn s) = (Ret (), c)" using assms(2) unfolding handshake_def proc_Ret by auto
  from negotiate_Ret [OF this assms(1)] show ?thesis unfolding Validate_def by (fastforce split: option.splits)
qed


text \<open>
  C18. The two ends understand each other, with and without credentials: the client, given the replies
  one per read, sends the protocol's messages and succeeds; the server, given these bytes in any
  segmentation and with any bytes behind them, completes the handshake with the client's target (as
  the rules rewrite it), answers exactly these replies and leaves the bytes behind unread.
\<close>

theorem socks_client_and_server_interoperate:
  assumes "CHR '':'' \<notin> set host" "host \<noteq> []" "length host \<le> 255" "port \<le> 65535" "wf_cred cred"
    and "inp c = server_says cred" "\<not> wfail c"
    and "concat (inp (sk_conn s)) = client_says cred (saddr_of host port) @ rest" "\<not> wfail (sk_conn s)"
    and "length buf = MaxSocksBufferSize" "sk_fake s = None"
    and "sk_auth e = (case cred of None \<Rightarrow> None | Some (u, p) \<Rightarrow> NewAuth u p)"
    and "Ruler_Match (sk_renv e) (sk_ruler s) host = (Ret True, ruler', host')"
  shows "(\<exists>cl'. cl_handshake (host @ CHR '':'' # itoa_nat port) CONNECT (c, client_of cred)
        = (Ret ''0.0.0.0:0'', (c\<lparr>inp := [], out := out c @ client_says cred (saddr_of host port)\<rparr>, cl')))
    \<and> (\<exists>r. handshake e buf s = (Ret (joinHostPort host' (itoa_nat port), CONNECT),
          s\<lparr>sk_conn := (sk_conn s)\<lparr>inp := r, out := out (sk_conn s) @ concat (server_says cred)\<rparr>, sk_ruler := ruler'\<rparr>)
        \<and> concat r = rest)"
proof (rule conjI)
  show "\<exists>cl'. cl_handshake (host @ CHR '':'' # itoa_nat port) CONNECT (c, client_of cred)
      = (Ret ''0.0.0.0:0'', (c\<lparr>inp := [], out := out c @ client_says cred (saddr_of host port)\<rparr>, cl'))"
    by (rule cl_handshake_ok [OF refl assms(1-7)])
  let ?sa = "saddr_of host port" and ?neg = "[5, if cred = None then 0 else 2] @ (if cred = None then [] else [1, 0])"
  have wf: "wf_saddr ?sa" using assms(3,4) by (intro wf_saddr_of) auto
  obtain r where r: "negotiate e (sk_conn s) = (Ret (), (sk_conn s)\<lparr>inp := r, out := out (sk_conn s) @ ?neg\<rparr>)"
      "concat r = [5, CONNECT, 0] @ encode ?sa @ rest"
    using negotiate_ok [of "sk_conn s" cred "[5, CONNECT, 0] @ encode ?sa @ rest" e] assms(5,8,9,12) by (auto simp: client_says_def)
  let ?s = "s\<lparr>sk_conn := (sk_conn s)\<lparr>inp := r, out := out (sk_conn s) @ ?neg\<rparr>\<rparr>"
  obtain r' where "request e buf ?s = (Ret (joinHostPort host' (itoa_nat port), CONNECT),
      ?s\<lparr>sk_conn := (sk_conn ?s)\<lparr>inp := r', out := out (sk_conn ?s) @ [5, 0, 0] @ encode (saddr_of ''0.0.0.0'' 0)\<rparr>, sk_ruler := ruler'\<rparr>)"
      "concat r' = rest"
    using request_ok [of ?s ?sa rest buf e ruler' host'] r(2) wf assms(9-11,13) saddr_host_no_colon [OF assms(1)] by auto
  then show "\<exists>r. handshake e buf s = (Ret (joinHostPort host' (itoa_nat port), CONNECT),
        s\<lparr>sk_conn := (sk_conn s)\<lparr>inp := r, out := out (sk_conn s) @ concat (server_says cred)\<rparr>, sk_ruler := ruler'\<rparr>)
      \<and> concat r = rest"
    using r(1) by (intro exI [of _ r']) (auto simp: handshake_def bindP_apply on_conn_def server_says_def)
qed


text \<open>
  In TUN mode a request for an IPv6 address makes the handler panic, whatever the pool and the rules are:
  the fake address test converts the address to 32 bits.
\<close>

theorem ipv6_request_panics_in_tun_mode:
  assumes "sk_fake s = Some f" "length buf = MaxSocksBufferSize" "length ip = 16" "port \<le> 65535"
    and "netip_ParseAddr (ip_string ip) = Some (Addr6 ip [])" "to4 ip = None"
    and "concat (inp (sk_conn s)) = [5, cmd, 0] @ encode (IPv6A ip port) @ rest"
  shows "\<exists>s'. request e buf s = (Panic, s')"
proof -
  let ?c = "sk_conn s" and ?sa = "IPv6A ip port"
  have wf: "wf_saddr ?sa" using assms(3,4) by simp
  obtain r1 where r1: "readFull_conn 1 ?c = (Ret [5], ?c\<lparr>inp := r1\<rparr>)" "concat r1 = [cmd, 0] @ encode ?sa @ rest"
    using readFull_conn_1 [of ?c] assms(7) by auto
  obtain r2 where r2: "readFull_conn 2 (?c\<lparr>inp := r1\<rparr>) = (Ret [cmd, 0], ?c\<lparr>inp := r2\<rparr>)" "concat r2 = encode ?sa @ rest"
    using readFull_conn_2 [of "?c\<lparr>inp := r1\<rparr>"] r1(2) by fastforce
  obtain r b' where r: "ParseAddressFromReader (r2, copy_into buf 0 [cmd, 0]) = (Ret (encode ?sa), (r, b'))"
    using ParseAddressFromReader_encode [OF wf r2(2), of "copy_into buf 0 [cmd, 0]"] assms(2) by (auto simp: MaxSocksBufferSize_def)
  have "IsFakeIP f (Addr6 ip []) = Panic" using assms(6) by (simp add: IsFakeIP_def Ip_Pool.Contains_def index_def ipToInt_def as4_def)
  then show ?thesis using assms(1,5) r1(1) r2(1) r Address_Host_encode [OF wf]
    by (simp add: request_def bindP_apply on_conn_def replaceErrP_def parse_request_def fake_host_def Let_def)
qed

section \<open>Witnesses\<close>

definition demo_env :: "Auth option \<Rightarrow> senv" where
  "demo_env a = \<lparr>sk_auth = a, sk_mitm = False, sk_now = 0, sk_renv = \<lparr>db_country = \<lambda>_. None, lookup_host = \<lambda>_. NoAddr\<rparr>,
     listen_udp = Ret ''127.0.0.1:5000'', packet_relay = \<lambda>_. Ret ()\<rparr>"

definition demo_state :: "bytes list \<Rightarrow> unit sstate" where
  "demo_state i = \<lparr>sk_conn = \<lparr>inp = i, out = [], wfail = False\<rparr>, sk_fake = None,
     sk_ruler = \<lparr>mode = Global, matched = None, MS = [], DirectTo = [], GlobalTo = ''n1''\<rparr>\<rparr>"

definition demo_buf :: bytes where
  "demo_buf = replicate MaxSocksBufferSize 0"

theorem socks_client_and_server_interoperate_witness:
  "(\<exists>cl'. cl_handshake ''a.org:443'' CONNECT (\<lparr>inp = server_says (Some (''u'', ''pw'')), out = [], wfail = False\<rparr>, client_of (Some (''u'', ''pw'')))
      = (Ret ''0.0.0.0:0'', (\<lparr>inp = [], out = client_says (Some (''u'', ''pw'')) (DomainA ''a.org'' 443), wfail = False\<rparr>, cl')))
   \<and> fst (handshake (demo_env (NewAuth ''u'' ''pw'')) demo_buf
        (demo_state [[5, 2], [0, 2, 1, 1], [117, 2, 112, 119, 5, 1, 0, 3, 5, 97, 46], [111, 114, 103, 1, 187, 7]])) = Ret (''a.org:443'', CONNECT)"
proof -
  let ?cred = "Some (''u'', ''pw'')" and ?r = "sk_ruler (demo_state [])"
  let ?s = "demo_state [[5, 2], [0, 2, 1, 1], [117, 2, 112, 119, 5, 1, 0, 3, 5, 97, 46], [111, 114, 103, 1, 187, 7]]"
  have sa: "saddr_of ''a.org'' 443 = DomainA ''a.org'' 443" by code_simp
  have says: "concat (inp (sk_conn ?s)) = client_says ?cred (saddr_of ''a.org'' 443) @ [7]" unfolding sa by code_simp
  have m: "Ruler_Match (sk_renv (demo_env (NewAuth ''u'' ''pw''))) (sk_ruler ?s) ''a.org''
      = (Ret True, ?r\<lparr>matched := Some \<lparr>ruleMode = Global, ruleType = [], Proxy = ''auto-select'', Value = [], Resolve = False, Accept = True\<rparr>\<rparr>, ''a.org'')"
    by (simp add: Ruler_Match_def demo_state_def)
  have str: "''a.org'' @ CHR '':'' # itoa_nat 443 = ''a.org:443''" "joinHostPort ''a.org'' (itoa_nat 443) = ''a.org:443''" by code_simp+
  from socks_client_and_server_interoperate [OF _ _ _ _ _ _ _ says _ _ _ _ m, of "\<lparr>inp = server_says ?cred, out = [], wfail = False\<rparr>" demo_buf]
  show ?thesis unfolding str sa by (auto simp: demo_state_def demo_buf_def demo_env_def)
qed

theorem handshake_requires_credentials_witness:
  "(\<exists>s'. handshake (demo_env (NewAuth ''u'' ''pw'')) demo_buf
      (demo_state [[5, 1, 2, 1, 1, 117, 2, 112, 119, 5, 1, 0, 3, 5, 97, 46, 111, 114, 103, 1, 187]]) = (Ret (''a.org:443'', CONNECT), s'))
   \<and> (\<exists>methods user pass rest. [5, 1, 2, 1, 1, 117, 2, 112, 119, 5, 1, 0, 3, 5, 97, 46, 111, 114, 103, 1, 187]
        = 5 # byte_of (length methods) # methods @ 1 # byte_of (length user) # user @ byte_of (length pass) # pass @ rest
      \<and> string_of user = ''u'' \<and> string_of pass = ''pw'')"
proof -
  let ?s = "demo_state [[5, 1, 2, 1, 1, 117, 2, 112, 119, 5, 1, 0, 3, 5, 97, 46, 111, 114, 103, 1, 187]]"
  obtain x s' where h: "handshake (demo_env (NewAuth ''u'' ''pw'')) demo_buf ?s = (x, s')" by fastforce
  have "fst (handshake (demo_env (NewAuth ''u'' ''pw'')) demo_buf ?s) = Ret (''a.org:443'', CONNECT)" by code_simp
  then have h': "handshake (demo_env (NewAuth ''u'' ''pw'')) demo_buf ?s = (Ret (''a.org:443'', CONNECT), s')" using h by simp
  have "sk_auth (demo_env (NewAuth ''u'' ''pw'')) = Some \<lparr>auth_info = (''u'', Some ''pw'')\<rparr>" by (simp add: demo_env_def NewAuth_def)
  from handshake_requires_credentials [OF this h'] h' show ?thesis by (simp add: demo_state_def) blast
qed

theorem ipv6_request_panics_in_tun_mode_witness:
  "\<exists>f s'. newFakeIPResolver (Addr4 [198, 18, 0, 1], 16) = Ret f
     \<and> request (demo_env None) demo_buf ((demo_state [[5, 1, 0, 4, 0, 0, 0, 0, 0, 0, 0, 0], [0, 0, 0, 0, 0, 0, 0, 1, 0, 80]])\<lparr>sk_fake := Some f\<rparr>) = (Panic, s')"
proof -
  obtain f :: "unit fakeIPResolver" where f: "newFakeIPResolver (Addr4 [198, 18, 0, 1], 16) = Ret f"
    using newFakeIPResolver_Ret [of "[198, 18, 0, 1]" 16] by auto
  have ip: "netip_ParseAddr (ip_string [0, 0, 0, 0, 0, 0, 0, 0, 0, 0, 0, 0, 0, 0, 0, 1]) = Some (Addr6 [0, 0, 0, 0, 0, 0, 0, 0, 0, 0, 0, 0, 0, 0, 0, 1] [])"
    "to4 [0, 0, 0, 0, 0, 0, 0, 0, 0, 0, 0, 0, 0, 0, 0, 1] = None" by code_simp+
  from ipv6_request_panics_in_tun_mode [OF _ _ _ _ ip, of
      "(demo_state [[5, 1, 0, 4, 0, 0, 0, 0, 0, 0, 0, 0], [0, 0, 0, 0, 0, 0, 0, 1, 0, 80]])\<lparr>sk_fake := Some f\<rparr>" f demo_buf 80 1 "[]" "demo_env None"] f
  show ?thesis by (simp add: demo_state_def demo_buf_def be16_def byte_of_def)
qed

end
