(* ===== verification/Tcp_Relay.thy ===== *)
theory Tcp_Relay
  imports Socks Stream_Conn
begin

text \<open>
  The TCP relays of \<open>relay/tcp.go\<close> on the connections of \<open>ss/conn.go\<close>: the client relay dials the proxy
  server, announces the target and forwards; the server relay reads the target, dials it and forwards.
  A direction of \<open>IoCopyBidirectionalForStream\<close> is a run of its copy loop to the end of the source.
\<close>

section \<open>Wrapped connections\<close>

definition ss_Read :: "('blk, 'st) prims \<Rightarrow> nat \<Rightarrow> ('st ssConn, bytes) proc" where
  "ss_Read P k d = (case d of
     StreamC c \<Rightarrow> (case StreamConn_Read P k c of (x, c') \<Rightarrow> (x, StreamC c'))
   | AeadC c \<Rightarrow> (case streamConn_Read P k c of (x, c') \<Rightarrow> (x, AeadC c'))
   | DefaultC c \<Rightarrow> (case read_conn k c of (x, c') \<Rightarrow> (x, DefaultC c')))"

text \<open>\<open>dstConn.Write(addr)\<close> as a statement.\<close>

definition ss_Write :: "('blk, 'st) prims \<Rightarrow> (nat \<Rightarrow> bytes go) \<Rightarrow> bytes \<Rightarrow> 'st ssConn \<Rightarrow> 'st ssConn" where
  "ss_Write P rnd b d = (case d of
     StreamC c \<Rightarrow> StreamC (snd (StreamConn_Write P rnd b c))
   | AeadC c \<Rightarrow> AeadC (snd (streamConn_Write P rnd b c))
   | DefaultC c \<Rightarrow> DefaultC (snd (write_conn b c)))"

fun ss_conn :: "'st ssConn \<Rightarrow> conn" where
  "ss_conn (StreamC c) = tConn c"
| "ss_conn (AeadC c) = sConn c"
| "ss_conn (DefaultC c) = c"

text \<open>
  \<open>io.ReadFull\<close> on a wrapped connection. Every call of \<open>Read\<close> delivers bytes or takes some from the
  connection, so that this many calls are enough.
\<close>

definition ss_ReadFull :: "('blk, 'st) prims \<Rightarrow> nat \<Rightarrow> 'st ssConn \<Rightarrow> (bytes \<times> unit go) \<times> 'st ssConn" where
  "ss_ReadFull P n d = io_ReadFull (n + length (inp (ss_conn d)) + length (concat (inp (ss_conn d)))) (ss_Read P) n d"

section \<open>Model of relay/tcp.go\<close>

text \<open>\<open>io.CopyBuffer\<close> between plain connections, over the reads of the source.\<close>

fun copy_buffer :: "bytes list \<Rightarrow> nat \<Rightarrow> conn \<Rightarrow> nat \<times> error option \<times> conn" where
  "copy_buffer [] n w = (n, None, w)"
| "copy_buffer (x # xs) n w =
     (if x = [] then copy_buffer xs n w
      else case write_conn x w of
        (Ret _, w') \<Rightarrow> copy_buffer xs (n + length x) w'
      | (Err e, w') \<Rightarrow> (n, Some e, w')
      | (Panic, w') \<Rightarrow> (n, Some ErrConnClosed, w'))"

text \<open>
  \<open>ioCopyWithBuffer\<close> from a plain to a wrapped connection (whose \<open>ReadFrom\<close> it uses) and back (whose
  \<open>WriteTo\<close> it uses): the error it ends with. \<open>None\<close> as the second result is a panic of the reader.
\<close>

definition ioCopy_into :: "('blk, 'st) prims \<Rightarrow> (nat \<Rightarrow> bytes go) \<Rightarrow> reader \<Rightarrow> 'st ssConn \<Rightarrow> error option go \<times> 'st ssConn" where
  "ioCopy_into P rnd src d = (case d of
     StreamC c \<Rightarrow> (case StreamConn_ReadFrom P rnd src c of
         (Ret (n, e), c') \<Rightarrow> (Ret e, StreamC c') | (Err e, c') \<Rightarrow> (Ret (Some e), StreamC c') | (Panic, c') \<Rightarrow> (Panic, StreamC c'))
   | AeadC c \<Rightarrow> (case streamConn_ReadFrom P rnd src c of
         (Ret (n, e), c') \<Rightarrow> (Ret e, AeadC c') | (Err e, c') \<Rightarrow> (Ret (Some e), AeadC c') | (Panic, c') \<Rightarrow> (Panic, AeadC c'))
   | DefaultC c \<Rightarrow> (case copy_buffer (rd_reads MaxTcpBufferSize src) 0 c of (n, e, c') \<Rightarrow> (Ret e, DefaultC c')))"

definition ioCopy_from :: "('blk, 'st) prims \<Rightarrow> conn \<Rightarrow> 'st ssConn \<Rightarrow> (error option \<times> conn) go" where
  "ioCopy_from P w d = (case d of
     StreamC c \<Rightarrow> (case fst (StreamConn_WriteTo P w c) of
         Ret (n, e, w') \<Rightarrow> Ret (e, w') | Err e \<Rightarrow> Ret (Some e, w) | Panic \<Rightarrow> Panic)
   | AeadC c \<Rightarrow> (case fst (streamConn_WriteTo P w c) of
         Ret (Some (n, e, w')) \<Rightarrow> Ret (e, w') | Ret None \<Rightarrow> Panic | Err e \<Rightarrow> Ret (Some e, w) | Panic \<Rightarrow> Panic)
   | DefaultC c \<Rightarrow> (case copy_buffer (rd_reads MaxTcpBufferSize (inp c)) 0 w of (n, e, w') \<Rightarrow> Ret (e, w')))"

text \<open>
  \<open>RelayToProxyServer\<close>, with the dialler and the outbound wrapper: the upload from \<open>src\<close>. The result is
  how the copy ended and the connection to the proxy server.
\<close>

definition RelayToProxyServer :: "('blk, 'st) prims \<Rightarrow> (nat \<Rightarrow> bytes go) \<Rightarrow> (string \<Rightarrow> conn go) \<Rightarrow> (conn \<Rightarrow> 'st ssConn)
    \<Rightarrow> string \<Rightarrow> string \<Rightarrow> reader \<Rightarrow> (error option \<times> 'st ssConn) go" where
  "RelayToProxyServer P rnd dial outbound proxyServerAddr remoteServerAddr src =
     bind_go (dial proxyServerAddr) (\<lambda>c.
     bind_go (fst (ParseAddress remoteServerAddr (replicate MaxAddressBufferSize 0))) (\<lambda>addr.
     case ioCopy_into P rnd src (ss_Write P rnd addr (outbound c)) of
       (Ret e, d) \<Rightarrow> Ret (e, d) | (Err e, d) \<Rightarrow> Err e | (Panic, d) \<Rightarrow> Panic))"

text \<open>
  \<open>RelayToServer\<close>, with the inbound wrapper and the dialler: the address it dials, how the copy to the
  dialled connection ended, that connection, and the inbound connection where the copy started.
\<close>

definition RelayToServer :: "('blk, 'st) prims \<Rightarrow> (conn \<Rightarrow> 'st ssConn) \<Rightarrow> (string \<Rightarrow> conn go) \<Rightarrow> conn
    \<Rightarrow> (string \<times> error option \<times> conn) go" where
  "RelayToServer P inbound dial c =
     (case ParseAddressFrom (ss_ReadFull P) (inbound c, replicate MaxAddressBufferSize 0) of
        (Ret addr, (d, _)) \<Rightarrow>
          (let remoteAddr = Address_String addr in
           bind_go (dial remoteAddr) (\<lambda>w. bind_go (ioCopy_from P w d) (\<lambda>(e, w'). Ret (remoteAddr, e, w'))))
      | (Err e, _) \<Rightarrow> Err e
      | (Panic, _) \<Rightarrow> Panic)"

text \<open>\<open>TCPDirectRelayer.RelayToServer\<close>: the upload to the dialled target.\<close>

definition DirectRelayToServer :: "(string \<Rightarrow> conn go) \<Rightarrow> string \<Rightarrow> reader \<Rightarrow> (error option \<times> conn) go" where
  "DirectRelayToServer dial remoteServerAddr src = bind_go (dial remoteServerAddr) (\<lambda>w.
     case copy_buffer (rd_reads MaxTcpBufferSize src) 0 w of (n, e, w') \<Rightarrow> Ret (e, w'))"

section \<open>An AEAD connection as a reader\<close>

definition sc_delivers :: "('blk, 'st) prims \<Rightarrow> streamConn \<Rightarrow> bytes \<Rightarrow> bool" where
  "sc_delivers P sc p \<longleftrightarrow> (\<exists>sc' r. (if sR sc = None then initReader P sc = (Ret (), sc') else sc' = sc)
     \<and> sR sc' = Some r \<and> pending (r, sConn sc') p)"

lemma sc_delivers_started: "sR sc = Some r \<Longrightarrow> sc_delivers P sc p \<longleftrightarrow> pending (r, sConn sc) p"
  by (auto simp: sc_delivers_def)

lemma sc_delivers_first:
  assumes "sc_delivers P sc p"
  obtains sc' r where "sR sc' = Some r" "pending (r, sConn sc') p"
    "\<And>k. streamConn_Read P k sc = streamConn_Read P k sc'" "\<And>w. streamConn_WriteTo P w sc = streamConn_WriteTo P w sc'"
proof -
  obtain sc' r where "if sR sc = None then initReader P sc = (Ret (), sc') else sc' = sc" "sR sc' = Some r" "pending (r, sConn sc') p"
    using assms by (auto simp: sc_delivers_def)
  then show thesis
    by (intro that [of sc' r]) (auto simp: streamConn_Read_def streamConn_WriteTo_def with_reader_def bindP_def split: if_splits)
qed

lemma Read_length: "streamReader_Read k s = (Ret x, s') \<Longrightarrow> length x \<le> k"
  by (auto simp: streamReader_Read_def split: prod.splits go.splits if_splits)

interpretation aead_conn: byte_reader "streamConn_Read P" "sc_delivers P" for P
proof
  fix s and k :: nat
  assume "sc_delivers P s []" "0 < k"
  then obtain s1 r where r: "sR s1 = Some r" "pending (r, sConn s1) []" "streamConn_Read P k s = streamConn_Read P k s1"
    using sc_delivers_first by metis
  then obtain c' where "streamReader_Read k (r, sConn s1) = (Err EOF, (r, c'))"
    using Read_pending [OF r(2) \<open>0 < k\<close>] by auto
  then show "\<exists>s'. streamConn_Read P k s = (Err EOF, s')" using streamConn_Read_step [OF r(1)] r(3) by fastforce
next
  fix s p and k :: nat
  assume "sc_delivers P s p" "p \<noteq> []" "0 < k"
  then obtain s1 r where r: "sR s1 = Some r" "pending (r, sConn s1) p" "streamConn_Read P k s = streamConn_Read P k s1"
    using sc_delivers_first by metis
  then obtain x q r' c' where x: "streamReader_Read k (r, sConn s1) = (Ret x, (r', c'))" "x \<noteq> []" "p = x @ q" "pending (r', c') q"
    using Read_pending [OF r(2) \<open>0 < k\<close>] \<open>p \<noteq> []\<close> by auto
  have "sc_delivers P (s1\<lparr>sR := Some r', sConn := c'\<rparr>) q" using x(4) by (simp add: sc_delivers_started)
  then show "\<exists>x q s'. streamConn_Read P k s = (Ret x, s') \<and> x \<noteq> [] \<and> length x \<le> k \<and> p = x @ q \<and> sc_delivers P s' q"
    using streamConn_Read_step [OF r(1) x(1)] r(3) x Read_length [OF x(1)] by metis
qed

lemma WriteTo_pending:
  assumes "pending (r, c) p" "\<not> wfail w"
  shows "\<exists>rc'. streamReader_WriteTo w (r, c) = (Some (length p, None, w\<lparr>out := out w @ p\<rparr>), rc')"
proof -
  obtain s ms f s' where ms: "\<forall>m \<in> set ms. chunk_ok m \<and> m \<noteq> []" and f: "aead.frames s ms = (f, s')"
    and sync: "chunk_sync s (r\<lparr>remainbuf := []\<rparr>, c) f" and p: "p = remainbuf r @ concat ms"
    using assms(1) by (auto simp: pending_def)
  let ?w = "w\<lparr>out := out w @ remainbuf r\<rparr>"
  have c: "concat (inp c) = f" and fuel: "length ms < Suc (length f)"
    using sync frames_longer [OF f] by (auto simp: chunk_sync_def less_Suc_eq_le)
  have w: "\<not> wfail ?w" using assms(2) by simp
  have rb: "remainbuf r = [] \<Longrightarrow> r\<lparr>remainbuf := []\<rparr> = r" by simp
  obtain rc' where "writeTo_loop (Suc (length f)) (length (remainbuf r)) ?w (r\<lparr>remainbuf := []\<rparr>, c)
      = (Some (length (remainbuf r) + length (concat ms), None, ?w\<lparr>out := out ?w @ concat ms\<rparr>), rc')"
    using writeTo_loop_ok [OF ms f sync w fuel] by blast
  then show ?thesis using assms(2) c p
    by (cases "remainbuf r = []") (simp_all add: streamReader_WriteTo_def Let_def rb del: writeTo_loop.simps)
qed

lemma streamConn_WriteTo_delivers:
  assumes "sc_delivers P sc p" "\<not> wfail w"
  shows "\<exists>sc'. streamConn_WriteTo P w sc = (Ret (Some (length p, None, w\<lparr>out := out w @ p\<rparr>)), sc')"
proof -
  obtain s1 r where r: "sR s1 = Some r" "pending (r, sConn s1) p" "streamConn_WriteTo P w sc = streamConn_WriteTo P w s1"
    using sc_delivers_first [OF assms(1)] by metis
  obtain r' c' where "streamReader_WriteTo w (r, sConn s1) = (Some (length p, None, w\<lparr>out := out w @ p\<rparr>), (r', c'))"
    using WriteTo_pending [OF r(2) assms(2)] by fastforce
  then show ?thesis using r(1,3) by (simp add: streamConn_WriteTo_def with_reader_def bindP_def)
qed

text \<open>The same connection behind the interface of the relays.\<close>

definition ss_delivers :: "('blk, 'st) prims \<Rightarrow> 'st ssConn \<Rightarrow> bytes \<Rightarrow> bool" where
  "ss_delivers P d p \<longleftrightarrow> (\<exists>sc. d = AeadC sc \<and> sc_delivers P sc p)"

interpretation ss_reader: byte_reader "ss_Read P" "ss_delivers P" for P
proof
  fix d and k :: nat
  assume "ss_delivers P d []" "0 < k"
  then obtain sc where sc: "d = AeadC sc" "sc_delivers P sc []" by (auto simp: ss_delivers_def)
  then show "\<exists>d'. ss_Read P k d = (Err EOF, d')"
    using aead_conn.read_end [OF sc(2) \<open>0 < k\<close>] by (auto simp: ss_Read_def)
next
  fix d p and k :: nat
  assume "ss_delivers P d p" "p \<noteq> []" "0 < k"
  then obtain sc where sc: "d = AeadC sc" "sc_delivers P sc p" by (auto simp: ss_delivers_def)
  obtain x q sc' where "streamConn_Read P k sc = (Ret x, sc')" "x \<noteq> []" "length x \<le> k" "p = x @ q" "sc_delivers P sc' q"
    using aead_conn.read_some [OF sc(2) \<open>p \<noteq> []\<close> \<open>0 < k\<close>] by blast
  then show "\<exists>x q d'. ss_Read P k d = (Ret x, d') \<and> x \<noteq> [] \<and> length x \<le> k \<and> p = x @ q \<and> ss_delivers P d' q"
    using sc(1) by (intro exI [of _ x] exI [of _ q] exI [of _ "AeadC sc'"]) (simp add: ss_Read_def ss_delivers_def)
qed

interpretation ss_full: full_reader "ss_ReadFull P" "ss_delivers P" for P
proof
  fix d p n
  assume "ss_delivers P d p" "n \<le> length p"
  then show "\<exists>d'. ss_ReadFull P n d = ((take n p, Ret ()), d') \<and> ss_delivers P d' (drop n p)"
    unfolding ss_ReadFull_def by (intro ss_reader.ReadFull_enough) simp_all
qed

section \<open>Through the tunnel\<close>

lemma ParseAddress_join:
  assumes "set host \<inter> {CHR ''['', CHR '']''} = {}" "host \<noteq> []" "length host \<le> 255" "port \<le> 65535" "259 \<le> length b"
  shows "fst (ParseAddress (joinHostPort host (itoa_nat port)) b) = Ret (encode (saddr_of host port))"
proof -
  have wf: "wf_saddr (saddr_of host port)" using assms(3,4) by (intro wf_saddr_of) auto
  have "splitHostPort (joinHostPort host (itoa_nat port)) = Ret (host, itoa_nat port)"
    by (rule split_join_host_port) (use assms(1) in auto)
  moreover have "atoi (itoa_nat port) = (int port, None)" using assms(4) by (intro atoi_itoa_nat) simp
  ultimately show ?thesis using assms(2-5) length_encode_le [OF wf]
    by (simp add: ParseAddress_def ParseAddressFromHostPort_spec Let_def)
qed

lemma streamConn_ReadFrom_ok:
  assumes "sW sc = Some w" "\<not> wfail (sConn sc)" "aead.frames w (chunks_of r) = (f, w')"
  shows "streamConn_ReadFrom P rnd r sc =
    (Ret (length (concat r), None), sc\<lparr>sW := Some w', sConn := (sConn sc)\<lparr>out := out (sConn sc) @ f\<rparr>\<rparr>)"
  using streamWriter_ReadFrom_ok [OF assms(2,3)] assms(1)
  by (simp add: streamConn_ReadFrom_def with_writer_def bindP_def)

text \<open>What is on the wire after the address and the source are sent, and what a peer reads from it.\<close>

lemma upload_wire:
  assumes "rnd (SaltSize ci) = Ret salt" "AEAD_GetEncrypter P ci salt = Ret A" "\<not> wfail c" "out c = []"
    and "aead.frames (newStreamWriter A) (msg_chunks a @ chunks_of src) = (f, w')"
  shows "\<exists>sc. ioCopy_into P rnd src (ss_Write P rnd a (AeadC (NewStreamConn c ci))) = (Ret None, AeadC sc)
    \<and> out (sConn sc) = salt @ f"
proof -
  obtain f1 w1 where f1: "aead.frames (newStreamWriter A) (msg_chunks a) = (f1, w1)" by fastforce
  then obtain f2 where f2: "aead.frames w1 (chunks_of src) = (f2, w')" "f = f1 @ f2"
    using assms(5) by (auto simp: aead.frames_append split: prod.splits)
  let ?s0 = "(NewStreamConn (c\<lparr>out := salt\<rparr>) ci)\<lparr>sW := Some (newStreamWriter A)\<rparr>"
  have "streamConn_Write P rnd a (NewStreamConn c ci) = streamConn_Write P rnd a ?s0"
    using initWriter_ok [of rnd ci salt P A c] assms(1-4) by (simp add: streamConn_Write_def with_writer_def bindP_def NewStreamConn_def)
  then obtain s1 where s1: "snd (streamConn_Write P rnd a (NewStreamConn c ci)) = s1" "sW s1 = Some w1"
      "\<not> wfail (sConn s1)" "out (sConn s1) = salt @ f1"
    using streamConn_Write_ok [of ?s0 "newStreamWriter A" a f1 w1 P rnd] f1 assms(3) by (simp add: NewStreamConn_def)
  show ?thesis using streamConn_ReadFrom_ok [OF s1(2,3) f2(1), of P rnd] s1 f2(2)
    by (simp add: ss_Write_def ioCopy_into_def)
qed

lemma wire_delivers:
  assumes "length salt = SaltSize ci" "AEAD_GetEncrypter P ci salt = Ret A" "aead_laws A"
    and "aead.frames (newStreamWriter A) ms = (f, w')" "\<forall>m \<in> set ms. chunk_ok m \<and> m \<noteq> []" "concat (inp d) = salt @ f"
  shows "ss_delivers P (AeadC (NewStreamConn d ci)) (concat ms)"
proof -
  obtain d' where d': "initReader P (NewStreamConn d ci) = (Ret (), (NewStreamConn d' ci)\<lparr>sR := Some (newStreamReader A)\<rparr>)"
      "concat (inp d') = f"
    using initReader_ok [OF assms(6,1), of P A] assms(2) by (auto simp: AEAD_same)
  have "pending (newStreamReader A, d') (concat ms)"
    using assms(4,5) stream_sync_start [OF assms(3) d'(2)] by (fastforce simp: pending_def newStreamReader_def)
  then show ?thesis using d'(1) by (auto simp: ss_delivers_def sc_delivers_def NewStreamConn_def)
qed

section \<open>Properties\<close>

text \<open>
  C1. The tunnel end to end: the client relay, given a target (a domain name or an IPv4 address and a
  port) and a source, ends without an error; the server relay that receives its bytes in any
  segmentation and has the same AEAD cipher dials exactly that target and copies exactly the bytes of
  the source to it.
\<close>

theorem tcp_tunnel_delivers:
  assumes "rnd (SaltSize ci) = Ret salt" "length salt = SaltSize ci" "AEAD_GetEncrypter P ci salt = Ret A" "aead_laws A"
    and "CHR '':'' \<notin> set host" "set host \<inter> {CHR ''['', CHR '']''} = {}" "host \<noteq> []" "length host \<le> 255" "port \<le> 65535"
    and "remote = joinHostPort host (itoa_nat port)"
    and "dial proxy = Ret c" "\<not> wfail c" "out c = []"
    and "dial' remote = Ret w" "\<not> wfail w"
  shows "\<exists>sc. RelayToProxyServer P rnd dial (makeStreamConn None (Some ci)) proxy remote src = Ret (None, AeadC sc)
    \<and> (\<forall>d. concat (inp d) = out (sConn sc) \<longrightarrow>
        RelayToServer P (makeStreamConn None (Some ci)) dial' d = Ret (remote, None, w\<lparr>out := out w @ concat src\<rparr>))"
proof -
  let ?sa = "saddr_of host port" and ?bound = "makeStreamConn None (Some ci)"
  have wf: "wf_saddr ?sa" using assms(8,9) by (intro wf_saddr_of) auto
  have pa: "fst (ParseAddress remote (replicate MaxAddressBufferSize 0)) = Ret (encode ?sa)"
    unfolding assms(10) using assms(6-9) by (intro ParseAddress_join) (auto simp: MaxAddressBufferSize_def)
  obtain f w' where f: "aead.frames (newStreamWriter A) (msg_chunks (encode ?sa) @ chunks_of src) = (f, w')" by fastforce
  obtain sc where sc: "ioCopy_into P rnd src (ss_Write P rnd (encode ?sa) (AeadC (NewStreamConn c ci))) = (Ret None, AeadC sc)"
      "out (sConn sc) = salt @ f"
    using upload_wire [of rnd ci salt P A c] assms(1,3,12,13) f by blast
  have up: "RelayToProxyServer P rnd dial ?bound proxy remote src = Ret (None, AeadC sc)"
    using assms(11) pa sc(1) by (simp add: RelayToProxyServer_def makeStreamConn_def)
  moreover have "RelayToServer P ?bound dial' d = Ret (remote, None, w\<lparr>out := out w @ concat src\<rparr>)" if "concat (inp d) = out (sConn sc)" for d
  proof -
    have "ss_delivers P (?bound d) (encode ?sa @ concat src)"
      using wire_delivers [OF assms(2-4) f, of d] that sc(2) msg_chunks_ok [of "encode ?sa"] chunks_of_length [of src]
      by (simp add: makeStreamConn_def msg_chunks_concat chunks_of_concat chunk_ok_def ball_Un)
    then obtain d1 b1 where p: "ParseAddressFrom (ss_ReadFull P) (?bound d, replicate MaxAddressBufferSize 0) = (Ret (encode ?sa), (d1, b1))"
        "ss_delivers P d1 (concat src)"
      using ss_full.ParseAddressFrom_encode [OF wf, of P "?bound d" "concat src" "replicate MaxAddressBufferSize 0"]
      by (auto simp: MaxAddressBufferSize_def)
    then obtain s1 where s1: "d1 = AeadC s1" "sc_delivers P s1 (concat src)" by (auto simp: ss_delivers_def)
    have "Address_String (encode ?sa) = remote" using wf assms(5,10) by (simp add: Address_String_def saddr_host_no_colon)
    then show ?thesis using p(1) s1(1) assms(14) streamConn_WriteTo_delivers [OF s1(2) assms(15)]
      by (auto simp: RelayToServer_def Let_def ioCopy_from_def)
  qed
  ultimately show ?thesis by blast
qed

theorem tcp_tunnel_delivers_witness:
  "\<exists>sc. RelayToProxyServer toy_prims toy_rnd (\<lambda>_. Ret no_conn) (makeStreamConn None (Some toy_ci)) ''s:1'' ''a.org:443'' [[1, 2], [3]] = Ret (None, AeadC sc)
    \<and> RelayToServer toy_prims (makeStreamConn None (Some toy_ci)) (\<lambda>_. Ret no_conn) (no_conn\<lparr>inp := [out (sConn sc)]\<rparr>)
      = Ret (''a.org:443'', None, no_conn\<lparr>out := [1, 2, 3]\<rparr>)"
proof -
  have r: "''a.org:443'' = joinHostPort ''a.org'' (itoa_nat 443)" by code_simp
  from tcp_tunnel_delivers [where rnd = toy_rnd and ci = toy_ci and salt = "replicate 16 9" and P = toy_prims and A = toy_aead
      and host = "''a.org''" and port = 443 and remote = "''a.org:443''" and dial = "\<lambda>_. Ret no_conn" and proxy = "''s:1''" and c = no_conn
      and dial' = "\<lambda>_. Ret no_conn" and w = no_conn and src = "[[1, 2], [3]]", OF toy_cipher(1,2,3) toy_laws(2)] r
  show ?thesis by (auto simp: no_conn_def)
qed

end
