(* ===== verification/Udp_Relay.thy ===== *)
theory Udp_Relay
  imports Tcp_Relay
begin

text \<open>
  The UDP relays of \<open>relay/udp.go\<close> and \<open>relay/udp_natmap.go\<close>, and the datagram wrapper of
  \<open>client/conn_wrapper.go\<close>. Addresses of sockets are their text form; \<open>net.ResolveUDPAddr\<close>, which may
  ask the network, is an argument. A handler gets the buffer a datagram was read into and its length.
\<close>

section \<open>Model of relay/udp.go\<close>

type_synonym udp_read = "string \<Rightarrow> bytes \<Rightarrow> nat \<Rightarrow> (bytes \<times> string) go"
type_synonym udp_write = "string \<Rightarrow> bytes \<Rightarrow> nat \<Rightarrow> bytes go"

text \<open>\<open>ParseAddress\<close> into a buffer of the address pool.\<close>

definition pool_address :: "string \<Rightarrow> Address go" where
  "pool_address a = fst (ParseAddress a (replicate MaxAddressBufferSize 0))"

definition plain_read :: "string \<Rightarrow> udp_read" where
  "plain_read targetAddr _ buf n = bind_go (slice buf 0 (int n)) (\<lambda>d. Ret (d, targetAddr))"

definition plain_write :: udp_write where
  "plain_write _ buf n = slice buf 0 (int n)"

text \<open>The handlers of the SOCKS5 server without a proxy node: the header of a datagram names its target.\<close>

definition socks_read :: "(string \<Rightarrow> string go) \<Rightarrow> udp_read" where
  "socks_read resolve _ buf n =
     (if n < 3 then Err ErrShortBuffer
      else bind_go (slice buf 3 (int n)) (\<lambda>b. bind_go (ParseAddressFromBuffer b) (\<lambda>addr.
        bind_go (resolve (Address_String addr)) (\<lambda>targetAddr.
        bind_go (slice buf (3 + int (length addr)) (int n)) (\<lambda>d. Ret (d, targetAddr))))))"

definition socks_write :: udp_write where
  "socks_write src buf n = bind_go (pool_address src) (\<lambda>addr.
     let b1 = copy_into buf (3 + length addr) (take n buf);
         b2 = copy_into b1 3 addr;
         b3 = b2[0 := 0, 1 := 0, 2 := 0] in
     slice b3 0 (3 + int (length addr) + int n))"

text \<open>The handlers of the SS client for a known target, and for the SOCKS5 server in front of it.\<close>

definition ss_read_remote :: "string \<Rightarrow> string \<Rightarrow> udp_read" where
  "ss_read_remote remoteServerAddr targetAddr _ buf n = bind_go (pool_address remoteServerAddr) (\<lambda>addr.
     let b1 = copy_into buf (length addr) (take n buf);
         b2 = copy_into b1 0 addr in
     bind_go (slice b2 0 (int n + int (length addr))) (\<lambda>d. Ret (d, targetAddr)))"

definition ss_write_remote :: udp_write where
  "ss_write_remote src buf n = bind_go (pool_address src) (\<lambda>addr. slice buf (int (length addr)) (int n))"

definition ss_read_socks :: "string \<Rightarrow> udp_read" where
  "ss_read_socks targetAddr _ buf n =
     (if n < 3 then Err ErrShortBuffer else bind_go (slice buf 3 (int n)) (\<lambda>d. Ret (d, targetAddr)))"

definition ss_write_socks :: udp_write where
  "ss_write_socks _ buf n =
     (if n < 3 then Err ErrShortBuffer
      else let b1 = copy_into buf 3 (take n buf);
               b2 = b1[0 := 0, 1 := 0, 2 := 0] in
           slice b2 0 (3 + int n))"

text \<open>Which handlers a relay installs, and the address it expects replies from.\<close>

definition UDPDirect_RelayToServer :: "(string \<Rightarrow> string go) \<Rightarrow> string \<Rightarrow> (udp_read \<times> udp_write \<times> string) go" where
  "UDPDirect_RelayToServer resolve remoteServerAddr =
     (if remoteServerAddr \<noteq> [] then bind_go (resolve remoteServerAddr) (\<lambda>t. Ret (plain_read t, plain_write, []))
      else Ret (socks_read resolve, socks_write, []))"

definition UDP_RelayToProxyServer :: "(string \<Rightarrow> string go) \<Rightarrow> string \<Rightarrow> string \<Rightarrow> (udp_read \<times> udp_write \<times> string) go" where
  "UDP_RelayToProxyServer resolve proxyServerAddr remoteServerAddr =
     bind_go (resolve proxyServerAddr) (\<lambda>t.
     if remoteServerAddr \<noteq> [] then Ret (ss_read_remote remoteServerAddr t, ss_write_remote, proxyServerAddr)
     else Ret (ss_read_socks t, ss_write_socks, proxyServerAddr))"

text \<open>
  \<open>IoCopyBidirectionalForPacket\<close>: what has been sent on both sides, the first client address (the
  channel that starts the second loop), how the relay ended, and whether a handler panicked, which
  ends the program. An event is a datagram read into a buffer that held \<open>junk\<close>, or a failing read.
\<close>

record prelay =
  pr_src :: "string option"
  pr_up :: "(bytes \<times> string) list"
  pr_down :: "(bytes \<times> string) list"
  pr_end :: "error option"
  pr_crash :: bool

datatype pevent = FromSrc bytes bytes string | SrcFails error | FromDst bytes bytes string | DstFails error

definition prelay_start :: prelay where
  "prelay_start = \<lparr>pr_src = None, pr_up = [], pr_down = [], pr_end = None, pr_crash = False\<rparr>"

definition received :: "bytes \<Rightarrow> bytes \<Rightarrow> bytes" where
  "received junk d = copy_into junk 0 d"

fun prelay_event :: "udp_read \<Rightarrow> udp_write \<Rightarrow> string \<Rightarrow> pevent \<Rightarrow> prelay \<Rightarrow> prelay" where
  "prelay_event rd wr serverAddr (FromSrc junk d a) s =
     (let s1 = s\<lparr>pr_src := (case pr_src s of None \<Rightarrow> Some a | Some x \<Rightarrow> Some x)\<rparr> in
      case rd a (received junk d) (min (length d) (length junk)) of
        Ret (b, t) \<Rightarrow> s1\<lparr>pr_up := pr_up s1 @ [(b, t)]\<rparr>
      | Err e \<Rightarrow> s1
      | Panic \<Rightarrow> s1\<lparr>pr_crash := True\<rparr>)"
| "prelay_event rd wr serverAddr (SrcFails e) s = s\<lparr>pr_end := Some e\<rparr>"
| "prelay_event rd wr serverAddr (FromDst junk d a) s =
     (case pr_src s of
        None \<Rightarrow> s
      | Some src \<Rightarrow>
          if serverAddr \<noteq> [] \<and> a \<noteq> serverAddr then s
          else case wr a (received junk d) (min (length d) (length junk)) of
            Ret b \<Rightarrow> s\<lparr>pr_down := pr_down s @ [(b, src)]\<rparr>
          | Err e \<Rightarrow> s
          | Panic \<Rightarrow> s\<lparr>pr_crash := True\<rparr>)"
| "prelay_event rd wr serverAddr (DstFails e) s = (case pr_src s of None \<Rightarrow> s | Some _ \<Rightarrow> s\<lparr>pr_end := Some e\<rparr>)"

definition prelay_step :: "udp_read \<Rightarrow> udp_write \<Rightarrow> string \<Rightarrow> pevent \<Rightarrow> prelay \<Rightarrow> prelay" where
  "prelay_step rd wr serverAddr ev s =
     (if pr_crash s \<or> pr_end s \<noteq> None then s else prelay_event rd wr serverAddr ev s)"

section \<open>Model of client/conn\_wrapper.go\<close>

text \<open>\<open>Write(b)\<close> through the wrapper's buffer: the datagram it sends. \<open>Read\<close>: the payload of one received into the buffer.\<close>

definition wrapper_Write :: "string \<Rightarrow> bytes \<Rightarrow> bytes \<Rightarrow> bytes go" where
  "wrapper_Write remoteAddr buf b = bind_go (pool_address remoteAddr) (\<lambda>addr.
     let b1 = buf[0 := 0, 1 := 0, 2 := 0];
         b2 = copy_into b1 3 addr;
         b3 = copy_into b2 (3 + length addr) b in
     slice b3 0 (3 + int (length addr) + int (length b)))"

definition wrapper_Read :: "bytes \<Rightarrow> nat \<Rightarrow> nat \<Rightarrow> bytes go" where
  "wrapper_Read buf n k = bind_go (slice buf 3 (int n)) (\<lambda>b. bind_go (ParseAddressFromBuffer b) (\<lambda>addr.
     bind_go (slice buf (3 + int (length addr)) (int n)) (\<lambda>d. Ret (take k d))))"

section \<open>Model of relay/udp\_natmap.go\<close>

text \<open>The handlers of the SS server: the payload of a datagram starts with its target.\<close>

definition natmap_read :: "(string \<Rightarrow> string go) \<Rightarrow> udp_read" where
  "natmap_read resolve _ buf n =
     bind_go (slice buf 0 (int n)) (\<lambda>b. bind_go (ParseAddressFromBuffer b) (\<lambda>addr.
     bind_go (resolve (Address_String addr)) (\<lambda>targetAddr.
     bind_go (slice buf (int (length addr)) (int n)) (\<lambda>d. Ret (d, targetAddr)))))"

definition natmap_write :: udp_write where
  "natmap_write src buf n = bind_go (pool_address src) (\<lambda>addr.
     let b1 = copy_into buf (length addr) (take n buf);
         b2 = copy_into b1 0 addr in
     slice b2 0 (int (length addr) + int n))"

text \<open>The handlers \<open>DirectRelayToServer\<close> and \<open>RelayToServer\<close> start the relay with.\<close>

definition Natmap_DirectRelayToServer :: "(string \<Rightarrow> string go) \<Rightarrow> string \<Rightarrow> (udp_read \<times> udp_write) go" where
  "Natmap_DirectRelayToServer resolve remoteAddr = bind_go (resolve remoteAddr) (\<lambda>t. Ret (plain_read t, plain_write))"

definition Natmap_RelayToServer :: "(string \<Rightarrow> string go) \<Rightarrow> (udp_read \<times> udp_write) go" where
  "Natmap_RelayToServer resolve = Ret (natmap_read resolve, natmap_write)"

text \<open>
  \<open>relayUDP\<close>: the map from clients to sockets, the running goroutines \<open>handleDstToRelayer\<close> (client,
  socket, address of the first target, socket still open), the sockets made so far, and what was sent:
  to targets with client and socket, to clients with socket and sender.
\<close>

record nat_handler =
  h_src :: string
  h_conn :: nat
  h_target :: string
  h_open :: bool

record natmap =
  nm_cache :: "string \<Rightarrow> nat option"
  nm_handlers :: "nat_handler list"
  nm_next :: nat
  nm_sent :: "(string \<times> nat \<times> bytes \<times> string) list"
  nm_back :: "(nat \<times> string \<times> bytes \<times> string) list"
  nm_crash :: bool

definition NewNatmapUDPRelayer :: natmap where
  "NewNatmapUDPRelayer = \<lparr>nm_cache = \<lambda>_. None, nm_handlers = [], nm_next = 0, nm_sent = [], nm_back = [], nm_crash = False\<rparr>"

text \<open>
  The steps: the main loop handles a datagram of a client (and may fail to make a socket, or find one
  that its goroutine has closed), a goroutine handles a datagram of its socket, closes the socket when
  a read fails, and then deletes the entry of its client.
\<close>

inductive relayUDP :: "udp_read \<Rightarrow> udp_write \<Rightarrow> natmap \<Rightarrow> natmap \<Rightarrow> bool" for rd wr where
  client_skipped: "\<not> nm_crash s \<Longrightarrow> rd src buf n = Err e \<Longrightarrow> relayUDP rd wr s s"
| client_panics: "\<not> nm_crash s \<Longrightarrow> rd src buf n = Panic \<Longrightarrow> relayUDP rd wr s (s\<lparr>nm_crash := True\<rparr>)"
| client_no_socket: "\<not> nm_crash s \<Longrightarrow> rd src buf n = Ret (b, t) \<Longrightarrow> nm_cache s src = None \<Longrightarrow> relayUDP rd wr s s"
| client_new: "\<not> nm_crash s \<Longrightarrow> rd src buf n = Ret (b, t) \<Longrightarrow> nm_cache s src = None \<Longrightarrow>
    relayUDP rd wr s (s\<lparr>nm_cache := (nm_cache s)(src := Some (nm_next s)),
      nm_handlers := nm_handlers s @ [\<lparr>h_src = src, h_conn = nm_next s, h_target = t, h_open = True\<rparr>],
      nm_next := Suc (nm_next s), nm_sent := nm_sent s @ [(src, nm_next s, b, t)]\<rparr>)"
| client_known: "\<not> nm_crash s \<Longrightarrow> rd src buf n = Ret (b, t) \<Longrightarrow> nm_cache s src = Some c \<Longrightarrow>
    h \<in> set (nm_handlers s) \<Longrightarrow> h_conn h = c \<Longrightarrow> h_open h \<Longrightarrow>
    relayUDP rd wr s (s\<lparr>nm_sent := nm_sent s @ [(src, c, b, t)]\<rparr>)"
| client_lost: "\<not> nm_crash s \<Longrightarrow> rd src buf n = Ret (b, t) \<Longrightarrow> nm_cache s src = Some c \<Longrightarrow>
    h \<in> set (nm_handlers s) \<Longrightarrow> h_conn h = c \<Longrightarrow> \<not> h_open h \<Longrightarrow> relayUDP rd wr s s"
| reply: "\<not> nm_crash s \<Longrightarrow> h \<in> set (nm_handlers s) \<Longrightarrow> h_open h \<Longrightarrow> h_target h = [] \<or> from = h_target h \<Longrightarrow>
    wr from buf n = Ret b \<Longrightarrow> relayUDP rd wr s (s\<lparr>nm_back := nm_back s @ [(h_conn h, from, b, h_src h)]\<rparr>)"
| reply_foreign: "\<not> nm_crash s \<Longrightarrow> h \<in> set (nm_handlers s) \<Longrightarrow> h_open h \<Longrightarrow> h_target h \<noteq> [] \<Longrightarrow> from \<noteq> h_target h \<Longrightarrow>
    relayUDP rd wr s s"
| reply_skipped: "\<not> nm_crash s \<Longrightarrow> h \<in> set (nm_handlers s) \<Longrightarrow> h_open h \<Longrightarrow> h_target h = [] \<or> from = h_target h \<Longrightarrow>
    wr from buf n = Err e \<Longrightarrow> relayUDP rd wr s s"
| reply_panics: "\<not> nm_crash s \<Longrightarrow> h \<in> set (nm_handlers s) \<Longrightarrow> h_open h \<Longrightarrow> h_target h = [] \<or> from = h_target h \<Longrightarrow>
    wr from buf n = Panic \<Longrightarrow> relayUDP rd wr s (s\<lparr>nm_crash := True\<rparr>)"
| handler_closes: "\<not> nm_crash s \<Longrightarrow> nm_handlers s = hs @ h # hs' \<Longrightarrow> h_open h \<Longrightarrow>
    relayUDP rd wr s (s\<lparr>nm_handlers := hs @ h\<lparr>h_open := False\<rparr> # hs'\<rparr>)"
| handler_deletes: "\<not> nm_crash s \<Longrightarrow> nm_handlers s = hs @ h # hs' \<Longrightarrow> \<not> h_open h \<Longrightarrow>
    relayUDP rd wr s (s\<lparr>nm_handlers := hs @ hs', nm_cache := (nm_cache s)(h_src h := None)\<rparr>)"

section \<open>Headers\<close>

lemma slice_Ret: "0 \<le> i \<Longrightarrow> i \<le> j \<Longrightarrow> j \<le> int (length b) \<Longrightarrow> slice b i j = Ret (take (nat j - nat i) (drop (nat i) b))"
  by (simp add: slice_def)

lemma take_received: "length d \<le> length junk \<Longrightarrow> take (length d) (received junk d) = d"
  and length_received [simp]: "length (received junk d) = length junk"
  by (simp_all add: received_def copy_into_def)

text \<open>Putting a header of \<open>k\<close> bytes in front of the first \<open>n\<close> bytes of a buffer.\<close>

lemma shift_up:
  assumes "k + n \<le> length buf"
  shows "take (k + n) (copy_into buf k (take n buf)) = take k buf @ take n buf"
  using assms by (simp add: copy_into_def)

lemma put_header:
  assumes "length a + n \<le> length buf"
  shows "take (length a + n) (copy_into (copy_into buf (length a) (take n buf)) 0 a) = a @ take n buf"
proof -
  let ?b = "copy_into buf (length a) (take n buf)"
  have "?b = take (length a) ?b @ drop (length a) ?b" by simp
  moreover have "drop (length a) (take (length a + n) ?b) = take n buf"
    using shift_up [OF assms] assms by simp
  ultimately show ?thesis using assms by (simp add: copy_into_def take_drop add.commute)
qed

lemma zero_head:
  assumes "3 \<le> length b"
  shows "b[0 := 0, 1 := 0, 2 := 0] = [0, 0, 0] @ drop 3 b"
proof -
  obtain x y z c where "b = x # y # z # c" using assms by (cases b; cases "tl b"; cases "tl (tl b)") auto
  then show ?thesis by (simp add: numeral_2_eq_2 numeral_3_eq_3)
qed

lemma shift_3:
  assumes "3 + n \<le> length buf"
  shows "take (3 + n) ((copy_into buf 3 (take n buf))[0 := 0, 1 := 0, 2 := 0]) = [0, 0, 0] @ take n buf"
proof -
  have "take n (drop 3 (copy_into buf 3 (take n buf))) = take n buf"
    using shift_up [OF assms] assms by (simp add: copy_into_def)
  then show ?thesis using assms zero_head [of "copy_into buf 3 (take n buf)"] by (simp add: take_Cons')
qed

section \<open>Sockets and clients\<close>

text \<open>The client that had a socket opened, and the target of its first datagram.\<close>

fun opened :: "(string \<times> nat \<times> bytes \<times> string) list \<Rightarrow> nat \<Rightarrow> (string \<times> string) option" where
  "opened [] c = None"
| "opened ((src, c', b, t) # xs) c = (if c' = c then Some (src, t) else opened xs c)"

lemma opened_append: "opened (xs @ ys) c = (case opened xs c of Some v \<Rightarrow> Some v | None \<Rightarrow> opened ys c)"
  by (induction xs c rule: opened.induct) auto

lemma opened_fresh: "\<forall>(src, c', b, t) \<in> set xs. c' < c \<Longrightarrow> opened xs c = None"
  by (induction xs c rule: opened.induct) auto

definition nat_inv :: "natmap \<Rightarrow> bool" where
  "nat_inv s \<longleftrightarrow> (\<forall>src c. nm_cache s src = Some c \<longleftrightarrow> (\<exists>h \<in> set (nm_handlers s). h_src h = src \<and> h_conn h = c))
     \<and> distinct (map h_src (nm_handlers s)) \<and> distinct (map h_conn (nm_handlers s))
     \<and> (\<forall>h \<in> set (nm_handlers s). h_conn h < nm_next s \<and> opened (nm_sent s) (h_conn h) = Some (h_src h, h_target h))
     \<and> (\<forall>(src, c, b, t) \<in> set (nm_sent s). c < nm_next s \<and> (\<exists>t'. opened (nm_sent s) c = Some (src, t')))
     \<and> (\<forall>(c, from, b, src) \<in> set (nm_back s). \<exists>t. opened (nm_sent s) c = Some (src, t) \<and> (t = [] \<or> from = t))"

lemma nat_inv_start: "nat_inv NewNatmapUDPRelayer"
  by (simp add: nat_inv_def NewNatmapUDPRelayer_def)

lemma nat_inv_step:
  assumes "relayUDP rd wr s s'" "nat_inv s"
  shows "nat_inv s'"
  using assms
proof (induction rule: relayUDP.induct)
  case (client_new s src buf n b t)
  let ?c = "nm_next s"
  have i: "\<forall>src c. nm_cache s src = Some c \<longleftrightarrow> (\<exists>h \<in> set (nm_handlers s). h_src h = src \<and> h_conn h = c)"
      "distinct (map h_src (nm_handlers s))" "distinct (map h_conn (nm_handlers s))"
      "\<forall>h \<in> set (nm_handlers s). h_conn h < ?c \<and> opened (nm_sent s) (h_conn h) = Some (h_src h, h_target h)"
      "\<forall>(src, c, b, t) \<in> set (nm_sent s). c < ?c \<and> (\<exists>t'. opened (nm_sent s) c = Some (src, t'))"
      "\<forall>(c, from, b, src) \<in> set (nm_back s). \<exists>t. opened (nm_sent s) c = Some (src, t) \<and> (t = [] \<or> from = t)"
    using client_new.prems unfolding nat_inv_def by blast+
  have fresh: "opened (nm_sent s) ?c = None" using i(5) by (intro opened_fresh) auto
  have new: "src \<notin> h_src ` set (nm_handlers s)" "?c \<notin> h_conn ` set (nm_handlers s)" using i(1,4) client_new.hyps(3) by force+
  show ?case unfolding nat_inv_def using i new fresh
    by (auto simp: opened_append split: option.splits)
next
  case (handler_deletes s hs h hs')
  then show ?case unfolding nat_inv_def by auto (metis image_eqI)+
qed (auto simp: nat_inv_def opened_append split: option.splits)

lemma nat_inv_run:
  assumes "(relayUDP rd wr)\<^sup>*\<^sup>* NewNatmapUDPRelayer s"
  shows "nat_inv s"
  using assms by (induction rule: rtranclp_induct) (auto intro: nat_inv_start nat_inv_step)

section \<open>Datagrams on their way\<close>

lemma slice_from: "length a \<le> n \<Longrightarrow> n \<le> length b \<Longrightarrow> take n b = a @ d \<Longrightarrow> slice b (int (length a)) (int n) = Ret d"
  using take_add [of "length a" "n - length a" b] by (auto simp: slice_def)

lemma pool_address_join:
  assumes "set host \<inter> {CHR ''['', CHR '']''} = {}" "host \<noteq> []" "length host \<le> 255" "port \<le> 65535"
  shows "pool_address (joinHostPort host (itoa_nat port)) = Ret (encode (saddr_of host port))"
  using assms by (simp add: pool_address_def ParseAddress_join MaxAddressBufferSize_def)

lemma natmap_read_ok:
  assumes "wf_saddr sa" "take n buf = encode sa @ d" "n \<le> length buf" "resolve (Address_String (encode sa)) = Ret t"
  shows "natmap_read resolve src buf n = Ret (d, t)"
proof -
  have "length (take n buf) = n" using assms(3) by simp
  then have "length (encode sa) \<le> n" using assms(2) by (metis le_add1 length_append)
  then show ?thesis using slice_from [OF _ assms(3,2)] assms
    by (simp add: natmap_read_def ParseAddressFromBuffer_encode)
qed

lemma natmap_write_ok:
  assumes "pool_address src = Ret a" "length a + n \<le> length buf"
  shows "natmap_write src buf n = Ret (a @ take n buf)"
  using assms put_header [OF assms(2)] by (simp add: natmap_write_def Let_def slice_def nat_add_distrib)

lemma ss_read_socks_ok:
  assumes "take n buf = [0, 0, 0] @ d" "n \<le> length buf"
  shows "ss_read_socks t src buf n = Ret (d, t)"
proof -
  have "length (take n buf) = n" using assms(2) by simp
  then have "n = 3 + length d" using assms(1) by simp
  then show ?thesis using slice_from [of "[0, 0, 0]" n buf d] assms by (simp add: ss_read_socks_def)
qed

lemma ss_write_socks_ok:
  assumes "3 \<le> n" "3 + n \<le> length buf"
  shows "ss_write_socks src buf n = Ret ([0, 0, 0] @ take n buf)"
  using assms shift_3 [OF assms(2)] by (simp add: ss_write_socks_def Let_def slice_def nat_add_distrib)

lemma wrapper_Write_ok:
  assumes "pool_address remote = Ret a" "3 + length a + length b \<le> length buf"
  shows "wrapper_Write remote buf b = Ret ([0, 0, 0] @ a @ b)"
proof -
  have z: "buf[0 := 0, 1 := 0, 2 := 0] = [0, 0, 0] @ drop 3 buf" using assms(2) by (intro zero_head) simp
  have "take (3 + length a + length b) (copy_into (copy_into ([0, 0, 0] @ drop 3 buf) 3 a) (3 + length a) b) = [0, 0, 0] @ a @ b"
    using assms(2) by (simp add: copy_into_def numeral_3_eq_3)
  then show ?thesis using assms unfolding wrapper_Write_def z by (simp add: Let_def slice_def nat_add_distrib)
qed

lemma wrapper_Read_ok:
  assumes "wf_saddr sa" "take n buf = [0, 0, 0] @ encode sa @ d" "n \<le> length buf"
  shows "wrapper_Read buf n k = Ret (take k d)"
proof -
  have "length (take n buf) = n" using assms(3) by simp
  then have n: "n = 3 + length (encode sa) + length d" using assms(2) by simp
  have "slice buf 3 (int n) = Ret (encode sa @ d)"
    using slice_from [of "[0, 0, 0]" n buf "encode sa @ d"] assms(2,3) n by simp
  moreover have "slice buf (3 + int (length (encode sa))) (int n) = Ret d"
    using slice_from [of "[0, 0, 0] @ encode sa" n buf d] assms(2,3) n by simp
  ultimately show ?thesis using assms(1) by (simp add: wrapper_Read_def ParseAddressFromBuffer_encode)
qed

section \<open>Properties\<close>


text \<open>
  C24. The relay of the SS server keeps its clients apart in every run, whatever the schedule of its
  goroutines: no two clients send over one socket, and a datagram is sent back to a client only over a
  socket it opened and only from the first target it contacted over that socket.
\<close>

theorem natmap_isolates_clients:
  assumes "(relayUDP rd wr)\<^sup>*\<^sup>* NewNatmapUDPRelayer s"
  shows "((src1, c, d1, t1) \<in> set (nm_sent s) \<longrightarrow> (src2, c, d2, t2) \<in> set (nm_sent s) \<longrightarrow> src1 = src2)
    \<and> ((c, from, d, src) \<in> set (nm_back s) \<longrightarrow> (\<exists>t. opened (nm_sent s) c = Some (src, t) \<and> (t = [] \<or> from = t)))"
proof -
  have sent: "\<forall>(src, c, b, t) \<in> set (nm_sent s). c < nm_next s \<and> (\<exists>t'. opened (nm_sent s) c = Some (src, t'))"
    and rep: "\<forall>(c, from, b, src) \<in> set (nm_back s). \<exists>t. opened (nm_sent s) c = Some (src, t) \<and> (t = [] \<or> from = t)"
    using nat_inv_run [OF assms] unfolding nat_inv_def by blast+
  have "src1 = src2" if "(src1, c, d1, t1) \<in> set (nm_sent s)" "(src2, c, d2, t2) \<in> set (nm_sent s)"
    using bspec [OF sent that(1)] bspec [OF sent that(2)] by auto
  moreover have "\<exists>t. opened (nm_sent s) c = Some (src, t) \<and> (t = [] \<or> from = t)" if "(c, from, d, src) \<in> set (nm_back s)"
    using bspec [OF rep that] by simp
  ultimately show ?thesis by blast
qed

text \<open>
  A reply that leaves no room for the header of its sender ends the SS server: the goroutine of a
  client whose target sends a datagram of almost the buffer's size slices beyond the buffer.
\<close>

theorem large_reply_crashes_server:
  assumes "\<not> nm_crash s" "h \<in> set (nm_handlers s)" "h_open h" "pool_address (h_target h) = Ret a"
    and "length junk = MaxUdpBufferSize" "MaxUdpBufferSize - length a < length d" "length d \<le> MaxUdpBufferSize"
  shows "natmap_write (h_target h) (received junk d) (length d) = Panic \<and> relayUDP rd natmap_write s (s\<lparr>nm_crash := True\<rparr>)"
proof -
  have "natmap_write (h_target h) (received junk d) (length d) = Panic"
    using assms(4-7) by (simp add: natmap_write_def Let_def slice_def copy_into_def)
  then show ?thesis using relayUDP.reply_panics [OF assms(1-3), of "h_target h" natmap_write] by blast
qed

text \<open>
  When the proxy server is configured by name, its replies are all dropped: the relay compares the
  address a reply comes from with the configured text, not with the address the name stands for.
\<close>

theorem named_proxy_replies_dropped:
  assumes "UDP_RelayToProxyServer resolve proxy remote = Ret (rd, wr, server)" "resolve proxy = Ret t" "proxy \<noteq> t" "proxy \<noteq> []"
    and "\<forall>junk d a. FromDst junk d a \<in> set evs \<longrightarrow> a = t"
  shows "pr_down (fold (prelay_step rd wr server) evs prelay_start) = []"
proof -
  have server: "server = proxy" using assms(1,2) by (simp add: UDP_RelayToProxyServer_def split: if_splits)
  have "pr_down (fold (prelay_step rd wr server) evs s) = pr_down s" for s
    using assms(5)
  proof (induction evs arbitrary: s)
    case (Cons ev evs)
    have "pr_down (prelay_step rd wr server ev s) = pr_down s"
      using Cons.prems assms(3,4) server by (cases ev) (auto simp: prelay_step_def Let_def split: option.splits go.splits)
    then show ?case using Cons by simp
  qed simp
  then show ?thesis by (simp add: prelay_start_def)
qed

section \<open>Witnesses\<close>

definition junk :: bytes where
  "junk = replicate MaxUdpBufferSize 7"

lemma length_junk [simp]: "length junk = MaxUdpBufferSize"
  by (simp add: junk_def)

lemma demo_address: "pool_address ''10.0.0.7:53'' = Ret (encode (IPv4A [10, 0, 0, 7] 53))"
proof -
  have "joinHostPort ''10.0.0.7'' (itoa_nat 53) = ''10.0.0.7:53''" "saddr_of ''10.0.0.7'' 53 = IPv4A [10, 0, 0, 7] 53" by code_simp+
  then show ?thesis using pool_address_join [of "''10.0.0.7''" 53] by simp
qed


theorem natmap_isolates_clients_witness:
  "\<exists>s. (relayUDP (\<lambda>_ b n. Ret (take n b, ''t'')) (\<lambda>_ b n. Ret (take n b)))\<^sup>*\<^sup>* NewNatmapUDPRelayer s
     \<and> (0, ''t'', [2], ''c'') \<in> set (nm_back s) \<and> (\<exists>t. opened (nm_sent s) 0 = Some (''c'', t) \<and> (t = [] \<or> ''t'' = t))"
proof -
  let ?R = "relayUDP (\<lambda>_ b n. Ret (take n b, ''t'')) (\<lambda>_ b n. Ret (take n b))"
  define s1 where "s1 = NewNatmapUDPRelayer\<lparr>nm_cache := (\<lambda>_. None)(''c'' := Some 0),
    nm_handlers := [\<lparr>h_src = ''c'', h_conn = 0, h_target = ''t'', h_open = True\<rparr>], nm_next := 1, nm_sent := [(''c'', 0, [1], ''t'')]\<rparr>"
  have "?R NewNatmapUDPRelayer s1"
    using relayUDP.client_new [of NewNatmapUDPRelayer "\<lambda>_ b n. Ret (take n b, ''t'')" "''c''" "[1]" 1 "[1]" "''t''"]
    by (simp add: s1_def NewNatmapUDPRelayer_def)
  moreover have "?R s1 (s1\<lparr>nm_back := [(0, ''t'', [2], ''c'')]\<rparr>)"
    using relayUDP.reply [of s1 "\<lparr>h_src = ''c'', h_conn = 0, h_target = ''t'', h_open = True\<rparr>" "''t''" "\<lambda>_ b n. Ret (take n b)" "[2]" 1 "[2]"]
    by (simp add: s1_def NewNatmapUDPRelayer_def)
  ultimately have "?R\<^sup>*\<^sup>* NewNatmapUDPRelayer (s1\<lparr>nm_back := [(0, ''t'', [2], ''c'')]\<rparr>)" by auto
  from natmap_isolates_clients [OF this, of _ 0 _ _ _ _ _ "''t''" "[2]" "''c''"] this show ?thesis by fastforce
qed

theorem large_reply_crashes_server_witness:
  "relayUDP (\<lambda>_ _ _. Err EOF) natmap_write
     (NewNatmapUDPRelayer\<lparr>nm_handlers := [\<lparr>h_src = ''c'', h_conn = 0, h_target = ''10.0.0.7:53'', h_open = True\<rparr>]\<rparr>)
     (NewNatmapUDPRelayer\<lparr>nm_handlers := [\<lparr>h_src = ''c'', h_conn = 0, h_target = ''10.0.0.7:53'', h_open = True\<rparr>], nm_crash := True\<rparr>)"
  using large_reply_crashes_server [of "NewNatmapUDPRelayer\<lparr>nm_handlers := [\<lparr>h_src = ''c'', h_conn = 0, h_target = ''10.0.0.7:53'', h_open = True\<rparr>]\<rparr>"
      "\<lparr>h_src = ''c'', h_conn = 0, h_target = ''10.0.0.7:53'', h_open = True\<rparr>" "encode (IPv4A [10, 0, 0, 7] 53)" junk "replicate 16380 0"] demo_address
  by (simp add: NewNatmapUDPRelayer_def MaxUdpBufferSize_def)

theorem named_proxy_replies_dropped_witness:
  "\<exists>rd wr server. UDP_RelayToProxyServer (\<lambda>_. Ret ''1.2.3.4:8388'') ''s.org:8388'' [] = Ret (rd, wr, server)
     \<and> pr_down (fold (prelay_step rd wr server) [FromSrc junk [0, 0, 0, 1, 2, 3, 4, 5, 0, 53, 9] ''c'', FromDst junk [1, 2, 3, 4, 5, 0, 53, 8] ''1.2.3.4:8388''] prelay_start) = []"
proof -
  let ?evs = "[FromSrc junk [0, 0, 0, 1, 2, 3, 4, 5, 0, 53, 9] ''c'', FromDst junk [1, 2, 3, 4, 5, 0, 53, 8] ''1.2.3.4:8388'']"
  obtain rd wr server where r: "UDP_RelayToProxyServer (\<lambda>_. Ret ''1.2.3.4:8388'') ''s.org:8388'' [] = Ret (rd, wr, server)"
    by (auto simp: UDP_RelayToProxyServer_def)
  from named_proxy_replies_dropped [OF r, of "''1.2.3.4:8388''" ?evs] r show ?thesis by (auto simp del: fold.simps)
qed

end
