(* ===== verification/Ssr_Base.thy ===== *)
theory Ssr_Base
  imports Cipher Interfaces Go_Net
begin

unbundle bit_operations_syntax

text \<open>
  What the SSR protocols and obfuscations share: \<open>ssr/tools\<close> (the generator, the digests), the parts of
  \<open>hash/crc32\<close> and \<open>encoding/base64\<close> they use, \<open>ssr/protocol/base.go\<close> and \<open>protocol.go\<close>, and the loop in
  which a protocol takes packets from a buffer of received bytes.
\<close>

section \<open>Library functions\<close>

text \<open>\<open>crc32.ChecksumIEEE\<close>, bit by bit with the reversed polynomial.\<close>

fun crc_bits :: "nat \<Rightarrow> 32 word \<Rightarrow> 32 word" where
  "crc_bits 0 c = c"
| "crc_bits (Suc n) c = crc_bits n (if bit c 0 then drop_bit 1 c XOR 0xEDB88320 else drop_bit 1 c)"

definition crc32 :: "bytes \<Rightarrow> 32 word" where
  "crc32 bs = NOT (foldl (\<lambda>c b. crc_bits 8 (c XOR ucast b)) 0xFFFFFFFF bs)"

definition b64_char :: "nat \<Rightarrow> char" where
  "b64_char n = ''ABCDEFGHIJKLMNOPQRSTUVWXYZabcdefghijklmnopqrstuvwxyz0123456789+/'' ! n"

fun base64 :: "bytes \<Rightarrow> string" where
  "base64 (a # b # c # bs) = (let n = unat a * 65536 + unat b * 256 + unat c in
     map b64_char [n div 262144, n div 4096 mod 64, n div 64 mod 64, n mod 64] @ base64 bs)"
| "base64 [a, b] = (let n = unat a * 65536 + unat b * 256 in
     map b64_char [n div 262144, n div 4096 mod 64, n div 64 mod 64] @ ''='')"
| "base64 [a] = (let n = unat a * 65536 in map b64_char [n div 262144, n div 4096 mod 64] @ ''=='')"
| "base64 [] = []"

text \<open>
  The digests and the block cipher of the standard library: \<open>hmac\<close> with MD5 and SHA-1, SHA-1, and the
  CBC encryption of one block with a zero IV. What is used of them is their lengths.
\<close>

record digests =
  HmacMD5 :: "bytes \<Rightarrow> bytes \<Rightarrow> bytes"
  HmacSHA1 :: "bytes \<Rightarrow> bytes \<Rightarrow> bytes"
  SHA1Sum :: "bytes \<Rightarrow> bytes"
  cbc_block :: "bytes \<Rightarrow> bytes \<Rightarrow> bytes go"

definition digest_laws :: "digests \<Rightarrow> bool" where
  "digest_laws D \<longleftrightarrow> (\<forall>k d. length (HmacMD5 D k d) = 16 \<and> length (HmacSHA1 D k d) = 20)"

text \<open>\<open>Base\<close> and \<open>userData\<close> of \<open>ssr/protocol/base.go\<close>.\<close>

record Base =
  b_Key :: bytes
  b_Overhead :: nat
  b_Param :: string

record userData =
  userKey :: bytes
  userID :: bytes

text \<open>An instance of the laws: digests that only count.\<close>

definition toy_digests :: digests where
  "toy_digests = \<lparr>HmacMD5 = (\<lambda>k d. replicate 16 (byte_of (length k + length d))), HmacSHA1 = (\<lambda>k d. replicate 20 (byte_of (length k + length d))),
     SHA1Sum = (\<lambda>d. replicate 20 (byte_of (length d))), cbc_block = (\<lambda>k b. Ret b)\<rparr>"

lemma toy_digest_laws: "digest_laws toy_digests"
  by (simp add: digest_laws_def toy_digests_def)

definition toy_Base :: Base where
  "toy_Base = \<lparr>b_Key = [1, 2], b_Overhead = 9, b_Param = []\<rparr>"

text \<open>A stream in which every byte arrives alone.\<close>

definition bytewise :: "bytes \<Rightarrow> bytes list" where
  "bytewise w = map (\<lambda>x. [x]) w"

lemma concat_bytewise [simp]: "concat (bytewise w) = w"
  by (induction w) (simp_all add: bytewise_def)

text \<open>
  The sources of randomness: a list of numbers still to be drawn (zeros after its end). \<open>rand.Intn(n)\<close>
  is any number below \<open>n\<close>, and \<open>AppendRandBytes\<close> any bytes, as the list is arbitrary.
\<close>

type_synonym rng = "nat list"

definition Intn :: "nat \<Rightarrow> rng \<Rightarrow> nat \<times> rng" where
  "Intn n g = (case g of [] \<Rightarrow> (0, []) | x # xs \<Rightarrow> (x mod n, xs))"

definition rand_bytes :: "nat \<Rightarrow> rng \<Rightarrow> bytes \<times> rng" where
  "rand_bytes n g = (map byte_of (take n (g @ replicate n 0)), drop n g)"

lemma Intn_less: "0 < n \<Longrightarrow> fst (Intn n g) < n"
  by (cases g) (simp_all add: Intn_def)

lemma length_rand_bytes [simp]: "length (fst (rand_bytes n g)) = n"
  by (simp add: rand_bytes_def)

section \<open>Model of ssr/tools/random.go\<close>

type_synonym XorShift128Plus = "64 word \<times> 64 word"

definition xs_Next :: "XorShift128Plus \<Rightarrow> 64 word \<times> XorShift128Plus" where
  "xs_Next = (\<lambda>(s0, s1).
     let x = s0; y = s1;
         x1 = x XOR push_bit 23 x;
         x2 = x1 XOR (y XOR drop_bit 17 x1 XOR drop_bit 26 y)
     in (x2 + y, (y, x2)))"

definition Uint64 :: "bytes \<Rightarrow> 64 word" where
  "Uint64 bs = word_of_nat (le_val bs)"

text \<open>
  In both functions the padded copy of a short \<open>bin\<close> is assigned to a new variable of the inner scope
  and lost, so that fewer than 16 bytes end in a slice out of range.
\<close>

definition InitFromBin :: "bytes \<Rightarrow> XorShift128Plus go" where
  "InitFromBin bin = (if length bin < 16 then Panic else Ret (Uint64 (take 8 bin), Uint64 (take 8 (drop 8 bin))))"

text \<open>\<open>InitFromBinAndLength\<close> writes the length into the caller's slice: the second result is that slice.\<close>

definition InitFromBinAndLength :: "bytes \<Rightarrow> nat \<Rightarrow> (XorShift128Plus \<times> bytes) go" where
  "InitFromBinAndLength bin n = (if length bin < 16 then Panic
     else let full = le16 n @ drop 2 bin;
              r = (Uint64 (take 8 full), Uint64 (take 8 (drop 8 full)))
          in Ret ((snd \<circ> xs_Next \<circ> snd \<circ> xs_Next \<circ> snd \<circ> xs_Next \<circ> snd \<circ> xs_Next) r, full))"

section \<open>Model of ssr/protocol/base.go\<close>

record authData =
  clientID :: bytes
  connectionID :: "32 word"

text \<open>\<open>next\<close>: the data of the new connection, and the shared data after it, which are equal.\<close>

definition authData_next :: "authData \<Rightarrow> rng \<Rightarrow> authData \<times> rng" where
  "authData_next a g =
     (if 0xff000000 < connectionID a \<or> connectionID a = 0 then
        (case rand_bytes 4 g of (cid, g1) \<Rightarrow> case Intn (2 ^ 32) g1 of (r, g2) \<Rightarrow>
          (\<lparr>clientID = cid, connectionID = (word_of_nat r AND 0xffffff) + 1\<rparr>, g2))
      else (a\<lparr>connectionID := connectionID a + 1\<rparr>, g))"

definition putAuthData :: "nat \<Rightarrow> authData \<Rightarrow> bytes" where
  "putAuthData now a = le32 now @ clientID a @ le32 (unat (connectionID a))"

definition putEncryptedData :: "('blk, 'st) prims \<Rightarrow> digests \<Rightarrow> nat \<Rightarrow> authData \<Rightarrow> bytes \<Rightarrow> nat \<Rightarrow> nat \<Rightarrow> string \<Rightarrow> bytes go" where
  "putEncryptedData P D now a uk pad0 pad1 salt =
     (let encrypt = le32 now @ clientID a @ le32 (unat (connectionID a)) @ le16 pad0 @ le16 pad1 in
      case Kdf P (base64 uk @ salt) 16 of
        None \<Rightarrow> Panic
      | Some cipherKey \<Rightarrow> cbc_block D cipherKey encrypt)"

section \<open>Model of ssr/protocol/protocol.go\<close>

text \<open>\<open>initUserData\<close> of the protocols with users, with the digest of the key they apply.\<close>

definition initUserData :: "(bytes \<Rightarrow> bytes) \<Rightarrow> Base \<Rightarrow> rng \<Rightarrow> userData \<times> rng" where
  "initUserData hashDigest b g =
     (let params = split_chr (CHR '':'') (b_Param b);
          u = (if 1 < length params then
                 (case parseUint (2 ^ 32 - 1) (params ! 0) of
                    (uid, None) \<Rightarrow> \<lparr>userKey = hashDigest (bytes_of (params ! 1)), userID = le32 uid\<rparr>
                  | (_, Some _) \<Rightarrow> \<lparr>userKey = [], userID = replicate 4 0\<rparr>)
               else \<lparr>userKey = [], userID = replicate 4 0\<rparr>) in
      if userKey u = [] then (case rand_bytes 4 g of (uid, g') \<Rightarrow> (\<lparr>userKey = b_Key b, userID = uid\<rparr>, g'))
      else (u, g))"

text \<open>The loop that cuts what is written into pieces of at most \<open>k\<close> bytes.\<close>

function pieces :: "nat \<Rightarrow> bytes \<Rightarrow> bytes list" where
  "pieces k b = (if k = 0 \<or> length b \<le> k then (if b = [] then [] else [b]) else take k b # pieces k (drop k b))"
  by pat_completeness auto
termination
  by (relation "measure (\<lambda>(k, b). length b)") auto

declare pieces.simps [simp del]

lemma concat_pieces: "concat (pieces k b) = b"
  by (induction k b rule: pieces.induct) (subst pieces.simps, auto)

lemma length_pieces: "0 < k \<Longrightarrow> p \<in> set (pieces k b) \<Longrightarrow> length p \<le> k \<and> p \<noteq> []"
proof (induction k b rule: pieces.induct)
  case (1 k b)
  then show ?case by (subst (asm) (2) pieces.simps) (auto split: if_splits)
qed

definition getHeadSize :: "bytes \<Rightarrow> nat \<Rightarrow> nat" where
  "getHeadSize b defaultValue =
     (if length b < 2 then defaultValue
      else let headType = b ! 0 AND 7 in
        if headType = 1 then 7 else if headType = 4 then 19 else if headType = 3 then 4 + unat (b ! 1) else defaultValue)"

definition getDataLength :: "bytes \<Rightarrow> rng \<Rightarrow> nat \<times> rng" where
  "getDataLength b g = (case Intn 32 g of (r, g') \<Rightarrow> (min (length b) (getHeadSize b 30 + r), g'))"

lemma getDataLength_le: "fst (getDataLength b g) \<le> length b"
  by (simp add: getDataLength_def split: prod.splits)

section \<open>Taking packets from a buffer\<close>

text \<open>
  One turn of the loop in a protocol's \<open>Decode\<close> on the bytes received so far: it fails (the buffer is
  then reset), panics, waits for more bytes, or delivers some and takes \<open>n\<close> bytes from the buffer.
\<close>

datatype 'd dstep = DErr error 'd | DPanic 'd | DWait 'd | DNext 'd bytes nat

text \<open>The loop \<open>for src.Len() > 4\<close>: how it ended, the protocol, \<open>dst\<close> and \<open>src\<close>; \<open>None\<close> is running out of turns.\<close>

fun decode_loop :: "nat \<Rightarrow> ('d \<Rightarrow> bytes \<Rightarrow> 'd dstep) \<Rightarrow> 'd \<Rightarrow> bytes \<Rightarrow> bytes \<Rightarrow> (unit go \<times> 'd \<times> bytes \<times> bytes) option" where
  "decode_loop 0 step d dst src = None"
| "decode_loop (Suc fuel) step d dst src =
     (if length src \<le> 4 then Some (Ret (), d, dst, src)
      else case step d src of
        DErr e d' \<Rightarrow> Some (Err e, d', dst, [])
      | DPanic d' \<Rightarrow> Some (Panic, d', dst, src)
      | DWait d' \<Rightarrow> Some (Ret (), d', dst, src)
      | DNext d' x n \<Rightarrow> decode_loop fuel step d' (dst @ x) (drop n src))"

text \<open>\<open>Decode\<close>: after a protocol error (\<open>rawTrans\<close>) everything is passed on as it is.\<close>

definition decode :: "('d \<Rightarrow> bool) \<Rightarrow> ('d \<Rightarrow> bytes \<Rightarrow> 'd dstep) \<Rightarrow> 'd \<Rightarrow> bytes \<Rightarrow> bytes \<Rightarrow> unit go \<times> 'd \<times> bytes \<times> bytes" where
  "decode raw step d dst src =
     (if raw d then (Ret (), d, dst @ src, [])
      else case decode_loop (Suc (length src)) step d dst src of
        Some r \<Rightarrow> r | None \<Rightarrow> (Err OutOfFuel, d, dst, src))"

text \<open>The loop ends when every turn that delivers takes bytes.\<close>

lemma decode_loop_ends:
  assumes "\<And>d src d' x n. 4 < length src \<Longrightarrow> step d src = DNext d' x n \<Longrightarrow> 0 < n" "length src < fuel"
  shows "\<exists>r. decode_loop fuel step d dst src = Some r"
  using assms(2)
proof (induction fuel arbitrary: d dst src)
  case (Suc fuel)
  show ?case
  proof (cases "length src \<le> 4")
    case False
    have "\<exists>r. decode_loop fuel step d' (dst @ x) (drop n src) = Some r" if "step d src = DNext d' x n" for d' x n
      using assms(1) [OF _ that] Suc False by (intro Suc.IH) auto
    then show ?thesis using False by (cases "step d src") auto
  qed simp
qed simp

text \<open>\<open>Decode\<close> after each of the chunks that arrive, up to the first that does not end normally.\<close>

fun feed :: "('d \<Rightarrow> bytes \<Rightarrow> bytes \<Rightarrow> unit go \<times> 'd \<times> bytes \<times> bytes) \<Rightarrow> 'd \<Rightarrow> bytes \<Rightarrow> bytes \<Rightarrow> bytes list \<Rightarrow> unit go \<times> 'd \<times> bytes \<times> bytes" where
  "feed dec d dst src [] = (Ret (), d, dst, src)"
| "feed dec d dst src (c # cs) = (case dec d dst (src @ c) of
     (Ret _, d', dst', src') \<Rightarrow> feed dec d' dst' src' cs | r \<Rightarrow> r)"

text \<open>
  The contract of a packet format: a packet is taken whole, whatever follows it, and a part of one is
  left for later. Then the bytes of any sequence of packets are decoded in any segmentation.
\<close>

locale packet_decoder =
  fixes frame :: "'s \<Rightarrow> 'm \<Rightarrow> bytes \<times> 's"
    and payload :: "'s \<Rightarrow> 'm \<Rightarrow> bytes"
    and ok :: "'s \<Rightarrow> 'm \<Rightarrow> bool"
    and raw :: "'d \<Rightarrow> bool"
    and step :: "'d \<Rightarrow> bytes \<Rightarrow> 'd dstep"
    and sync :: "'s \<Rightarrow> 'd \<Rightarrow> bool"
  assumes sync_raw: "sync s d \<Longrightarrow> \<not> raw d"
    and frame_long: "ok s m \<Longrightarrow> frame s m = (f, s') \<Longrightarrow> 4 < length f"
    and step_frame: "sync s d \<Longrightarrow> ok s m \<Longrightarrow> frame s m = (f, s') \<Longrightarrow>
      \<exists>d'. step d (f @ rest) = DNext d' (payload s m) (length f) \<and> sync s' d'"
    and step_part: "sync s d \<Longrightarrow> ok s m \<Longrightarrow> frame s m = (p @ q, s') \<Longrightarrow> q \<noteq> [] \<Longrightarrow> 4 < length p \<Longrightarrow>
      \<exists>d'. step d p = DWait d' \<and> sync s d'"
begin

fun frames :: "'s \<Rightarrow> 'm list \<Rightarrow> bytes \<times> 's" where
  "frames s [] = ([], s)"
| "frames s (m # ms) = (case frame s m of (f, s1) \<Rightarrow> (case frames s1 ms of (fs, s2) \<Rightarrow> (f @ fs, s2)))"

fun payloads :: "'s \<Rightarrow> 'm list \<Rightarrow> bytes" where
  "payloads s [] = []"
| "payloads s (m # ms) = payload s m @ payloads (snd (frame s m)) ms"

fun oks :: "'s \<Rightarrow> 'm list \<Rightarrow> bool" where
  "oks s [] = True"
| "oks s (m # ms) = (ok s m \<and> oks (snd (frame s m)) ms)"

lemma decode_prefix:
  assumes "sync s d" "oks s ms" "frames s ms = (p @ q, s')" "length p < fuel"
  shows "\<exists>d' x s1 ns rest. decode_loop fuel step d dst p = Some (Ret (), d', dst @ x, rest) \<and> payloads s ms = x @ payloads s1 ns
     \<and> sync s1 d' \<and> oks s1 ns \<and> frames s1 ns = (rest @ q, s') \<and> (q = [] \<longrightarrow> ns = [])"
  using assms
proof (induction ms arbitrary: s d p dst fuel)
  case Nil
  then show ?case by (cases fuel) (auto intro!: exI [of _ "[]"])
next
  case (Cons m ms)
  obtain k where k: "fuel = Suc k" using Cons.prems(4) by (cases fuel) auto
  obtain f s1 where f: "frame s m = (f, s1)" by fastforce
  obtain fs where fs: "frames s1 ms = (fs, s')" "p @ q = f @ fs"
    using Cons.prems(3) f by (auto split: prod.splits)
  have okm: "ok s m" and long: "4 < length f" using frame_long [OF _ f] Cons.prems(2) by simp_all
  show ?case
  proof (cases "length f \<le> length p")
    case True
    then obtain p' where p': "p = f @ p'" "fs = p' @ q" using fs(2) by (auto simp: append_eq_append_conv2)
    obtain d1 where d1: "step d p = DNext d1 (payload s m) (length f)" "sync s1 d1"
      using step_frame [OF Cons.prems(1) okm f] p'(1) by auto
    obtain d' x s2 ns rest where r: "decode_loop k step d1 (dst @ payload s m) p' = Some (Ret (), d', (dst @ payload s m) @ x, rest)"
        "payloads s1 ms = x @ payloads s2 ns" "sync s2 d'" "oks s2 ns" "frames s2 ns = (rest @ q, s')" "q = [] \<longrightarrow> ns = []"
      using Cons.IH [OF d1(2), of p' k "dst @ payload s m"] Cons.prems fs f p' k long by auto
    have "decode_loop fuel step d dst p = Some (Ret (), d', dst @ payload s m @ x, rest)"
      using k long d1(1) p'(1) r(1) by simp
    moreover have "payloads s (m # ms) = (payload s m @ x) @ payloads s2 ns" using r(2) f by simp
    ultimately show ?thesis using r(3-6) by (metis append.assoc)
  next
    case False
    then obtain q' where q': "f = p @ q'" "q' \<noteq> []" "q = q' @ fs" using fs(2) by (auto simp: append_eq_append_conv2)
    have "\<exists>d'. decode_loop fuel step d dst p = Some (Ret (), d', dst, p) \<and> sync s d'"
      using step_part [OF Cons.prems(1) okm, of p q' s1] f q' Cons.prems(1) k by (cases "length p \<le> 4") auto
    then show ?thesis using Cons.prems(2,3) q' by (metis append_Nil append_Nil2 append_is_Nil_conv)
  qed
qed

lemma feed_frames:
  assumes "sync s d" "oks s ms" "frames s ms = (src @ concat cs, s')" "cs = [] \<Longrightarrow> ms = []"
  shows "\<exists>d'. feed (decode raw step) d dst src cs = (Ret (), d', dst @ payloads s ms, []) \<and> sync s' d'"
  using assms
proof (induction cs arbitrary: s d ms dst src)
  case (Cons c cs)
  have "frames s ms = ((src @ c) @ concat cs, s')" using Cons.prems(3) by simp
  then obtain d' x s1 ns rest where r: "decode_loop (Suc (length (src @ c))) step d dst (src @ c) = Some (Ret (), d', dst @ x, rest)" "payloads s ms = x @ payloads s1 ns"
      "sync s1 d'" "oks s1 ns" "frames s1 ns = (rest @ concat cs, s')" "concat cs = [] \<longrightarrow> ns = []"
    using decode_prefix [OF Cons.prems(1,2), of "src @ c" "concat cs" s' "Suc (length (src @ c))" dst] by blast
  have "cs = [] \<Longrightarrow> ns = []" using r(6) by simp
  then obtain d2 where "feed (decode raw step) d' (dst @ x) rest cs = (Ret (), d2, (dst @ x) @ payloads s1 ns, [])" "sync s' d2"
    using Cons.IH [OF r(3-5)] by blast
  moreover have "decode raw step d dst (src @ c) = (Ret (), d', dst @ x, rest)"
    using sync_raw [OF Cons.prems(1)] by (simp only: decode_def r(1) option.case if_False)
  ultimately show ?case using r(2) by simp
qed simp

text \<open>All the packets of a stream, from an empty buffer.\<close>

lemma decode_stream:
  assumes "sync s d" "oks s ms" "frames s ms = (concat cs, s')"
  shows "\<exists>d'. feed (decode raw step) d [] [] cs = (Ret (), d', payloads s ms, []) \<and> sync s' d'"
proof -
  have "ms = []" if "cs = []"
  proof (cases ms)
    case (Cons m ns)
    obtain f s1 where f: "frame s m = (f, s1)" by fastforce
    then show ?thesis using assms(2,3) that Cons frame_long [OF _ f] by (auto split: prod.splits)
  qed simp
  then show ?thesis using feed_frames [OF assms(1,2), of "[]" cs s' "[]"] assms(3) by simp
qed

end

end
