(* ===== verification/Ssr_Auth.thy ===== *)
theory Ssr_Auth
  imports Ssr_Base
begin

text \<open>
  The SSR protocols without a chain: \<open>ssr/protocol/auth_sha1_v4.go\<close>, \<open>auth_aes128_sha1.go\<close> and
  \<open>auth_aes128_md5.go\<close>. Their packets are decoded in whatever segmentation they arrive.
\<close>

section \<open>Model of auth\_sha1\_v4.go\<close>

record authSHA1V4 =
  v4_Base :: Base
  v4_authData :: authData
  v4_iv :: bytes
  v4_hasSentHeader :: bool
  v4_rawTrans :: bool

definition newAuthSHA1V4 :: "Base \<Rightarrow> authSHA1V4" where
  "newAuthSHA1V4 b = \<lparr>v4_Base = b, v4_authData = \<lparr>clientID = replicate 4 0, connectionID = 0\<rparr>, v4_iv = [],
     v4_hasSentHeader = False, v4_rawTrans = False\<rparr>"

text \<open>\<open>StreamConn\<close>: the protocol of the new connection, and the shared one after it.\<close>

definition v4_StreamConn :: "bytes \<Rightarrow> rng \<Rightarrow> authSHA1V4 \<Rightarrow> authSHA1V4 \<times> authSHA1V4 \<times> rng" where
  "v4_StreamConn iv g a = (case authData_next (v4_authData a) g of (ad, g') \<Rightarrow>
     (\<lparr>v4_Base = v4_Base a, v4_authData = ad, v4_iv = iv, v4_hasSentHeader = False, v4_rawTrans = False\<rparr>,
      a\<lparr>v4_authData := ad\<rparr>, g'))"

text \<open>The padding in front of the data, with the byte order of its length.\<close>

definition packRandData :: "(nat \<Rightarrow> bytes) \<Rightarrow> nat \<Rightarrow> bytes \<Rightarrow> bytes" where
  "packRandData enc16 sz rnd =
     (if sz < 128 then byte_of (sz + 1) # rnd else 255 # enc16 (sz + 3) @ rnd)"

text \<open>Where the data starts in a packet, as \<open>Decode\<close> reads it.\<close>

definition data_pos :: "(bytes \<Rightarrow> nat) \<Rightarrow> bytes \<Rightarrow> nat" where
  "data_pos dec16 src = (if unat (src ! 4) < 255 then unat (src ! 4) + 4 else dec16 (take 2 (drop 5 src)) + 4)"

definition v4_getRandDataLength :: "nat \<Rightarrow> rng \<Rightarrow> nat \<times> rng" where
  "v4_getRandDataLength sz g =
     (if 1200 < sz then (0, g) else if 400 < sz then Intn 256 g else Intn 512 g)"

definition v4_packData :: "bytes \<Rightarrow> rng \<Rightarrow> bytes \<times> rng" where
  "v4_packData data g =
     (case v4_getRandDataLength (length data) g of (rl, g1) \<Rightarrow>
      case rand_bytes rl g1 of (rnd, g2) \<Rightarrow>
      let packedDataLength = 2 + 2 + 3 + rl + length data + 4 - (if rl < 128 then 2 else 0);
          hd2 = be16 packedDataLength;
          buf = hd2 @ le16 (unat (crc32 hd2 AND 0xffff)) @ packRandData be16 rl rnd @ data
      in (buf @ le32 (unat (adler32 buf)), g2))"

definition v4_packAuthData :: "digests \<Rightarrow> nat \<Rightarrow> authSHA1V4 \<Rightarrow> bytes \<Rightarrow> rng \<Rightarrow> bytes \<times> rng" where
  "v4_packAuthData D now a data g =
     (case v4_getRandDataLength (12 + length data) g of (rl, g1) \<Rightarrow>
      case rand_bytes rl g1 of (rnd, g2) \<Rightarrow>
      let packedAuthDataLength = 2 + 4 + 3 + rl + 12 + length data + 10 - (if rl < 128 then 2 else 0);
          crcData = be16 packedAuthDataLength @ bytes_of ''auth_sha1_v4'' @ b_Key (v4_Base a);
          key = v4_iv a @ b_Key (v4_Base a);
          buf = take 2 crcData @ le32 (unat (crc32 crcData)) @ packRandData be16 rl rnd
                @ putAuthData now (v4_authData a) @ data
      in (buf @ take 10 (HmacSHA1 D key buf), g2))"

text \<open>One turn of the loop of \<open>Decode\<close>, with \<open>src.Len() > 4\<close>.\<close>

definition v4_step :: "authSHA1V4 \<Rightarrow> bytes \<Rightarrow> authSHA1V4 dstep" where
  "v4_step a src =
     (if unat (crc32 (take 2 src) AND 0xffff) \<noteq> le_val (take 2 (drop 2 src)) then DErr ErrAuthSHA1V4CRC32 a
      else let n = be_val (take 2 src) in
        if 8192 \<le> n \<or> n < 7 then DErr ErrAuthSHA1V4Length (a\<lparr>v4_rawTrans := True\<rparr>)
        else if length src < n then DWait a
        else if unat (adler32 (take (n - 4) src)) \<noteq> le_val (take 4 (drop (n - 4) src))
          then DErr ErrAuthSHA1V4Adler32 (a\<lparr>v4_rawTrans := True\<rparr>)
        else case slice src (int (data_pos be_val src)) (int n - 4) of
            Ret x \<Rightarrow> DNext a x n
          | _ \<Rightarrow> DPanic a)"

definition v4_Decode :: "authSHA1V4 \<Rightarrow> bytes \<Rightarrow> bytes \<Rightarrow> unit go \<times> authSHA1V4 \<times> bytes \<times> bytes" where
  "v4_Decode = decode v4_rawTrans v4_step"

fun v4_packs :: "bytes list \<Rightarrow> rng \<Rightarrow> bytes \<times> rng" where
  "v4_packs [] g = ([], g)"
| "v4_packs (d # ds) g = (case v4_packData d g of (p, g1) \<Rightarrow> case v4_packs ds g1 of (ps, g2) \<Rightarrow> (p @ ps, g2))"

text \<open>\<open>Encode\<close>: the bytes it writes to the empty buffer of \<open>Conn.Write\<close>.\<close>

definition v4_Encode :: "digests \<Rightarrow> nat \<Rightarrow> bytes \<Rightarrow> rng \<Rightarrow> authSHA1V4 \<Rightarrow> bytes \<times> rng \<times> authSHA1V4" where
  "v4_Encode D now b g a =
     (if v4_hasSentHeader a then (case v4_packs (pieces 8100 b) g of (ps, g1) \<Rightarrow> (ps, g1, a))
      else case getDataLength b g of (dl, g1) \<Rightarrow>
        case v4_packAuthData D now a (take dl b) g1 of (h, g2) \<Rightarrow>
        case v4_packs (pieces 8100 (drop dl b)) g2 of (ps, g3) \<Rightarrow> (h @ ps, g3, a\<lparr>v4_hasSentHeader := True\<rparr>))"

section \<open>Model of auth\_aes128\_sha1.go and auth\_aes128\_md5.go\<close>

record authAES128 =
  aes_Base :: Base
  aes_authData :: authData
  aes_salt :: string
  aes_hmac :: "bytes \<Rightarrow> bytes \<Rightarrow> bytes"
  aes_userData :: userData
  aes_iv :: bytes
  aes_hasSentHeader :: bool
  aes_rawTrans :: bool
  aes_packID :: "32 word"
  aes_recvID :: "32 word"

definition newAuthAES128 :: "string \<Rightarrow> (bytes \<Rightarrow> bytes \<Rightarrow> bytes) \<Rightarrow> (bytes \<Rightarrow> bytes) \<Rightarrow> Base \<Rightarrow> rng \<Rightarrow> authAES128 \<times> rng" where
  "newAuthAES128 salt hmac hashDigest b g = (case initUserData hashDigest b g of (u, g') \<Rightarrow>
     (\<lparr>aes_Base = b, aes_authData = \<lparr>clientID = replicate 4 0, connectionID = 0\<rparr>, aes_salt = salt, aes_hmac = hmac,
       aes_userData = u, aes_iv = [], aes_hasSentHeader = False, aes_rawTrans = False, aes_packID = 0, aes_recvID = 0\<rparr>, g'))"

definition newAuthAES128SHA1 :: "digests \<Rightarrow> Base \<Rightarrow> rng \<Rightarrow> authAES128 \<times> rng" where
  "newAuthAES128SHA1 D = newAuthAES128 ''auth_aes128_sha1'' (HmacSHA1 D) (SHA1Sum D)"

definition newAuthAES128MD5 :: "('blk, 'st) prims \<Rightarrow> digests \<Rightarrow> Base \<Rightarrow> rng \<Rightarrow> authAES128 \<times> rng" where
  "newAuthAES128MD5 P D = newAuthAES128 ''auth_aes128_md5'' (HmacMD5 D) (md5 P)"

definition aes_StreamConn :: "bytes \<Rightarrow> rng \<Rightarrow> authAES128 \<Rightarrow> authAES128 \<times> authAES128 \<times> rng" where
  "aes_StreamConn iv g a = (case authData_next (aes_authData a) g of (ad, g') \<Rightarrow>
     (a\<lparr>aes_authData := ad, aes_iv := iv, aes_hasSentHeader := False, aes_rawTrans := False, aes_packID := 1, aes_recvID := 1\<rparr>,
      a\<lparr>aes_authData := ad\<rparr>, g'))"

definition trapezoidRandom :: "nat \<Rightarrow> rng \<Rightarrow> nat \<times> rng" where
  "trapezoidRandom m g = Intn m g"

text \<open>
  \<open>trapezoidRandom\<close> is only called with \<open>d = -0.3\<close>, for which the branch with the square root is not
  taken: what is left is a number below the maximum.
\<close>

definition getRandDataLengthForPackData :: "nat \<Rightarrow> nat \<Rightarrow> nat \<Rightarrow> rng \<Rightarrow> nat \<times> rng" where
  "getRandDataLengthForPackData overhead dataLength fullDataLength g =
     (let revLength = 1460 - int dataLength - 9 in
      if 32 * 1024 - int overhead \<le> int fullDataLength then (0, g)
      else if revLength = 0 then (0, g)
      else if revLength < 0 then
        (if - 1460 < revLength then trapezoidRandom (nat (revLength + 1460)) g else Intn 32 g)
      else if 900 < dataLength then Intn (nat revLength) g
      else trapezoidRandom (nat revLength) g)"

definition aes_macKey :: "authAES128 \<Rightarrow> 32 word \<Rightarrow> bytes" where
  "aes_macKey a i = userKey (aes_userData a) @ le32 (unat i)"

definition aes_packData :: "authAES128 \<Rightarrow> bytes \<Rightarrow> nat \<Rightarrow> rng \<Rightarrow> bytes \<times> authAES128 \<times> rng" where
  "aes_packData a data full g =
     (case getRandDataLengthForPackData (b_Overhead (aes_Base a)) (length data) full g of (rl, g1) \<Rightarrow>
      case rand_bytes rl g1 of (rnd, g2) \<Rightarrow>
      let packedDataLength = 2 + 2 + 3 + rl + length data + 4 - (if rl < 128 then 2 else 0);
          macKey = aes_macKey a (aes_packID a);
          hd2 = le16 packedDataLength;
          buf = hd2 @ take 2 (aes_hmac a macKey hd2) @ packRandData le16 rl rnd @ data
      in (buf @ take 4 (aes_hmac a macKey buf), a\<lparr>aes_packID := aes_packID a + 1\<rparr>, g2))"

definition getRandDataLengthForPackAuthData :: "nat \<Rightarrow> rng \<Rightarrow> nat \<times> rng" where
  "getRandDataLengthForPackAuthData sz g = (if 400 < sz then Intn 512 g else Intn 1024 g)"

definition aes_packAuthData :: "('blk, 'st) prims \<Rightarrow> digests \<Rightarrow> nat \<Rightarrow> authAES128 \<Rightarrow> bytes \<Rightarrow> rng \<Rightarrow> bytes go \<times> rng" where
  "aes_packAuthData P D now a data g =
     (if data = [] then (Ret [], g)
      else case getRandDataLengthForPackAuthData (length data) g of (rl, g1) \<Rightarrow>
        case Intn 256 g1 of (chk, g2) \<Rightarrow>
        case rand_bytes rl g2 of (rnd, g3) \<Rightarrow>
        let packedAuthDataLength = 7 + 4 + 16 + 4 + rl + length data + 4;
            macKey = aes_iv a @ b_Key (aes_Base a);
            uk = userKey (aes_userData a)
        in (case putEncryptedData P D now (aes_authData a) uk packedAuthDataLength rl (aes_salt a) of
              Ret enc \<Rightarrow>
                let head7 = byte_of chk # take 6 (aes_hmac a macKey [byte_of chk]);
                    mid = userID (aes_userData a) @ enc;
                    buf = head7 @ mid @ take 4 (aes_hmac a macKey mid) @ rnd @ data
                in (Ret (buf @ take 4 (aes_hmac a uk buf)), g3)
            | Err _ \<Rightarrow> (Ret [], g2)
            | Panic \<Rightarrow> (Panic, g2)))"

definition aes_step :: "authAES128 \<Rightarrow> bytes \<Rightarrow> authAES128 dstep" where
  "aes_step a src =
     (let macKey = aes_macKey a (aes_recvID a); n = le_val (take 2 src) in
      if take 2 (aes_hmac a macKey (take 2 src)) \<noteq> take 2 (drop 2 src) then DErr ErrAuthAES128MAC a
      else if 8192 \<le> n \<or> n < 7 then DErr ErrAuthAES128Length (a\<lparr>aes_rawTrans := True\<rparr>)
      else if length src < n then DWait a
      else if take 4 (aes_hmac a macKey (take (n - 4) src)) \<noteq> take 4 (drop (n - 4) src)
        then DErr ErrAuthAES128Chksum (a\<lparr>aes_rawTrans := True\<rparr>)
      else let a' = a\<lparr>aes_recvID := aes_recvID a + 1\<rparr> in
        case slice src (int (data_pos le_val src)) (int n - 4) of
          Ret x \<Rightarrow> DNext a' x n
        | _ \<Rightarrow> DPanic a')"

definition aes_Decode :: "authAES128 \<Rightarrow> bytes \<Rightarrow> bytes \<Rightarrow> unit go \<times> authAES128 \<times> bytes \<times> bytes" where
  "aes_Decode = decode aes_rawTrans aes_step"

fun aes_packs :: "nat \<Rightarrow> bytes list \<Rightarrow> authAES128 \<Rightarrow> rng \<Rightarrow> bytes \<times> authAES128 \<times> rng" where
  "aes_packs full [] a g = ([], a, g)"
| "aes_packs full (d # ds) a g = (case aes_packData a d full g of (p, a1, g1) \<Rightarrow>
     case aes_packs full ds a1 g1 of (ps, a2, g2) \<Rightarrow> (p @ ps, a2, g2))"

definition aes_Encode :: "('blk, 'st) prims \<Rightarrow> digests \<Rightarrow> nat \<Rightarrow> bytes \<Rightarrow> rng \<Rightarrow> authAES128 \<Rightarrow> bytes go \<times> rng \<times> authAES128" where
  "aes_Encode P D now b g a =
     (if aes_hasSentHeader a then (case aes_packs (length b) (pieces 8100 b) a g of (ps, a1, g1) \<Rightarrow> (Ret ps, g1, a1))
      else case getDataLength b g of (dl, g1) \<Rightarrow>
        case aes_packAuthData P D now a (take dl b) g1 of
          (Ret h, g2) \<Rightarrow> (case aes_packs (length b) (pieces 8100 (drop dl b)) (a\<lparr>aes_hasSentHeader := True\<rparr>) g2 of
             (ps, a1, g3) \<Rightarrow> (Ret (h @ ps), g3, a1))
        | (r, g2) \<Rightarrow> (r, g2, a))"

definition aes_DecodePacket :: "authAES128 \<Rightarrow> bytes \<Rightarrow> bytes go" where
  "aes_DecodePacket a b =
     bind_go (slice b 0 (int (length b) - 4)) (\<lambda>m.
       if take 4 (aes_hmac a (b_Key (aes_Base a)) m) \<noteq> drop (length b - 4) b then Err ErrAuthAES128Chksum else Ret m)"

definition aes_EncodePacket :: "authAES128 \<Rightarrow> bytes \<Rightarrow> bytes" where
  "aes_EncodePacket a b =
     (let buf = b @ userID (aes_userData a) in buf @ take 4 (aes_hmac a (userKey (aes_userData a)) buf))"

section \<open>The shape of a packet\<close>

text \<open>Two bytes of length, two that check them, the padding, the data, and four that check it all.\<close>

definition packet_shape :: "(nat \<Rightarrow> bytes) \<Rightarrow> bytes \<Rightarrow> bytes \<Rightarrow> bytes \<Rightarrow> bytes \<Rightarrow> bool" where
  "packet_shape enc16 f c2 data t4 \<longleftrightarrow> length c2 = 2 \<and> length t4 = 4 \<and> length f < 8192 \<and>
     (\<exists>rnd. length rnd < 2000 \<and> f = enc16 (length f) @ c2 @ packRandData enc16 (length rnd) rnd @ data @ t4)"

definition codec16 :: "(nat \<Rightarrow> bytes) \<Rightarrow> (bytes \<Rightarrow> nat) \<Rightarrow> bool" where
  "codec16 enc16 dec16 \<longleftrightarrow> (\<forall>n. length (enc16 n) = 2 \<and> dec16 (enc16 n) = n mod 65536)"

lemma codec16_be: "codec16 be16 be_val" and codec16_le: "codec16 le16 le_val"
  by (simp_all add: codec16_def)

lemma length_packRandData: "codec16 enc16 dec16 \<Longrightarrow>
    length (packRandData enc16 n rnd) = (if n < 128 then 1 else 3) + length rnd"
  by (simp add: packRandData_def codec16_def)

lemma data_pos_packRandData:
  assumes "codec16 enc16 dec16" "length h = 4" "length rnd < 2000"
  shows "data_pos dec16 (h @ packRandData enc16 (length rnd) rnd @ rest) = 4 + length (packRandData enc16 (length rnd) rnd)"
proof -
  have len: "length (enc16 m) = 2" and dec: "dec16 (enc16 m) = m mod 65536" for m using assms(1) by (simp_all add: codec16_def)
  have five: "drop 5 (h @ x # ys) = ys" for x ys using assms(2) by simp
  show ?thesis
    using assms(2,3) by (auto simp: data_pos_def packRandData_def nth_append five len dec)
qed

lemma packet_parts:
  assumes "packet_shape enc16 f c2 data t4" "codec16 enc16 dec16"
  shows "dec16 (take 2 (f @ rest)) = length f" "take 2 (f @ rest) = enc16 (length f)" "take 2 (drop 2 (f @ rest)) = c2"
    "take (length f - 4) (f @ rest) = take (length f - 4) f" "take 4 (drop (length f - 4) (f @ rest)) = t4"
    "slice (f @ rest) (int (data_pos dec16 (f @ rest))) (int (length f) - 4) = Ret data" "9 \<le> length f" "length f < 8192"
proof -
  obtain rnd where c: "length c2 = 2" "length t4 = 4" "length f < 8192" "length rnd < 2000"
      and f: "f = enc16 (length f) @ c2 @ packRandData enc16 (length rnd) rnd @ data @ t4"
    using assms(1) by (auto simp: packet_shape_def)
  define n where "n = length f"
  define pd where "pd = packRandData enc16 (length rnd) rnd"
  have f': "f = enc16 n @ c2 @ pd @ data @ t4" using f by (simp add: n_def pd_def)
  have len: "length (enc16 n) = 2" and dec: "dec16 (enc16 n) = n"
    using assms(2) c(3) by (simp_all add: codec16_def n_def)
  have pd: "1 \<le> length pd" using length_packRandData [OF assms(2)] by (simp add: pd_def)
  have n: "n = 8 + length pd + length data" using arg_cong [OF f', of length] len c n_def by simp
  show t: "take 2 (f @ rest) = enc16 (length f)" using len by (subst f') (simp add: n_def)
  show "dec16 (take 2 (f @ rest)) = length f" using t dec by (simp add: n_def)
  show "take 2 (drop 2 (f @ rest)) = c2" using len c(1) by (subst f') simp
  show "take (length f - 4) (f @ rest) = take (length f - 4) f" by simp
  show "take 4 (drop (length f - 4) (f @ rest)) = t4"
    using len c(1,2) n by (subst (2) f') (simp add: n_def [symmetric])
  have "data_pos dec16 (f @ rest) = 4 + length pd"
    using data_pos_packRandData [OF assms(2) _ c(4), of "enc16 n @ c2" "data @ t4 @ rest"] len c(1) by (subst f') (simp add: pd_def)
  moreover have "slice (f @ rest) (int (4 + length pd)) (int n - 4) = Ret data"
    using n len c(1,2) by (subst f') (simp add: slice_def nat_diff_distrib)
  ultimately show "slice (f @ rest) (int (data_pos dec16 (f @ rest))) (int (length f) - 4) = Ret data" by (simp add: n_def)
  show "9 \<le> length f" using n pd by (simp add: n_def)
qed (use assms(1) in \<open>simp add: packet_shape_def\<close>)

lemma packet_prefix:
  assumes "packet_shape enc16 (p @ q) c2 data t4" "codec16 enc16 dec16" "4 < length p"
  shows "dec16 (take 2 p) = length (p @ q)" "take 2 p = enc16 (length (p @ q))" "take 2 (drop 2 p) = c2"
  using packet_parts(1,2,3) [OF assms(1,2), of "[]"] assms(3) by (auto simp: take_append)

section \<open>Packets of auth\_sha1\_v4\<close>

lemma v4_getRandDataLength_bound: "fst (v4_getRandDataLength n g) < 512" "1200 < n \<Longrightarrow> fst (v4_getRandDataLength n g) = 0"
  using Intn_less [of 512 g] Intn_less [of 256 g] by (auto simp: v4_getRandDataLength_def)

lemma v4_packData_shape:
  assumes "v4_packData data g = (f, g')" "length data \<le> 8100"
  shows "packet_shape be16 f (le16 (unat (crc32 (be16 (length f)) AND 0xffff))) data (le32 (unat (adler32 (take (length f - 4) f))))"
proof -
  obtain rl g1 where r: "v4_getRandDataLength (length data) g = (rl, g1)" by fastforce
  obtain rnd g2 where d: "rand_bytes rl g1 = (rnd, g2)" by fastforce
  have rl: "length rnd = rl" using length_rand_bytes [of rl g1] d by simp
  have b: "rl < 512" "1200 < length data \<longrightarrow> rl = 0" using v4_getRandDataLength_bound [of "length data" g] r by auto
  define n where "n = 2 + 2 + 3 + rl + length data + 4 - (if rl < 128 then 2 else 0)"
  define buf where "buf = be16 n @ le16 (unat (crc32 (be16 n) AND 0xffff)) @ packRandData be16 rl rnd @ data"
  have f: "f = buf @ le32 (unat (adler32 buf))"
    using assms(1) r d by (simp add: v4_packData_def n_def buf_def Let_def)
  have n: "n = length f" "take (n - 4) f = buf" "n < 8192"
    using length_packRandData [OF codec16_be] rl b assms(2) by (auto simp: f buf_def n_def)
  show ?thesis using n rl b by (auto simp: packet_shape_def f buf_def intro!: exI [of _ rnd])
qed

lemma unat_low16: "unat ((w :: 32 word) AND 0xffff) < 65536"
proof -
  have "w AND 0xffff \<le> 0xffff" by (rule word_and_le1)
  then show ?thesis by (simp add: word_le_nat_alt)
qed

lemma v4_step_packet:
  assumes "v4_packData data g = (f, g')" "length data \<le> 8100"
  shows "v4_step a (f @ rest) = DNext a data (length f)"
proof -
  note p = packet_parts(1-6) [OF v4_packData_shape [OF assms] codec16_be, of rest]
  note l = packet_parts(7,8) [OF v4_packData_shape [OF assms] codec16_be]
  have "unat (adler32 (take (length f - 4) f)) < 4294967296" using unsigned_less [of "adler32 (take (length f - 4) f)"] by simp
  then show ?thesis
    using l unat_low16 [of "crc32 (be16 (length f))"] unfolding v4_step_def Let_def p(1,3,4,5,6) unfolding p(2) by simp
qed

lemma v4_step_prefix:
  assumes "v4_packData data g = (p @ q, g')" "length data \<le> 8100" "q \<noteq> []" "4 < length p"
  shows "v4_step a p = DWait a"
proof -
  note sh = v4_packData_shape [OF assms(1,2)]
  note p = packet_prefix [OF sh codec16_be assms(4)]
  show ?thesis
    using packet_parts(7,8) [OF sh codec16_be] assms(3) unat_low16 [of "crc32 (be16 (length (p @ q)))"]
    unfolding v4_step_def Let_def p(1,3) unfolding p(2) by simp
qed

interpretation v4p: packet_decoder "\<lambda>g d. v4_packData d g" "\<lambda>_ d. d" "\<lambda>_ d. length d \<le> 8100" v4_rawTrans v4_step "\<lambda>_ a. \<not> v4_rawTrans a"
proof unfold_locales
  fix g m f g' assume "length m \<le> 8100" "v4_packData m g = (f, g')"
  then show "4 < length f" using packet_parts(7) [OF v4_packData_shape codec16_be] by fastforce
qed (use v4_step_packet v4_step_prefix in auto)

lemma v4_frames_packs: "v4p.frames g ds = v4_packs ds g"
  by (induction ds arbitrary: g) (auto split: prod.splits)

lemma v4_payloads: "v4p.payloads g ds = concat ds"
  by (induction ds arbitrary: g) auto

lemma v4_oks: "(\<forall>d \<in> set ds. length d \<le> 8100) \<Longrightarrow> v4p.oks g ds"
  by (induction ds arbitrary: g) auto

section \<open>Packets of auth\_aes128\<close>

lemma getRandDataLengthForPackData_bound:
  assumes "n \<le> 8100"
  shows "n + fst (getRandDataLengthForPackData ov n full g) < 8140" "fst (getRandDataLengthForPackData ov n full g) < 1460"
proof -
  have I: "fst (Intn k g) < k" if "0 < k" for k using Intn_less [OF that] .
  have "n + fst (getRandDataLengthForPackData ov n full g) < 8140 \<and> fst (getRandDataLengthForPackData ov n full g) < 1460"
    using assms I [of 32] I [of "nat (1460 - int n - 9)"] I [of "nat (1460 - int n - 9 + 1460)"]
    by (auto simp: getRandDataLengthForPackData_def trapezoidRandom_def Let_def)
  then show "n + fst (getRandDataLengthForPackData ov n full g) < 8140" "fst (getRandDataLengthForPackData ov n full g) < 1460"
    by simp_all
qed

lemma aes_packData_shape:
  assumes "aes_packData a data full g = (f, a', g')" "length data \<le> 8100" "\<And>k x. 4 \<le> length (aes_hmac a k x)"
  shows "packet_shape le16 f (take 2 (aes_hmac a (aes_macKey a (aes_packID a)) (le16 (length f)))) data
      (take 4 (aes_hmac a (aes_macKey a (aes_packID a)) (take (length f - 4) f)))"
    and "a' = a\<lparr>aes_packID := aes_packID a + 1\<rparr>"
proof -
  obtain rl g1 where r: "getRandDataLengthForPackData (b_Overhead (aes_Base a)) (length data) full g = (rl, g1)" by fastforce
  obtain rnd g2 where d: "rand_bytes rl g1 = (rnd, g2)" by fastforce
  have rl: "length rnd = rl" using length_rand_bytes [of rl g1] d by simp
  have b: "length data + rl < 8140" "rl < 1460"
    using getRandDataLengthForPackData_bound [OF assms(2), of "b_Overhead (aes_Base a)" full g] r by simp_all
  let ?k = "aes_macKey a (aes_packID a)"
  define n where "n = 2 + 2 + 3 + rl + length data + 4 - (if rl < 128 then 2 else 0)"
  define buf where "buf = le16 n @ take 2 (aes_hmac a ?k (le16 n)) @ packRandData le16 rl rnd @ data"
  have f: "f = buf @ take 4 (aes_hmac a ?k buf)" and a': "a' = a\<lparr>aes_packID := aes_packID a + 1\<rparr>"
    using assms(1) r d by (simp_all add: aes_packData_def n_def buf_def Let_def)
  have h: "length (take 2 (aes_hmac a ?k x)) = 2" "length (take 4 (aes_hmac a ?k x)) = 4" for x
    using assms(3) [of ?k x] by simp_all
  have n: "n = length f" "take (n - 4) f = buf" "n < 8192"
    using length_packRandData [OF codec16_le] rl b h by (auto simp: f buf_def n_def)
  show "packet_shape le16 f (take 2 (aes_hmac a ?k (le16 (length f)))) data (take 4 (aes_hmac a ?k (take (length f - 4) f)))"
    unfolding packet_shape_def n(1) [symmetric] n(2) using n(3) rl b(2) h by (auto simp: f buf_def intro!: exI [of _ rnd])
  show "a' = a\<lparr>aes_packID := aes_packID a + 1\<rparr>" by (rule a')
qed

text \<open>The two ends agree: the same user key and digest, and the next packet of one is the one the other expects.\<close>

definition aes_sync :: "authAES128 \<times> rng \<Rightarrow> authAES128 \<Rightarrow> bool" where
  "aes_sync s d \<longleftrightarrow> userKey (aes_userData (fst s)) = userKey (aes_userData d) \<and> aes_hmac (fst s) = aes_hmac d
     \<and> aes_packID (fst s) = aes_recvID d \<and> \<not> aes_rawTrans d \<and> (\<forall>k x. 4 \<le> length (aes_hmac d k x))"

definition aes_frame :: "authAES128 \<times> rng \<Rightarrow> bytes \<times> nat \<Rightarrow> bytes \<times> authAES128 \<times> rng" where
  "aes_frame s m = aes_packData (fst s) (fst m) (snd m) (snd s)"

definition aes_ok :: "authAES128 \<times> rng \<Rightarrow> bytes \<times> nat \<Rightarrow> bool" where
  "aes_ok s m \<longleftrightarrow> length (fst m) \<le> 8100 \<and> (\<forall>k x. 4 \<le> length (aes_hmac (fst s) k x))"

lemma aes_step_packet:
  assumes "aes_sync s d" "aes_ok s m" "aes_frame s m = (f, s')"
  shows "aes_step d (f @ rest) = DNext (d\<lparr>aes_recvID := aes_recvID d + 1\<rparr>) (fst m) (length f)"
    and "aes_sync s' (d\<lparr>aes_recvID := aes_recvID d + 1\<rparr>)"
proof -
  obtain a g where s: "s = (a, g)" by fastforce
  obtain a' g' where s': "s' = (a', g')" by fastforce
  have f: "aes_packData a (fst m) (snd m) g = (f, a', g')" "length (fst m) \<le> 8100" "\<And>k x. 4 \<le> length (aes_hmac a k x)"
    using assms(2,3) by (simp_all add: s s' aes_frame_def aes_ok_def)
  have e: "aes_hmac d = aes_hmac a" "aes_macKey d (aes_recvID d) = aes_macKey a (aes_packID a)"
    using assms(1) by (simp_all add: aes_sync_def s aes_macKey_def)
  note p = packet_parts(1-6) [OF aes_packData_shape(1) [OF f] codec16_le, of rest]
  note l = packet_parts(7,8) [OF aes_packData_shape(1) [OF f] codec16_le]
  show "aes_step d (f @ rest) = DNext (d\<lparr>aes_recvID := aes_recvID d + 1\<rparr>) (fst m) (length f)"
    using l unfolding aes_step_def Let_def e p(1,3,4,5,6) unfolding p(2) by simp
  show "aes_sync s' (d\<lparr>aes_recvID := aes_recvID d + 1\<rparr>)"
    using assms(1) aes_packData_shape(2) [OF f] by (simp add: s s' aes_sync_def)
qed

lemma aes_step_prefix:
  assumes "aes_sync s d" "aes_ok s m" "aes_frame s m = (p @ q, s')" "q \<noteq> []" "4 < length p"
  shows "aes_step d p = DWait d"
proof -
  obtain a g where s: "s = (a, g)" by fastforce
  obtain a' g' where s': "s' = (a', g')" by fastforce
  have f: "aes_packData a (fst m) (snd m) g = (p @ q, a', g')" "length (fst m) \<le> 8100" "\<And>k x. 4 \<le> length (aes_hmac a k x)"
    using assms(2,3) by (simp_all add: s s' aes_frame_def aes_ok_def)
  have e: "aes_hmac d = aes_hmac a" "aes_macKey d (aes_recvID d) = aes_macKey a (aes_packID a)"
    using assms(1) by (simp_all add: aes_sync_def s aes_macKey_def)
  note sh = aes_packData_shape(1) [OF f]
  note p = packet_prefix [OF sh codec16_le assms(5)]
  show ?thesis using packet_parts(7,8) [OF sh codec16_le] assms(4)
    unfolding aes_step_def Let_def e p(1,3) unfolding p(2) by simp
qed

lemma aes_frame_long: "aes_ok s m \<Longrightarrow> aes_frame s m = (f, s') \<Longrightarrow> 4 < length f"
  using packet_parts(7) [OF aes_packData_shape(1) codec16_le, of "fst s" "fst m" "snd m" "snd s" f "fst s'" "snd s'"]
  by (fastforce simp: aes_ok_def aes_frame_def)

interpretation aesp: packet_decoder aes_frame "\<lambda>_. fst" aes_ok aes_rawTrans aes_step aes_sync
proof unfold_locales
  show "aes_sync s d \<Longrightarrow> \<not> aes_rawTrans d" for s d by (simp add: aes_sync_def)
qed (blast intro: aes_step_packet aes_step_prefix aes_frame_long)+

lemma aes_packs_step:
  assumes "aes_packData a d full g = (f, a1, g1)"
  shows "userKey (aes_userData a1) = userKey (aes_userData a)" "aes_hmac a1 = aes_hmac a"
    "aes_frame (a, g) (d, full) = (f, a1, g1)"
  using assms by (auto simp: aes_packData_def aes_frame_def Let_def split: prod.splits)

lemma aes_frames_packs: "aesp.frames (a, g) (map (\<lambda>d. (d, full)) ds) = aes_packs full ds a g"
  by (induction ds arbitrary: a g) (auto simp: aes_frame_def split: prod.splits)

lemma aes_payloads: "aesp.payloads s (map (\<lambda>d. (d, full)) ds) = concat ds"
  by (induction ds arbitrary: s) auto

lemma aes_oks: "\<forall>d \<in> set ds. length d \<le> 8100 \<Longrightarrow> \<forall>k x. 4 \<le> length (aes_hmac (fst s) k x) \<Longrightarrow> aesp.oks s (map (\<lambda>d. (d, full)) ds)"
proof (induction ds arbitrary: s)
  case (Cons d ds)
  obtain f a1 g1 where f: "aes_packData (fst s) d full (snd s) = (f, a1, g1)" by (cases "aes_packData (fst s) d full (snd s)") auto
  have "aes_ok s (d, full)" using Cons.prems by (simp add: aes_ok_def)
  then show ?case using Cons aes_packs_step(2,3) [OF f] by auto
qed simp

text \<open>A turn that delivers takes the whole packet, of at least seven bytes.\<close>

lemma v4_step_takes: "v4_step a src = DNext a' x n \<Longrightarrow> 7 \<le> n \<and> n < 8192"
  by (auto simp: v4_step_def Let_def split: if_splits go.splits)

lemma aes_step_takes: "aes_step a src = DNext a' x n \<Longrightarrow> 7 \<le> n \<and> n < 8192"
  by (auto simp: aes_step_def Let_def split: if_splits go.splits)

section \<open>Properties\<close>

text \<open>
  C8. A client that has sent its header and a server with the same \<open>auth_aes128\<close> user key agree on
  whatever is written: the packets \<open>Encode\<close> makes of any bytes, with any paddings, are decoded by
  \<open>Decode\<close> to those bytes, however the stream is cut into reads; nothing is left over, and the
  packet counters agree again, so that the next write is decoded as well.
\<close>

theorem auth_aes128_round_trip:
  assumes "aes_hasSentHeader a" "aes_sync (a, g) d"
    and "aes_Encode P D now b g a = (Ret (concat cs), g', a')"
  shows "\<exists>d'. feed aes_Decode d [] [] cs = (Ret (), d', b, []) \<and> aes_sync (a', g') d'"
proof -
  let ?ms = "map (\<lambda>p. (p, length b)) (pieces 8100 b)"
  have "\<forall>p \<in> set (pieces 8100 b). length p \<le> 8100" using length_pieces [of 8100 _ b] by simp
  then have "aesp.oks (a, g) ?ms" using assms(2) by (intro aes_oks) (simp_all add: aes_sync_def)
  moreover have "aesp.frames (a, g) ?ms = (concat cs, (a', g'))"
    using assms(1,3) by (auto simp: aes_frames_packs aes_Encode_def split: prod.splits)
  ultimately show ?thesis
    using aesp.decode_stream [OF assms(2), of ?ms cs] by (simp add: aes_payloads concat_pieces aes_Decode_def)
qed

definition toy_aes :: authAES128 where
  "toy_aes = (fst (newAuthAES128SHA1 toy_digests toy_Base []))\<lparr>aes_hasSentHeader := True, aes_packID := 7, aes_recvID := 7\<rparr>"

theorem auth_aes128_round_trip_witness:
  "\<exists>w g' a' d'. aes_Encode toy_prims toy_digests 0 [1, 2, 3] [5] toy_aes = (Ret w, g', a')
     \<and> feed aes_Decode toy_aes [] [] (bytewise w) = (Ret (), d', [1, 2, 3], [])"
proof -
  have s: "aes_hasSentHeader toy_aes" "aes_sync (toy_aes, [5]) toy_aes"
    by (simp_all add: toy_aes_def aes_sync_def newAuthAES128SHA1_def newAuthAES128_def toy_digests_def split: prod.splits)
  obtain w g' a' where e: "aes_Encode toy_prims toy_digests 0 [1, 2, 3] [5] toy_aes = (Ret w, g', a')"
    using s(1) by (cases "aes_packs (length [1, 2, 3 :: byte]) (pieces 8100 [1, 2, 3]) toy_aes [5]") (simp add: aes_Encode_def)
  show ?thesis using auth_aes128_round_trip [OF s, of toy_prims toy_digests 0 "[1, 2, 3]" "bytewise w" g' a'] e by auto
qed

text \<open>
  The same for \<open>auth_sha1_v4\<close>, whose packets are checked with CRC-32 and Adler-32 only.
\<close>

theorem auth_sha1_v4_round_trip:
  assumes "v4_hasSentHeader a" "\<not> v4_rawTrans d" "v4_Encode D now b g a = (concat cs, g', a')"
  shows "\<exists>d'. feed v4_Decode d [] [] cs = (Ret (), d', b, []) \<and> \<not> v4_rawTrans d'"
proof -
  have "\<forall>p \<in> set (pieces 8100 b). length p \<le> 8100" using length_pieces [of 8100 _ b] by simp
  then have "v4p.oks g (pieces 8100 b)" by (rule v4_oks)
  moreover have "v4p.frames g (pieces 8100 b) = (concat cs, g')"
    using assms(1,3) by (auto simp: v4_frames_packs v4_Encode_def split: prod.splits)
  ultimately show ?thesis
    using v4p.decode_stream [OF assms(2), of g "pieces 8100 b" cs] by (simp add: v4_payloads concat_pieces v4_Decode_def)
qed

definition toy_v4 :: authSHA1V4 where
  "toy_v4 = (newAuthSHA1V4 toy_Base)\<lparr>v4_hasSentHeader := True\<rparr>"

theorem auth_sha1_v4_round_trip_witness:
  "\<exists>w g' a' d'. v4_Encode toy_digests 0 [1, 2, 3] [5] toy_v4 = (w, g', a')
     \<and> feed v4_Decode toy_v4 [] [] (bytewise w) = (Ret (), d', [1, 2, 3], [])"
proof -
  have s: "v4_hasSentHeader toy_v4" "\<not> v4_rawTrans toy_v4" by (simp_all add: toy_v4_def newAuthSHA1V4_def)
  obtain w g' a' where e: "v4_Encode toy_digests 0 [1, 2, 3] [5] toy_v4 = (w, g', a')"
    by (cases "v4_Encode toy_digests 0 [1, 2, 3] [5] toy_v4")
  show ?thesis using auth_sha1_v4_round_trip [OF s, of toy_digests 0 "[1, 2, 3]" "[5]" "bytewise w" g' a'] e by auto
qed

end
