(* ===== verification/Ssr_Chain.thy ===== *)
theory Ssr_Chain
  imports Ssr_Base
begin

unbundle bit_operations_syntax

text \<open>
  The SSR protocols with a chain of digests: \<open>ssr/protocol/auth_chain_a.go\<close> and \<open>auth_chain_b.go\<close>. The
  length of each packet is hidden with the digest of the packet before it, the data is encrypted with
  RC4, and the length of the padding comes from a generator that is seeded with that digest.
\<close>

section \<open>Model of auth\_chain\_a.go\<close>

text \<open>
  \<open>randDataLengthMethod\<close>: the length, the digest it was given (its first bytes are overwritten) and the
  generator afterwards.
\<close>

type_synonym randDataLengthMethod = "nat \<Rightarrow> bytes \<Rightarrow> XorShift128Plus \<Rightarrow> (nat \<times> bytes \<times> XorShift128Plus) go"

record 'st authChain =
  ch_Base :: Base
  ch_authData :: authData
  ch_userData :: userData
  ch_iv :: bytes
  ch_salt :: string
  ch_hasSentHeader :: bool
  ch_rawTrans :: bool
  ch_lastClientHash :: bytes
  ch_lastServerHash :: bytes
  ch_encrypter :: "'st option"
  ch_decrypter :: "'st option"
  ch_randomClient :: XorShift128Plus
  ch_randomServer :: XorShift128Plus
  ch_randDataLength :: randDataLengthMethod
  ch_packID :: "32 word"
  ch_recvID :: "32 word"

definition Uint16 :: "bytes \<Rightarrow> 16 word" where
  "Uint16 bs = word_of_nat (le_val bs)"

definition getRandStartPos :: "nat \<Rightarrow> XorShift128Plus \<Rightarrow> nat \<times> XorShift128Plus" where
  "getRandStartPos n r = (if n = 0 then (0, r) else case xs_Next r of (x, r') \<Rightarrow> (unat x mod 8589934609 mod n, r'))"

text \<open>The choice by length that both variants end with.\<close>

definition randByLength :: "nat \<Rightarrow> XorShift128Plus \<Rightarrow> nat \<times> XorShift128Plus" where
  "randByLength n r = (case xs_Next r of (x, r') \<Rightarrow>
     (unat x mod (if 1300 < n then 31 else if 900 < n then 127 else if 400 < n then 521 else 1021), r'))"

definition chainA_getRandLength :: randDataLengthMethod where
  "chainA_getRandLength n lastHash r =
     (if 1440 < n then Ret (0, lastHash, r)
      else bind_go (InitFromBinAndLength lastHash n) (\<lambda>(r1, h1).
        case randByLength n r1 of (k, r2) \<Rightarrow> Ret (k, h1, r2)))"

definition udpGetRandLength :: "bytes \<Rightarrow> (nat \<times> XorShift128Plus) go" where
  "udpGetRandLength lastHash = bind_go (InitFromBin lastHash) (\<lambda>r. case xs_Next r of (x, r') \<Rightarrow> Ret (unat x mod 127, r'))"

definition newAuthChain :: "string \<Rightarrow> Base \<Rightarrow> rng \<Rightarrow> 'st authChain \<times> rng" where
  "newAuthChain salt b g = (case initUserData (\<lambda>k. k) b g of (u, g') \<Rightarrow>
     (\<lparr>ch_Base = b, ch_authData = \<lparr>clientID = replicate 4 0, connectionID = 0\<rparr>, ch_userData = u, ch_iv = [], ch_salt = salt,
       ch_hasSentHeader = False, ch_rawTrans = False, ch_lastClientHash = [], ch_lastServerHash = [],
       ch_encrypter = None, ch_decrypter = None, ch_randomClient = (0, 0), ch_randomServer = (0, 0),
       ch_randDataLength = (\<lambda>_ _ _. Panic), ch_packID = 0, ch_recvID = 0\<rparr>, g'))"

definition newAuthChainA :: "Base \<Rightarrow> rng \<Rightarrow> 'st authChain \<times> rng" where
  "newAuthChainA = newAuthChain ''auth_chain_a''"

definition chainA_StreamConn :: "bytes \<Rightarrow> rng \<Rightarrow> 'st authChain \<Rightarrow> 'st authChain \<times> 'st authChain \<times> rng" where
  "chainA_StreamConn iv g a = (case authData_next (ch_authData a) g of (ad, g') \<Rightarrow>
     (\<lparr>ch_Base = ch_Base a, ch_authData = ad, ch_userData = ch_userData a, ch_iv = iv, ch_salt = ch_salt a,
       ch_hasSentHeader = False, ch_rawTrans = False, ch_lastClientHash = [], ch_lastServerHash = [],
       ch_encrypter = None, ch_decrypter = None, ch_randomClient = (0, 0), ch_randomServer = (0, 0),
       ch_randDataLength = chainA_getRandLength, ch_packID = 1, ch_recvID = 1\<rparr>,
      a\<lparr>ch_authData := ad\<rparr>, g'))"

definition ch_macKey :: "'st authChain \<Rightarrow> 32 word \<Rightarrow> bytes" where
  "ch_macKey a i = userKey (ch_userData a) @ le32 (unat i)"

text \<open>One turn of the loop of \<open>Decode\<close>, with \<open>src.Len() > 4\<close>.\<close>

definition chain_step :: "('blk, 'st) prims \<Rightarrow> digests \<Rightarrow> 'st authChain \<Rightarrow> bytes \<Rightarrow> 'st authChain dstep" where
  "chain_step P D a src =
     (case slice (ch_lastServerHash a) 14 16 of Ret h2 \<Rightarrow>
        (let dataLength = unat (Uint16 (take 2 src) XOR Uint16 h2) in
         case ch_randDataLength a dataLength (ch_lastServerHash a) (ch_randomServer a) of
           Ret (rl, h1, r1) \<Rightarrow>
             (let a1 = a\<lparr>ch_lastServerHash := h1, ch_randomServer := r1\<rparr>; n = dataLength + rl in
              if 4096 \<le> n then DErr ErrAuthChainLength (a1\<lparr>ch_rawTrans := True\<rparr>)
              else if length src < 4 + n then DWait a1
              else let serverHash = HmacMD5 D (ch_macKey a (ch_recvID a)) (take (n + 2) src) in
                if take 2 serverHash \<noteq> take 2 (drop (n + 2) src)
                then DErr ErrAuthChainChksum (a1\<lparr>ch_rawTrans := True\<rparr>)
                else case (if 0 < dataLength \<and> 0 < rl then getRandStartPos rl r1 else (0, r1)) of (p, r2) \<Rightarrow>
                  let a2 = a1\<lparr>ch_lastServerHash := serverHash, ch_randomServer := r2\<rparr> in
                  case ch_decrypter a of
                    None \<Rightarrow> DPanic a2
                  | Some st \<Rightarrow> (case xks P st (take dataLength (drop (2 + p) src)) of (wantedData, st') \<Rightarrow>
                      let a3 = a2\<lparr>ch_decrypter := Some st'\<rparr>; a4 = a3\<lparr>ch_recvID := ch_recvID a + 1\<rparr> in
                      if ch_recvID a = 1 then (if dataLength < 2 then DPanic a3 else DNext a4 (drop 2 wantedData) (n + 4))
                      else DNext a4 wantedData (n + 4)))
         | _ \<Rightarrow> DPanic a)
      | _ \<Rightarrow> DPanic a)"

definition chain_Decode :: "('blk, 'st) prims \<Rightarrow> digests \<Rightarrow> 'st authChain \<Rightarrow> bytes \<Rightarrow> bytes \<Rightarrow> unit go \<times> 'st authChain \<times> bytes \<times> bytes" where
  "chain_Decode P D = decode ch_rawTrans (chain_step P D)"

definition putMixedRandDataAndData :: "'st authChain \<Rightarrow> bytes \<Rightarrow> rng \<Rightarrow> (bytes \<times> 'st authChain \<times> rng) go" where
  "putMixedRandDataAndData a data g =
     bind_go (ch_randDataLength a (length data) (ch_lastClientHash a) (ch_randomClient a)) (\<lambda>(rl, h1, r1).
       let a1 = a\<lparr>ch_lastClientHash := h1, ch_randomClient := r1\<rparr> in
       if data = [] then (case rand_bytes rl g of (x, g1) \<Rightarrow> Ret (x, a1, g1))
       else if 0 < rl then
         (case getRandStartPos rl r1 of (startPos, r2) \<Rightarrow>
          case rand_bytes startPos g of (x, g1) \<Rightarrow>
          case rand_bytes (rl - startPos) g1 of (y, g2) \<Rightarrow> Ret (x @ data @ y, a1\<lparr>ch_randomClient := r2\<rparr>, g2))
       else Ret (data, a1, g))"

text \<open>
  \<open>packData\<close>: the packet, and the bytes of the caller after their encryption in place.
\<close>

definition chain_packData :: "('blk, 'st) prims \<Rightarrow> digests \<Rightarrow> 'st authChain \<Rightarrow> bytes \<Rightarrow> rng \<Rightarrow> (bytes \<times> bytes \<times> 'st authChain \<times> rng) go" where
  "chain_packData P D a data g =
     (case ch_encrypter a of
        None \<Rightarrow> Panic
      | Some st \<Rightarrow> (case xks P st data of (enc, st') \<Rightarrow>
          bind_go (slice (ch_lastClientHash a) 14 16) (\<lambda>h2.
            let a1 = a\<lparr>ch_encrypter := Some st', ch_packID := ch_packID a + 1\<rparr>;
                len = (word_of_nat (length enc) :: 16 word) XOR Uint16 h2 in
            bind_go (putMixedRandDataAndData a1 enc g) (\<lambda>(mixed, a2, g1).
              let body = le16 (unat len) @ mixed;
                  h = HmacMD5 D (ch_macKey a (ch_packID a)) body
              in Ret (body @ take 2 h, enc, a2\<lparr>ch_lastClientHash := h\<rparr>, g1)))))"

definition initRC4Cipher :: "('blk, 'st) prims \<Rightarrow> 'st authChain \<Rightarrow> 'st authChain go" where
  "initRC4Cipher P a =
     (case Kdf P (base64 (userKey (ch_userData a)) @ base64 (ch_lastClientHash a)) 16 of
        None \<Rightarrow> Panic
      | Some key \<Rightarrow> (let c = (case rc4_NewCipher P key of Ret st \<Rightarrow> Some st | _ \<Rightarrow> None) in
          Ret (a\<lparr>ch_encrypter := c, ch_decrypter := c\<rparr>)))"

definition chain_packAuthData :: "('blk, 'st) prims \<Rightarrow> digests \<Rightarrow> nat \<Rightarrow> 'st authChain \<Rightarrow> bytes \<Rightarrow> rng \<Rightarrow> (bytes \<times> bytes \<times> 'st authChain \<times> rng) go" where
  "chain_packAuthData P D now a data g =
     (case rand_bytes 4 g of (chk, g1) \<Rightarrow>
      let ch = HmacMD5 D (ch_iv a @ b_Key (ch_Base a)) chk;
          uk = userKey (ch_userData a) in
      bind_go (initRC4Cipher P (a\<lparr>ch_lastClientHash := ch\<rparr>)) (\<lambda>a1.
        let uid = le32 (unat ((word_of_nat (le_val (userID (ch_userData a))) :: 32 word) XOR word_of_nat (le_val (take 4 (drop 8 ch)))))
        in case putEncryptedData P D now (ch_authData a) uk (b_Overhead (ch_Base a)) 0 (ch_salt a) of
             Ret enc \<Rightarrow>
               (let sh = HmacMD5 D uk (uid @ enc) in
                bind_go (chain_packData P D (a1\<lparr>ch_lastServerHash := sh\<rparr>) data g1) (\<lambda>(p, enc', a2, g2).
                  Ret (chk @ take 8 ch @ uid @ enc @ take 4 sh @ p, enc', a2, g2)))
           | Err _ \<Rightarrow> Ret ([], data, a1, g1)
           | Panic \<Rightarrow> Panic))"

fun chain_packs :: "('blk, 'st) prims \<Rightarrow> digests \<Rightarrow> bytes list \<Rightarrow> 'st authChain \<Rightarrow> rng \<Rightarrow> (bytes \<times> bytes \<times> 'st authChain \<times> rng) go" where
  "chain_packs P D [] a g = Ret ([], [], a, g)"
| "chain_packs P D (d # ds) a g = bind_go (chain_packData P D a d g) (\<lambda>(p, e, a1, g1).
     bind_go (chain_packs P D ds a1 g1) (\<lambda>(ps, es, a2, g2). Ret (p @ ps, e @ es, a2, g2)))"

text \<open>\<open>Encode\<close>: the bytes it writes, and what it leaves in the caller's slice.\<close>

definition chain_Encode :: "('blk, 'st) prims \<Rightarrow> digests \<Rightarrow> nat \<Rightarrow> bytes \<Rightarrow> rng \<Rightarrow> 'st authChain \<Rightarrow> (bytes \<times> bytes \<times> 'st authChain \<times> rng) go" where
  "chain_Encode P D now b g a =
     (if ch_hasSentHeader a then chain_packs P D (pieces 2800 b) a g
      else case getDataLength b g of (dl, g1) \<Rightarrow>
        bind_go (chain_packAuthData P D now a (take dl b) g1) (\<lambda>(h, e, a1, g2).
          bind_go (chain_packs P D (pieces 2800 (drop dl b)) (a1\<lparr>ch_hasSentHeader := True\<rparr>) g2) (\<lambda>(ps, es, a2, g3).
            Ret (h @ ps, e @ es, a2, g3))))"

definition packet_key :: "('blk, 'st) prims \<Rightarrow> 'st authChain \<Rightarrow> bytes \<Rightarrow> 'st go" where
  "packet_key P a md5Data =
     (case Kdf P (base64 (userKey (ch_userData a)) @ base64 md5Data) 16 of None \<Rightarrow> Panic | Some key \<Rightarrow> rc4_NewCipher P key)"

definition chain_DecodePacket :: "('blk, 'st) prims \<Rightarrow> digests \<Rightarrow> 'st authChain \<Rightarrow> bytes \<Rightarrow> bytes go" where
  "chain_DecodePacket P D a b =
     (if length b < 9 then Err ErrAuthChainLength
      else if take 1 (HmacMD5 D (userKey (ch_userData a)) (take (length b - 1) b)) \<noteq> drop (length b - 1) b then Err ErrAuthChainChksum
      else let md5Data = HmacMD5 D (b_Key (ch_Base a)) (take 7 (drop (length b - 8) b)) in
        bind_go (udpGetRandLength md5Data) (\<lambda>(rl, _).
          bind_go (packet_key P a md5Data) (\<lambda>st.
            bind_go (slice b 0 (int (length b) - 8 - int rl)) (\<lambda>wantedData. Ret (fst (xks P st wantedData))))))"

definition chain_EncodePacket :: "('blk, 'st) prims \<Rightarrow> digests \<Rightarrow> 'st authChain \<Rightarrow> bytes \<Rightarrow> rng \<Rightarrow> (bytes \<times> rng) go" where
  "chain_EncodePacket P D a b g =
     (case rand_bytes 3 g of (ad, g1) \<Rightarrow>
      let md5Data = HmacMD5 D (b_Key (ch_Base a)) ad in
      bind_go (udpGetRandLength md5Data) (\<lambda>(rl, _).
        bind_go (packet_key P a md5Data) (\<lambda>st.
          case rand_bytes rl g1 of (rnd, g2) \<Rightarrow>
          let uid = le32 (unat ((word_of_nat (le_val (userID (ch_userData a))) :: 32 word) XOR word_of_nat (le_val (take 4 md5Data))));
              buf = fst (xks P st b) @ rnd @ ad @ uid
          in Ret (buf @ take 1 (HmacMD5 D (userKey (ch_userData a)) buf), g2))))"

section \<open>Model of auth\_chain\_b.go\<close>

definition newAuthChainB :: "Base \<Rightarrow> rng \<Rightarrow> 'st authChain \<times> rng" where
  "newAuthChainB = newAuthChain ''auth_chain_b''"

fun xs_sizes :: "nat \<Rightarrow> XorShift128Plus \<Rightarrow> nat list \<times> XorShift128Plus" where
  "xs_sizes 0 r = ([], r)"
| "xs_sizes (Suc n) r = (case xs_Next r of (x, r1) \<Rightarrow> case xs_sizes n r1 of (xs, r2) \<Rightarrow>
     (unat x mod 2340 mod 2040 mod 1440 # xs, r2))"

text \<open>\<open>initDataSize\<close>: the two sorted lists of sizes and the generator; it is seeded with the key.\<close>

definition initDataSize :: "bytes \<Rightarrow> (nat list \<times> nat list \<times> XorShift128Plus) go" where
  "initDataSize key = bind_go (InitFromBin key) (\<lambda>r.
     case xs_Next r of (x, r1) \<Rightarrow> case xs_sizes (unat x mod 8 + 4) r1 of (l1, r2) \<Rightarrow>
     case xs_Next r2 of (y, r3) \<Rightarrow> case xs_sizes (unat y mod 16 + 8) r3 of (l2, r4) \<Rightarrow>
     Ret (sort l1, sort l2, r4))"

text \<open>\<open>sort.Search(n, f)\<close>: the binary search between \<open>i\<close> and \<open>j\<close>.\<close>

function sort_Search :: "nat \<Rightarrow> nat \<Rightarrow> (nat \<Rightarrow> bool) \<Rightarrow> nat" where
  "sort_Search i j f = (if j \<le> i then i else let h = (i + j) div 2 in
     if f h then sort_Search i h f else sort_Search (h + 1) j f)"
  by pat_completeness auto
termination
  by (relation "measure (\<lambda>(i, j, f). j - i)") auto

declare sort_Search.simps [simp del]

definition size_pos :: "nat list \<Rightarrow> nat \<Rightarrow> XorShift128Plus \<Rightarrow> nat \<times> nat \<times> XorShift128Plus" where
  "size_pos l want r =
     (let pos = sort_Search 0 (length l) (\<lambda>i. want \<le> l ! i) in
      case xs_Next r of (x, r') \<Rightarrow> (pos, pos + unat x mod length l, r'))"

definition chainB_getRandLength :: "nat list \<Rightarrow> nat list \<Rightarrow> nat \<Rightarrow> randDataLengthMethod" where
  "chainB_getRandLength l1 l2 overhead n lashHash r =
     (if 1440 \<le> n then Ret (0, lashHash, r)
      else bind_go (InitFromBinAndLength lashHash n) (\<lambda>(r0, h1).
        case size_pos l1 (n + overhead) r0 of (_, fp, r1) \<Rightarrow>
        if fp < length l1 then Ret (l1 ! fp - n - overhead, h1, r1)
        else case size_pos l2 (n + overhead) r1 of (pos, fp, r2) \<Rightarrow>
          if fp < length l2 then Ret (l2 ! fp - n - overhead, h1, r2)
          else if fp < pos + length l2 - 1 then Ret (0, h1, r2)
          else case randByLength n r2 of (k, r3) \<Rightarrow> Ret (k, h1, r3)))"

definition chainB_StreamConn :: "bytes \<Rightarrow> rng \<Rightarrow> 'st authChain \<Rightarrow> ('st authChain \<times> 'st authChain \<times> rng) go" where
  "chainB_StreamConn iv g a = (case chainA_StreamConn iv g a of (p, a', g') \<Rightarrow>
     bind_go (initDataSize (b_Key (ch_Base a))) (\<lambda>(l1, l2, r).
       Ret (p\<lparr>ch_randDataLength := chainB_getRandLength l1 l2 (b_Overhead (ch_Base a)), ch_randomServer := r\<rparr>, a', g')))"

section \<open>The length of the padding\<close>

text \<open>
  What the packets need of a length method: it fails for no digest of 16 bytes, it depends on the digest
  only from its third byte on, it changes at most the first two, a packet with it stays below 4096 bytes,
  and a padding comes with the same state of the generator at both ends.
\<close>

definition length_laws :: "randDataLengthMethod \<Rightarrow> bool" where
  "length_laws f \<longleftrightarrow> (\<forall>n h h' x x'. length h = 16 \<longrightarrow> length h' = 16 \<longrightarrow> drop 2 h = drop 2 h' \<longrightarrow>
     (\<exists>rl k k' y y'. f n h x = Ret (rl, k, y) \<and> f n h' x' = Ret (rl, k', y') \<and> length k = 16 \<and> length k' = 16
        \<and> drop 2 k = drop 2 h \<and> drop 2 k' = drop 2 h \<and> (0 < rl \<longrightarrow> y = y') \<and> (n \<le> 2800 \<longrightarrow> n + rl < 4096)))"

lemma length_lawsE:
  assumes "length_laws f" "length h = 16" "length h' = 16" "drop 2 h = drop 2 h'"
  obtains rl k k' y y' where "f n h x = Ret (rl, k, y)" "f n h' x' = Ret (rl, k', y')" "length k = 16" "length k' = 16"
    "drop 2 k = drop 2 h" "drop 2 k' = drop 2 h" "0 < rl \<Longrightarrow> y = y'" "n \<le> 2800 \<Longrightarrow> n + rl < 4096"
  using assms unfolding length_laws_def by metis

lemma InitFromBinAndLength_seed:
  assumes "length h = 16"
  obtains r where "\<And>h'. length h' = 16 \<Longrightarrow> drop 2 h' = drop 2 h \<Longrightarrow> InitFromBinAndLength h' n = Ret (r, le16 n @ drop 2 h)"
  by (auto simp: InitFromBinAndLength_def)

lemma randByLength_bound: "fst (randByLength n r) < 1021"
proof -
  have "m mod k < 1021" if "0 < k" "k \<le> 1021" for m k :: nat using mod_less_divisor [OF that(1), of m] that(2) by linarith
  then show ?thesis by (simp add: randByLength_def split: prod.splits)
qed

lemma chainA_length_laws: "length_laws chainA_getRandLength"
  unfolding length_laws_def
proof (intro allI impI)
  fix n h h' x x' assume h: "length (h :: bytes) = 16" "length (h' :: bytes) = 16" "drop 2 h = drop 2 h'"
  obtain r where r: "\<And>h'. length h' = 16 \<Longrightarrow> drop 2 h' = drop 2 h \<Longrightarrow> InitFromBinAndLength h' n = Ret (r, le16 n @ drop 2 h)"
    using InitFromBinAndLength_seed [OF h(1)] by blast
  show "\<exists>rl k k' y y'. chainA_getRandLength n h x = Ret (rl, k, y) \<and> chainA_getRandLength n h' x' = Ret (rl, k', y') \<and> length k = 16
      \<and> length k' = 16 \<and> drop 2 k = drop 2 h \<and> drop 2 k' = drop 2 h \<and> (0 < rl \<longrightarrow> y = y') \<and> (n \<le> 2800 \<longrightarrow> n + rl < 4096)"
    using h r [OF h(1)] r [OF h(2)] randByLength_bound [of n r]
    by (cases "1440 < n") (auto simp: chainA_getRandLength_def split: prod.splits)
qed

text \<open>The binary search finds the first index at which a monotone predicate holds.\<close>

lemma sort_Search_spec:
  assumes "i \<le> j" "\<And>a b. a \<le> b \<Longrightarrow> b < j \<Longrightarrow> f a \<Longrightarrow> f b"
  shows "i \<le> sort_Search i j f \<and> sort_Search i j f \<le> j \<and> (\<forall>k. i \<le> k \<and> k < sort_Search i j f \<longrightarrow> \<not> f k)
    \<and> (sort_Search i j f < j \<longrightarrow> f (sort_Search i j f))"
  using assms
proof (induction i j f rule: sort_Search.induct)
  case (1 i j f)
  show ?case
  proof (cases "j \<le> i")
    case True
    then have "sort_Search i j f = i" by (simp add: sort_Search.simps)
    then show ?thesis using "1.prems"(1) True by auto
  next
    case False
    define h where "h = (i + j) div 2"
    have h: "i \<le> h" "h < j" using False by (auto simp: h_def)
    show ?thesis
    proof (cases "f h")
      case True
      have "i \<le> sort_Search i h f \<and> sort_Search i h f \<le> h \<and> (\<forall>k. i \<le> k \<and> k < sort_Search i h f \<longrightarrow> \<not> f k)
          \<and> (sort_Search i h f < h \<longrightarrow> f (sort_Search i h f))"
        using "1.IH"(1) [OF False h_def True] "1.prems"(2) h by (meson less_trans)
      moreover have "sort_Search i j f = sort_Search i h f" using True False by (subst sort_Search.simps) (simp add: h_def)
      ultimately show ?thesis using True h by (metis le_less less_imp_le le_trans)
    next
      case f: False
      have "h + 1 \<le> sort_Search (h + 1) j f \<and> sort_Search (h + 1) j f \<le> j \<and> (\<forall>k. h + 1 \<le> k \<and> k < sort_Search (h + 1) j f \<longrightarrow> \<not> f k)
          \<and> (sort_Search (h + 1) j f < j \<longrightarrow> f (sort_Search (h + 1) j f))"
        using "1.IH"(2) [OF False h_def f] "1.prems"(2) h by simp
      moreover have "\<not> f k" if "k \<le> h" for k using "1.prems"(2) [OF that h(2)] f by blast
      moreover have "sort_Search i j f = sort_Search (h + 1) j f" using f False by (subst sort_Search.simps) (simp add: h_def)
      ultimately show ?thesis using h by (metis Suc_eq_plus1 le_trans not_less_eq_eq Suc_leD)
    qed
  qed
qed

text \<open>The size that is chosen is at least the wanted one, so that no subtraction is cut off.\<close>

lemma size_pos_enough:
  assumes "sorted l" "size_pos l want r = (pos, fp, r')" "fp < length l"
  shows "want \<le> l ! fp"
proof -
  let ?f = "\<lambda>i. want \<le> l ! i"
  have mono: "?f b" if "a \<le> b" "b < length l" "?f a" for a b using sorted_nth_mono [OF assms(1) that(1,2)] that(3) by simp
  have pos: "pos = sort_Search 0 (length l) ?f" "pos \<le> fp" using assms(2) by (auto simp: size_pos_def Let_def split: prod.splits)
  have "sort_Search 0 (length l) ?f < length l \<longrightarrow> ?f (sort_Search 0 (length l) ?f)"
    using sort_Search_spec [of 0 "length l" ?f] mono by blast
  then have "?f pos" using pos assms(3) by simp
  then show ?thesis using mono [OF pos(2) assms(3)] by simp
qed

lemma xs_sizes_spec: "xs_sizes n r = (xs, r') \<Longrightarrow> length xs = n \<and> (\<forall>z \<in> set xs. z < 1440)"
proof (induction n arbitrary: r xs)
  case (Suc n)
  obtain x r1 where x: "xs_Next r = (x, r1)" by (metis surj_pair)
  obtain ys r2 where y: "xs_sizes n r1 = (ys, r2)" by (metis surj_pair)
  show ?case using Suc.prems Suc.IH [of r1 ys] x y by auto
qed simp

lemma initDataSize_lists:
  assumes "initDataSize key = Ret (l1, l2, r)"
  shows "sorted l1" "sorted l2" "\<forall>z \<in> set l1. z < 1440" "\<forall>z \<in> set l2. z < 1440" "4 \<le> length l1" "8 \<le> length l2"
proof -
  obtain r0 where r0: "InitFromBin key = Ret r0" using assms by (cases "InitFromBin key") (auto simp: initDataSize_def)
  obtain x r1 where x: "xs_Next r0 = (x, r1)" by (metis surj_pair)
  obtain m1 r2 where m1: "xs_sizes (unat x mod 8 + 4) r1 = (m1, r2)" by (metis surj_pair)
  obtain y r3 where y: "xs_Next r2 = (y, r3)" by (metis surj_pair)
  obtain m2 r4 where m2: "xs_sizes (unat y mod 16 + 8) r3 = (m2, r4)" by (metis surj_pair)
  have l: "l1 = sort m1" "l2 = sort m2" using assms r0 x m1 y m2 by (simp_all add: initDataSize_def)
  show "sorted l1" "sorted l2" "\<forall>z \<in> set l1. z < 1440" "\<forall>z \<in> set l2. z < 1440" "4 \<le> length l1" "8 \<le> length l2"
    using xs_sizes_spec [OF m1] xs_sizes_spec [OF m2] by (simp_all add: l)
qed

lemma chainB_length_laws:
  assumes "\<forall>z \<in> set l1. z < 1440" "\<forall>z \<in> set l2. z < 1440"
  shows "length_laws (chainB_getRandLength l1 l2 ov)"
  unfolding length_laws_def
proof (intro allI impI)
  fix n h h' x x' assume h: "length (h :: bytes) = 16" "length (h' :: bytes) = 16" "drop 2 h = drop 2 h'"
  obtain r where r: "\<And>h'. length h' = 16 \<Longrightarrow> drop 2 h' = drop 2 h \<Longrightarrow> InitFromBinAndLength h' n = Ret (r, le16 n @ drop 2 h)"
    using InitFromBinAndLength_seed [OF h(1)] by blast
  obtain p1 f1 r1 where s1: "size_pos l1 (n + ov) r = (p1, f1, r1)" by (cases "size_pos l1 (n + ov) r") auto
  obtain p2 f2 r2 where s2: "size_pos l2 (n + ov) r1 = (p2, f2, r2)" by (cases "size_pos l2 (n + ov) r1") auto
  obtain k r3 where k: "randByLength n r2 = (k, r3)" by (metis surj_pair)
  have "k < 1021" using randByLength_bound [of n r2] k by simp
  moreover have "l1 ! f1 < 1440" if "f1 < length l1" using assms(1) that by simp
  moreover have "l2 ! f2 < 1440" if "f2 < length l2" using assms(2) that by simp
  ultimately show "\<exists>rl k k' y y'. chainB_getRandLength l1 l2 ov n h x = Ret (rl, k, y) \<and> chainB_getRandLength l1 l2 ov n h' x' = Ret (rl, k', y')
      \<and> length k = 16 \<and> length k' = 16 \<and> drop 2 k = drop 2 h \<and> drop 2 k' = drop 2 h \<and> (0 < rl \<longrightarrow> y = y') \<and> (n \<le> 2800 \<longrightarrow> n + rl < 4096)"
    using h r [OF h(1)] r [OF h(2)] s1 s2 k
    by (cases "1440 \<le> n"; cases x; cases x'; cases r1; cases r2; cases r3) (auto simp: chainB_getRandLength_def)
qed

section \<open>Packets of the chain\<close>

lemma stream_laws_step:
  assumes "stream_laws P e d" "xks P e a = (x, e')" "xks P d x = (y, d')"
  shows "y = a" "stream_laws P e' d'" "length x = length a"
proof -
  have L: "fst (xks P s (u @ v)) = fst (xks P s u) @ fst (xks P (snd (xks P s u)) v)" "length (fst (xks P s u)) = length u"
    "fst (xks P d (fst (xks P e u))) = u" for s u v
    using assms(1) unfolding stream_laws_def by blast+
  show "y = a" "length x = length a" using L(3) [of a] L(2) [of e a] assms(2,3) by simp_all
  then have "fst (xks P d' (fst (xks P e' b))) = b" for b
    using L(3) [of "a @ b"] L(1) [of e a b] L(1) [of d x "fst (xks P e' b)"] assms(2,3) by simp
  then show "stream_laws P e' d'" using assms(1) unfolding stream_laws_def by blast
qed

text \<open>
  The two ends agree: the same user key and length method, digests that differ at most in the two bytes
  the length method overwrites, and the next packet of one is the one the other expects.
\<close>

definition chain_sync :: "('blk, 'st) prims \<Rightarrow> 'st authChain \<times> rng \<Rightarrow> 'st authChain \<Rightarrow> bool" where
  "chain_sync P s d \<longleftrightarrow> userKey (ch_userData (fst s)) = userKey (ch_userData d)
     \<and> ch_randDataLength (fst s) = ch_randDataLength d \<and> length_laws (ch_randDataLength d)
     \<and> length (ch_lastClientHash (fst s)) = 16 \<and> length (ch_lastServerHash d) = 16
     \<and> drop 2 (ch_lastClientHash (fst s)) = drop 2 (ch_lastServerHash d)
     \<and> ch_packID (fst s) = ch_recvID d \<and> \<not> ch_rawTrans d
     \<and> (\<exists>e dd. ch_encrypter (fst s) = Some e \<and> ch_decrypter d = Some dd \<and> stream_laws P e dd)"

definition chain_frame :: "('blk, 'st) prims \<Rightarrow> digests \<Rightarrow> 'st authChain \<times> rng \<Rightarrow> bytes \<Rightarrow> bytes \<times> 'st authChain \<times> rng" where
  "chain_frame P D s data = (case chain_packData P D (fst s) data (snd s) of
     Ret (f, _, a', g') \<Rightarrow> (f, a', g') | _ \<Rightarrow> ([], s))"

text \<open>The first packet of a connection starts with two bytes that are not data of the stream.\<close>

definition chain_payload :: "'st authChain \<times> rng \<Rightarrow> bytes \<Rightarrow> bytes" where
  "chain_payload s data = (if ch_packID (fst s) = 1 then drop 2 data else data)"

text \<open>A writer in a state in which it can send the data as one packet.\<close>

definition chain_ok :: "('blk, 'st) prims \<Rightarrow> digests \<Rightarrow> 'st authChain \<times> rng \<Rightarrow> bytes \<Rightarrow> bool" where
  "chain_ok P D s data \<longleftrightarrow> data \<noteq> [] \<and> length data \<le> 2800 \<and> (ch_packID (fst s) = 1 \<longrightarrow> 2 \<le> length data)
     \<and> digest_laws D \<and> length_laws (ch_randDataLength (fst s)) \<and> length (ch_lastClientHash (fst s)) = 16
     \<and> (\<exists>e d. ch_encrypter (fst s) = Some e \<and> stream_laws P e d)"

lemma Uint16_le16: "Uint16 (le16 (unat (w :: 16 word))) = w"
proof -
  have "unat w < 65536" using unsigned_less [of w] by simp
  then show ?thesis by (simp add: Uint16_def)
qed

lemma getRandStartPos_less: "0 < n \<Longrightarrow> fst (getRandStartPos n r) < n"
  by (simp add: getRandStartPos_def split: prod.splits)

lemma hash_tail: "length h = 16 \<Longrightarrow> slice h 14 16 = Ret (drop 12 (drop 2 h))"
  by (simp add: slice_def)

text \<open>The packet: the hidden length, the padding around the encrypted data, two bytes of the digest.\<close>

lemma chain_packData_shape:
  assumes "ch_encrypter a = Some e" "xks P e data = (x, e')" "length x = length data" "data \<noteq> []" "length (ch_lastClientHash a) = 16"
    and "ch_randDataLength a (length data) (ch_lastClientHash a) (ch_randomClient a) = Ret (rl, k, y)"
    and "drop 2 (ch_lastClientHash a) = tl2" "ch_macKey a (ch_packID a) = mk" "0 < rl \<Longrightarrow> y = y'"
  obtains pre post body h ry g' where "chain_packData P D a data g = Ret (body @ take 2 h, x,
        a\<lparr>ch_encrypter := Some e', ch_packID := ch_packID a + 1, ch_lastClientHash := h, ch_randomClient := ry\<rparr>, g')"
    "body = le16 (unat ((word_of_nat (length data) :: 16 word) XOR Uint16 (drop 12 tl2))) @ pre @ x @ post"
    "h = HmacMD5 D mk body"
    "length pre = (if 0 < rl then fst (getRandStartPos rl y') else 0)" "length pre + length post = rl"
proof -
  obtain sp r2 where sp: "getRandStartPos rl y = (sp, r2)" by (metis surj_pair)
  obtain u g1 where u: "rand_bytes sp g = (u, g1)" by (metis surj_pair)
  obtain v g2 where v: "rand_bytes (rl - sp) g1 = (v, g2)" by (metis surj_pair)
  have len: "length u = sp" "length v = rl - sp" using length_rand_bytes [of sp g] length_rand_bytes [of "rl - sp" g1] u v by simp_all
  have x: "x \<noteq> []" using assms(3,4) by auto
  show ?thesis
  proof (cases "0 < rl")
    case True
    have "sp < rl" using getRandStartPos_less [OF True, of y] sp by simp
    then show ?thesis
      using assms(1,2,3,5-9) True sp u v len x that [where pre = u and post = v and ry = r2 and g' = g2, OF _ refl refl]
      by (simp add: chain_packData_def hash_tail putMixedRandDataAndData_def Let_def)
  next
    case False
    then show ?thesis
      using assms(1,2,3,5-8) False x that [where pre = "[]" and post = "[]" and ry = y and g' = g, OF _ refl refl]
      by (simp add: chain_packData_def hash_tail putMixedRandDataAndData_def Let_def)
  qed
qed

lemma chain_packData_ok:
  assumes "chain_ok P D (a, g) data"
  shows "\<exists>f x a' g'. chain_packData P D a data g = Ret (f, x, a', g') \<and> 4 < length f \<and> ch_packID a' = ch_packID a + 1"
proof -
  let ?c = "ch_lastClientHash a"
  have ok: "data \<noteq> []" "length ?c = 16" "length_laws (ch_randDataLength a)" "digest_laws D" using assms by (auto simp: chain_ok_def)
  obtain e d where e: "ch_encrypter a = Some e" "stream_laws P e d" using assms by (auto simp: chain_ok_def)
  obtain x e' where x: "xks P e data = (x, e')" by fastforce
  have len: "length x = length data" using stream_laws_step(3) [OF e(2) x] by fastforce
  obtain rl k y where r: "ch_randDataLength a (length data) ?c (ch_randomClient a) = Ret (rl, k, y)"
    using length_lawsE [OF ok(3,2,2) refl] by metis
  obtain pre post body h ry g' where b: "chain_packData P D a data g = Ret (body @ take 2 h, x,
        a\<lparr>ch_encrypter := Some e', ch_packID := ch_packID a + 1, ch_lastClientHash := h, ch_randomClient := ry\<rparr>, g')"
      and body: "body = le16 (unat ((word_of_nat (length data) :: 16 word) XOR Uint16 (drop 12 (drop 2 ?c)))) @ pre @ x @ post"
      and h: "h = HmacMD5 D (ch_macKey a (ch_packID a)) body"
    by (rule chain_packData_shape [OF e(1) x len ok(1,2) r refl refl refl, of D g])
  have "4 < length (body @ take 2 h)" using len ok(1,4) by (simp add: body h digest_laws_def)
  then show ?thesis using b by simp
qed

lemma chain_step_packet:
  assumes "chain_sync P s d" "chain_ok P D s data" "chain_frame P D s data = (f, s')"
  shows "\<exists>d'. chain_step P D d (f @ rest) = DNext d' (chain_payload s data) (length f) \<and> chain_sync P s' d'"
    and "f = p @ q \<Longrightarrow> q \<noteq> [] \<Longrightarrow> 4 < length p \<Longrightarrow> \<exists>d'. chain_step P D d p = DWait d' \<and> chain_sync P s d'"
proof -
  obtain a g where s: "s = (a, g)" by fastforce
  obtain e dd where e: "ch_encrypter a = Some e" "ch_decrypter d = Some dd" "stream_laws P e dd"
    using assms(1) by (auto simp: chain_sync_def s)
  obtain x e' where x: "xks P e data = (x, e')" by fastforce
  obtain z dd' where z: "xks P dd x = (z, dd')" by fastforce
  note st = stream_laws_step [OF e(3) x z]
  let ?n = "length data" and ?c = "ch_lastClientHash a" and ?sv = "ch_lastServerHash d"
  have hs: "length ?c = 16" "length ?sv = 16" "drop 2 ?c = drop 2 ?sv" "ch_randDataLength a = ch_randDataLength d" "length_laws (ch_randDataLength d)"
    "ch_macKey a (ch_packID a) = ch_macKey d (ch_recvID d)" "ch_packID a = ch_recvID d" and ok: "data \<noteq> []" "?n \<le> 2800" "ch_recvID d = 1 \<Longrightarrow> 2 \<le> ?n"
    and dg: "\<And>k b. length (HmacMD5 D k b) = 16"
    using assms(1,2) by (auto simp: chain_sync_def chain_ok_def s ch_macKey_def digest_laws_def)
  obtain rl k k' y y' where r: "ch_randDataLength a ?n ?c (ch_randomClient a) = Ret (rl, k, y)"
      "ch_randDataLength d ?n ?sv (ch_randomServer d) = Ret (rl, k', y')" "length k = 16" "length k' = 16"
      "drop 2 k' = drop 2 ?sv" "0 < rl \<Longrightarrow> y = y'" "?n + rl < 4096"
    using length_lawsE [OF hs(5,1,2,3), of ?n "ch_randomClient a" "ch_randomServer d"] hs(3,4) ok(2) by metis
  obtain pre post body h r2 g' where b: "chain_packData P D a data g = Ret (body @ take 2 h, x,
        a\<lparr>ch_encrypter := Some e', ch_packID := ch_packID a + 1, ch_lastClientHash := h, ch_randomClient := r2\<rparr>, g')"
      and body: "body = le16 (unat ((word_of_nat ?n :: 16 word) XOR Uint16 (drop 12 (drop 2 ?sv)))) @ pre @ x @ post"
      and h: "h = HmacMD5 D (ch_macKey d (ch_recvID d)) body"
      and pre: "length pre = (if 0 < rl then fst (getRandStartPos rl y') else 0)" "length pre + length post = rl"
    by (rule chain_packData_shape [OF e(1) x st(3) ok(1) hs(1) r(1) hs(3,6) r(6), of D g])
  have f: "f = body @ take 2 h" and s': "s' = (a\<lparr>ch_encrypter := Some e', ch_packID := ch_packID a + 1, ch_lastClientHash := h, ch_randomClient := r2\<rparr>, g')"
    using assms(3) b by (simp_all add: chain_frame_def s)
  have len: "length body = 2 + ?n + rl" "length f = 4 + ?n + rl" using pre(2) st(3) dg by (simp_all add: body f h)
  have n: "unat (Uint16 (take 2 body) XOR Uint16 (drop 12 (drop 2 ?sv))) = ?n"
    using ok(2) by (simp add: body Uint16_le16 xor.assoc unsigned_of_nat take_bit_nat_eq_self)
  have t: "take 2 (f @ rest) = take 2 body" "take (?n + rl + 2) (f @ rest) = body" "take 2 (drop (?n + rl + 2) (f @ rest)) = take 2 h"
    using len by (simp_all add: f dg h)
  have w: "take ?n (drop (2 + length pre) (f @ rest)) = x" using st(3) by (simp add: f body)
  define d1 where "d1 = d\<lparr>ch_lastServerHash := k', ch_randomServer := y'\<rparr>"
  show "\<exists>d'. chain_step P D d (f @ rest) = DNext d' (chain_payload s data) (length f) \<and> chain_sync P s' d'"
  proof -
    obtain q r3 where q: "(if 0 < ?n \<and> 0 < rl then getRandStartPos rl y' else (0, y')) = (q, r3)" by (metis surj_pair)
    have short: "?n < 2 \<Longrightarrow> ch_recvID d \<noteq> 1" using ok(3) by fastforce
    have qp: "q = length pre" using q pre ok(1) by (auto split: if_splits)
    define d2 where "d2 = d1\<lparr>ch_lastServerHash := h, ch_randomServer := r3, ch_decrypter := Some dd', ch_recvID := ch_recvID d + 1\<rparr>"
    have "chain_step P D d (f @ rest) = DNext d2 (chain_payload s data) (length f)"
      unfolding chain_step_def hash_tail [OF hs(2)] go.case Let_def t(1) n r(2) prod.case q t(2) t(3) h [symmetric] e(2) option.case w [unfolded qp [symmetric]] z
      using r(7) len short st(1) hs(7) by (simp add: d1_def d2_def chain_payload_def s)
    moreover have "chain_sync P s' d2" using assms(1) st(2) dg by (auto simp: chain_sync_def s s' d1_def d2_def h)
    ultimately show ?thesis by blast
  qed
  assume p: "f = p @ q" "q \<noteq> []" "4 < length p"
  have tp: "take 2 p = take 2 body" using t(1) p by simp
  have "length p < length f" using p(1,2) by (cases q) auto
  then have lp: "length p < 4 + (?n + rl)" using len(2) by simp
  have "chain_step P D d p = DWait d1"
    unfolding chain_step_def hash_tail [OF hs(2)] go.case Let_def tp n r(2) prod.case using r(7) lp by (simp add: d1_def)
  moreover have "chain_sync P s d1" using assms(1) r(4,5) by (auto simp: chain_sync_def s d1_def)
  ultimately show "\<exists>d'. chain_step P D d p = DWait d' \<and> chain_sync P s d'" by blast
qed

interpretation chp: packet_decoder "chain_frame P D" chain_payload "chain_ok P D" ch_rawTrans "chain_step P D"
    "\<lambda>s d. chain_sync P s d \<and> digest_laws D" for P :: "('blk, 'st) prims" and D
proof unfold_locales
  fix s data f s' assume "chain_ok P D s data" "chain_frame P D s data = (f, s')"
  then show "4 < length f" using chain_packData_ok [of P D "fst s" "snd s" data] by (auto simp: chain_frame_def)
next
  show "\<not> ch_rawTrans d" if "chain_sync P s d \<and> digest_laws D" for s d using that by (simp add: chain_sync_def)
next
  fix s d data f s' rest assume a: "chain_sync P s d \<and> digest_laws D" "chain_ok P D s data" "chain_frame P D s data = (f, s')"
  show "\<exists>d'. chain_step P D d (f @ rest) = DNext d' (chain_payload s data) (length f) \<and> chain_sync P s' d' \<and> digest_laws D"
    using chain_step_packet(1) [OF conjunct1 [OF a(1)] a(2,3), of rest] a(1) by simp
next
  fix s d data p q s' assume a: "chain_sync P s d \<and> digest_laws D" "chain_ok P D s data" "chain_frame P D s data = (p @ q, s')"
    and pq: "q \<noteq> []" "4 < length p"
  show "\<exists>d'. chain_step P D d p = DWait d' \<and> chain_sync P s d' \<and> digest_laws D"
    using chain_step_packet(2) [OF conjunct1 [OF a(1)] a(2,3) refl pq] a(1) by simp
qed

abbreviation chain_frames :: "('blk, 'st) prims \<Rightarrow> digests \<Rightarrow> 'st authChain \<times> rng \<Rightarrow> bytes list \<Rightarrow> bytes \<times> 'st authChain \<times> rng" where
  "chain_frames P D \<equiv> packet_decoder.frames (chain_frame P D)"

abbreviation chain_payloads :: "('blk, 'st) prims \<Rightarrow> digests \<Rightarrow> 'st authChain \<times> rng \<Rightarrow> bytes list \<Rightarrow> bytes" where
  "chain_payloads P D \<equiv> packet_decoder.payloads (chain_frame P D) chain_payload"

abbreviation chain_oks :: "('blk, 'st) prims \<Rightarrow> digests \<Rightarrow> 'st authChain \<times> rng \<Rightarrow> bytes list \<Rightarrow> bool" where
  "chain_oks P D \<equiv> packet_decoder.oks (chain_frame P D) (chain_ok P D)"

lemma chain_packs_frames:
  assumes "chain_sync P (a, g) d" "digest_laws D" "\<forall>x \<in> set ds. x \<noteq> [] \<and> length x \<le> 2800"
    and "\<forall>i < length ds. ch_packID a + of_nat i \<noteq> 1"
  shows "\<exists>ps es a' g'. chain_packs P D ds a g = Ret (ps, es, a', g') \<and> chain_frames P D (a, g) ds = (ps, a', g')
     \<and> chain_oks P D (a, g) ds \<and> chain_payloads P D (a, g) ds = concat ds"
  using assms
proof (induction ds arbitrary: a g d)
  case (Cons x ds)
  have id: "ch_packID a \<noteq> 1" using Cons.prems(4) by force
  have ok: "chain_ok P D (a, g) x" using Cons.prems(1-3) id by (auto simp: chain_ok_def chain_sync_def)
  obtain f e a1 g1 where f: "chain_packData P D a x g = Ret (f, e, a1, g1)" "ch_packID a1 = ch_packID a + 1"
    using chain_packData_ok [OF ok] by auto
  have fr: "chain_frame P D (a, g) x = (f, a1, g1)" using f(1) by (simp add: chain_frame_def)
  obtain d1 where "chain_sync P (a1, g1) d1" using chain_step_packet(1) [OF Cons.prems(1) ok fr, of "[]"] by blast
  moreover have "ch_packID a1 + of_nat i \<noteq> 1" if "i < length ds" for i
    using Cons.prems(4) [rule_format, of "Suc i"] that f(2) by (simp add: add.commute add.left_commute)
  ultimately obtain ps es a' g' where "chain_packs P D ds a1 g1 = Ret (ps, es, a', g')" "chain_frames P D (a1, g1) ds = (ps, a', g')"
      "chain_oks P D (a1, g1) ds" "chain_payloads P D (a1, g1) ds = concat ds"
    using Cons.IH [of a1 g1 d1] Cons.prems(2,3) by auto
  moreover have "chain_payload (a, g) x = x" using id by (simp add: chain_payload_def)
  ultimately show ?case using f(1) fr ok by simp
qed simp

section \<open>Properties\<close>

text \<open>
  C9. Once the header of a connection is sent, two ends of \<open>auth_chain_a\<close> or \<open>auth_chain_b\<close> that agree on
  the digest of the last packet, its number, the user key, the length method and the RC4 stream agree on
  whatever is written: \<open>Encode\<close> does not fail, and its packets are decoded by \<open>Decode\<close> to the bytes
  written, however the stream is cut into reads, after which the two ends agree again.
\<close>

theorem auth_chain_round_trip:
  assumes "ch_hasSentHeader a" "chain_sync P (a, g) d" "digest_laws D"
    and "\<forall>i < length (pieces 2800 b). ch_packID a + of_nat i \<noteq> 1"
  shows "\<exists>w e a' g'. chain_Encode P D now b g a = Ret (w, e, a', g') \<and>
    (\<forall>cs. concat cs = w \<longrightarrow> (\<exists>d'. feed (chain_Decode P D) d [] [] cs = (Ret (), d', b, []) \<and> chain_sync P (a', g') d'))"
proof -
  let ?ds = "pieces 2800 b"
  have "\<forall>p \<in> set ?ds. p \<noteq> [] \<and> length p \<le> 2800" using length_pieces [of 2800 _ b] by simp
  then obtain ps es a' g' where r: "chain_packs P D ?ds a g = Ret (ps, es, a', g')" "chain_frames P D (a, g) ?ds = (ps, a', g')"
      "chain_oks P D (a, g) ?ds" "chain_payloads P D (a, g) ?ds = b"
    using chain_packs_frames [OF assms(2,3) _ assms(4)] by (auto simp: concat_pieces)
  have "\<exists>d'. feed (chain_Decode P D) d [] [] cs = (Ret (), d', b, []) \<and> chain_sync P (a', g') d'" if "concat cs = ps" for cs
    using chp.decode_stream [of P "(a, g)" d D ?ds cs "(a', g')"] assms(2,3) r that by (auto simp: chain_Decode_def)
  then show ?thesis using r(1) assms(1) by (auto simp: chain_Encode_def)
qed

definition toy_chain :: "unit authChain" where
  "toy_chain = (fst (chainA_StreamConn [] [] (fst (newAuthChainA toy_Base []))))\<lparr>ch_hasSentHeader := True,
     ch_lastClientHash := replicate 16 3, ch_lastServerHash := replicate 16 3, ch_encrypter := Some (), ch_decrypter := Some (),
     ch_packID := 2, ch_recvID := 2\<rparr>"

theorem auth_chain_round_trip_witness:
  "\<exists>w e a' g' d'. chain_Encode toy_prims toy_digests 0 [1, 2, 3] [5] toy_chain = Ret (w, e, a', g')
     \<and> feed (chain_Decode toy_prims toy_digests) toy_chain [] [] (bytewise w) = (Ret (), d', [1, 2, 3], [])"
proof -
  have s: "ch_hasSentHeader toy_chain" "chain_sync toy_prims (toy_chain, [5]) toy_chain" "ch_packID toy_chain = 2"
    using chainA_length_laws toy_laws(3) by (auto simp: toy_chain_def chain_sync_def chainA_StreamConn_def split: prod.splits)
  have "\<forall>i < length (pieces 2800 [1, 2, 3]). ch_packID toy_chain + of_nat i \<noteq> 1" by (simp add: s(3) pieces.simps)
  then show ?thesis
    using auth_chain_round_trip [OF s(1,2) toy_digest_laws, of "[1, 2, 3]" 0] by (metis concat_bytewise)
qed

end
