(* ===== verification/Ssr_Conn.thy ===== *)
theory Ssr_Conn
  imports Ssr_Auth Ssr_Chain
begin

text \<open>
  The connections of an SSR protocol: \<open>ssr/protocol/stream.go\<close>, \<open>packet.go\<close> and \<open>origin.go\<close>, and the table
  of protocols of \<open>protocol.go\<close>. The connection underneath is any \<open>net.Conn\<close>: its operations are
  arguments.
\<close>

section \<open>Model of protocol.go\<close>

datatype 'st Protocol = Origin | SHA1V4 authSHA1V4 | AES128 authAES128 | ChainA "'st authChain" | ChainB "'st authChain"

definition GetProtocol :: "('blk, 'st) prims \<Rightarrow> digests \<Rightarrow> string \<Rightarrow> Base \<Rightarrow> rng \<Rightarrow> ('st Protocol \<times> rng) go" where
  "GetProtocol P D pname b g =
     (let add = (\<lambda>n. b\<lparr>b_Overhead := b_Overhead b + n\<rparr>) in
      if pname = ''origin'' then Ret (Origin, g)
      else if pname = ''auth_aes128_md5'' then (case newAuthAES128MD5 P D (add 9) g of (a, g') \<Rightarrow> Ret (AES128 a, g'))
      else if pname = ''auth_aes128_sha1'' then (case newAuthAES128SHA1 D (add 9) g of (a, g') \<Rightarrow> Ret (AES128 a, g'))
      else if pname = ''auth_chain_a'' then (case newAuthChainA (add 4) g of (a, g') \<Rightarrow> Ret (ChainA a, g'))
      else if pname = ''auth_chain_b'' then (case newAuthChainB (add 4) g of (a, g') \<Rightarrow> Ret (ChainB a, g'))
      else if pname = ''auth_sha1_v4'' then Ret (SHA1V4 (newAuthSHA1V4 (add 7)), g)
      else Err ErrUnsupportedProtocol)"

text \<open>
  The methods of the interface, by protocol. \<open>StreamConn\<close> gives the protocol of the new connection
  (\<open>None\<close> where it returns the connection itself) and the shared protocol after it.
\<close>

definition proto_StreamConn :: "bytes \<Rightarrow> rng \<Rightarrow> 'st Protocol \<Rightarrow> ('st Protocol option \<times> 'st Protocol \<times> rng) go" where
  "proto_StreamConn iv g pr = (case pr of
     Origin \<Rightarrow> Ret (None, Origin, g)
   | SHA1V4 a \<Rightarrow> (case v4_StreamConn iv g a of (p, a', g') \<Rightarrow> Ret (Some (SHA1V4 p), SHA1V4 a', g'))
   | AES128 a \<Rightarrow> (case aes_StreamConn iv g a of (p, a', g') \<Rightarrow> Ret (Some (AES128 p), AES128 a', g'))
   | ChainA a \<Rightarrow> (case chainA_StreamConn iv g a of (p, a', g') \<Rightarrow> Ret (Some (ChainA p), ChainA a', g'))
   | ChainB a \<Rightarrow> bind_go (chainB_StreamConn iv g a) (\<lambda>(p, a', g'). Ret (Some (ChainB p), ChainB a', g')))"

definition proto_Decode :: "('blk, 'st) prims \<Rightarrow> digests \<Rightarrow> 'st Protocol \<Rightarrow> bytes \<Rightarrow> bytes \<Rightarrow> unit go \<times> 'st Protocol \<times> bytes \<times> bytes" where
  "proto_Decode P D pr dst src = (case pr of
     Origin \<Rightarrow> (Ret (), Origin, dst @ src, [])
   | SHA1V4 a \<Rightarrow> (case v4_Decode a dst src of (r, a', x) \<Rightarrow> (r, SHA1V4 a', x))
   | AES128 a \<Rightarrow> (case aes_Decode a dst src of (r, a', x) \<Rightarrow> (r, AES128 a', x))
   | ChainA a \<Rightarrow> (case chain_Decode P D a dst src of (r, a', x) \<Rightarrow> (r, ChainA a', x))
   | ChainB a \<Rightarrow> (case chain_Decode P D a dst src of (r, a', x) \<Rightarrow> (r, ChainB a', x)))"

text \<open>\<open>Encode\<close> into an empty buffer: its bytes, and what is left in the slice of the caller.\<close>

definition proto_Encode :: "('blk, 'st) prims \<Rightarrow> digests \<Rightarrow> nat \<Rightarrow> bytes \<Rightarrow> rng \<Rightarrow> 'st Protocol \<Rightarrow> (bytes \<times> bytes \<times> 'st Protocol \<times> rng) go" where
  "proto_Encode P D now b g pr = (case pr of
     Origin \<Rightarrow> Ret (b, b, Origin, g)
   | SHA1V4 a \<Rightarrow> (case v4_Encode D now b g a of (w, g', a') \<Rightarrow> Ret (w, b, SHA1V4 a', g'))
   | AES128 a \<Rightarrow> (case aes_Encode P D now b g a of (r, g', a') \<Rightarrow> bind_go r (\<lambda>w. Ret (w, b, AES128 a', g')))
   | ChainA a \<Rightarrow> bind_go (chain_Encode P D now b g a) (\<lambda>(w, e, a', g'). Ret (w, e, ChainA a', g'))
   | ChainB a \<Rightarrow> bind_go (chain_Encode P D now b g a) (\<lambda>(w, e, a', g'). Ret (w, e, ChainB a', g')))"

definition proto_DecodePacket :: "('blk, 'st) prims \<Rightarrow> digests \<Rightarrow> 'st Protocol \<Rightarrow> bytes \<Rightarrow> bytes go" where
  "proto_DecodePacket P D pr b = (case pr of
     AES128 a \<Rightarrow> aes_DecodePacket a b
   | ChainA a \<Rightarrow> chain_DecodePacket P D a b
   | ChainB a \<Rightarrow> chain_DecodePacket P D a b
   | _ \<Rightarrow> Ret b)"

definition proto_EncodePacket :: "('blk, 'st) prims \<Rightarrow> digests \<Rightarrow> 'st Protocol \<Rightarrow> bytes \<Rightarrow> rng \<Rightarrow> (bytes \<times> rng) go" where
  "proto_EncodePacket P D pr b g = (case pr of
     AES128 a \<Rightarrow> Ret (aes_EncodePacket a b, g)
   | ChainA a \<Rightarrow> chain_EncodePacket P D a b g
   | ChainB a \<Rightarrow> chain_EncodePacket P D a b g
   | _ \<Rightarrow> Ret (b, g))"

section \<open>Model of stream.go\<close>

definition relayBufferSize :: nat where "relayBufferSize = 20 * 1024"

record ('c, 'st) Conn =
  cn_Conn :: 'c
  cn_Protocol :: "'st Protocol"
  cn_decoded :: bytes
  cn_underDecoded :: bytes

definition Conn_Read :: "('blk, 'st) prims \<Rightarrow> digests \<Rightarrow> (nat \<Rightarrow> ('c, bytes) proc) \<Rightarrow> nat \<Rightarrow> (('c, 'st) Conn, bytes) proc" where
  "Conn_Read P D rd k c =
     (if cn_decoded c \<noteq> [] then (Ret (take k (cn_decoded c)), c\<lparr>cn_decoded := drop k (cn_decoded c)\<rparr>)
      else case rd relayBufferSize (cn_Conn c) of
        (Ret x, u) \<Rightarrow>
          (case proto_Decode P D (cn_Protocol c) [] (cn_underDecoded c @ x) of
             (r, pr, dst, src) \<Rightarrow>
               let c1 = c\<lparr>cn_Conn := u, cn_Protocol := pr, cn_decoded := dst, cn_underDecoded := src\<rparr> in
               (case r of
                  Ret _ \<Rightarrow> (Ret (take k dst), c1\<lparr>cn_decoded := drop k dst\<rparr>)
                | Err e \<Rightarrow> (Err e, c1)
                | Panic \<Rightarrow> (Panic, c1)))
      | (Err e, u) \<Rightarrow> (Err e, c\<lparr>cn_Conn := u\<rparr>)
      | (Panic, u) \<Rightarrow> (Panic, c\<lparr>cn_Conn := u\<rparr>))"

text \<open>\<open>Write\<close>: the number of bytes, the connection, the slice of the caller afterwards.\<close>

definition Conn_Write :: "('blk, 'st) prims \<Rightarrow> digests \<Rightarrow> (bytes \<Rightarrow> ('c, unit) proc) \<Rightarrow> nat \<Rightarrow> bytes \<Rightarrow> rng \<Rightarrow> ('c, 'st) Conn
    \<Rightarrow> nat go \<times> ('c, 'st) Conn \<times> bytes \<times> rng" where
  "Conn_Write P D wr now b g c =
     (case proto_Encode P D now b g (cn_Protocol c) of
        Ret (w, e, pr, g') \<Rightarrow>
          (case wr w (cn_Conn c) of (r, u) \<Rightarrow>
             (bind_go r (\<lambda>_. Ret (length b)), c\<lparr>cn_Conn := u, cn_Protocol := pr\<rparr>, e, g'))
      | Err e \<Rightarrow> (Err e, c, b, g)
      | Panic \<Rightarrow> (Panic, c, b, g))"

section \<open>Model of packet.go\<close>

definition proto_PacketConn :: "'st Protocol \<Rightarrow> 'st Protocol option" where
  "proto_PacketConn pr = (case pr of
     AES128 a \<Rightarrow> Some (AES128 (a\<lparr>aes_iv := [], aes_hasSentHeader := False, aes_rawTrans := False, aes_packID := 0, aes_recvID := 0\<rparr>))
   | ChainA a \<Rightarrow> Some (ChainA a)
   | ChainB a \<Rightarrow> Some (ChainA a)
   | _ \<Rightarrow> None)"

definition PacketConn_WriteTo :: "('blk, 'st) prims \<Rightarrow> digests \<Rightarrow> (bytes \<Rightarrow> string \<Rightarrow> ('c, unit) proc) \<Rightarrow> 'st Protocol \<Rightarrow> bytes \<Rightarrow> string \<Rightarrow> rng \<Rightarrow> 'c
    \<Rightarrow> (nat \<times> error option) go \<times> 'c" where
  "PacketConn_WriteTo P D wr pr b addr g c =
     (case proto_EncodePacket P D pr b g of
        Ret (w, _) \<Rightarrow> (case wr w addr c of
            (Ret _, c') \<Rightarrow> (Ret (length b, None), c')
          | (Err e, c') \<Rightarrow> (Ret (length b, Some e), c')
          | (Panic, c') \<Rightarrow> (Panic, c'))
      | Err e \<Rightarrow> (Ret (0, Some e), c)
      | Panic \<Rightarrow> (Panic, c))"

text \<open>\<open>ReadFrom\<close> into a buffer of \<open>k\<close> bytes.\<close>

definition PacketConn_ReadFrom :: "('blk, 'st) prims \<Rightarrow> digests \<Rightarrow> (nat \<Rightarrow> ('c, bytes \<times> string) proc) \<Rightarrow> 'st Protocol \<Rightarrow> nat \<Rightarrow> ('c, bytes \<times> string) proc" where
  "PacketConn_ReadFrom P D rd pr k c =
     (case rd k c of
        (Ret (b, addr), c') \<Rightarrow> (bind_go (proto_DecodePacket P D pr b) (\<lambda>d. Ret (d, addr)), c')
      | r \<Rightarrow> r)"

section \<open>Decoding\<close>

text \<open>What was decoded before does not matter, and what is left is the end of what arrived.\<close>

lemma decode_loop_dst:
  "decode_loop fuel step d dst src = map_option (\<lambda>(r, d', x, rest). (r, d', dst @ x, rest)) (decode_loop fuel step d [] src)"
proof (induction fuel arbitrary: d dst src)
  case (Suc fuel)
  show ?case
  proof (cases "step d src")
    case (DNext d' x n)
    then show ?thesis
      using Suc.IH [of d' "dst @ x" "drop n src"] Suc.IH [of d' x "drop n src"]
      by (auto simp: option.map_comp comp_def case_prod_unfold)
  qed (simp_all add: Let_def)
qed simp

lemma decode_loop_rest: "decode_loop fuel step d dst src = Some (r, d', x, rest) \<Longrightarrow> \<exists>k. rest = drop k src"
proof (induction fuel arbitrary: d dst src)
  case (Suc fuel)
  have "\<exists>k. src = drop k src" "\<exists>k. [] = drop k src" by (metis drop0, metis drop_all order_refl)
  then show ?case using Suc.prems Suc.IH by (auto split: if_splits dstep.splits) (metis drop_drop)
qed simp

lemma decode_loop_err:
  assumes "\<And>d src e d'. step d src = DErr e d' \<Longrightarrow> e \<noteq> OutOfFuel" "decode_loop fuel step d dst src = Some (r, y)"
  shows "r \<noteq> Err OutOfFuel"
  using assms(2) by (induction fuel arbitrary: d dst src) (auto split: if_splits dstep.splits dest: assms(1))

lemma decode_result:
  assumes "\<And>d src d' x n. step d src = DNext d' x n \<Longrightarrow> 0 < n" "\<And>d src e d'. step d src = DErr e d' \<Longrightarrow> e \<noteq> OutOfFuel"
  obtains r d' x k where "\<And>dst. decode raw step d dst src = (r, d', dst @ x, drop k src)" "r \<noteq> Err OutOfFuel"
proof (cases "raw d")
  case True
  have "decode raw step d dst src = (Ret (), d, dst @ src, drop (length src) src)" for dst using True by (simp add: decode_def)
  then show ?thesis using that by blast
next
  case False
  obtain r d' x rest where e: "decode_loop (Suc (length src)) step d [] src = Some (r, d', x, rest)"
    using decode_loop_ends [of step src "Suc (length src)" d "[]"] assms(1) by (metis lessI prod_cases4)
  obtain k where k: "rest = drop k src" using decode_loop_rest [OF e] by blast
  have "decode raw step d dst src = (r, d', dst @ x, drop k src)" for dst
    using False unfolding decode_def decode_loop_dst [of _ _ _ dst] e by (simp add: k)
  moreover have "r \<noteq> Err OutOfFuel" by (rule decode_loop_err [OF _ e]) (rule assms(2))
  ultimately show ?thesis by (rule that)
qed

lemma chain_step_takes: "chain_step P D a src = DNext a' x n \<Longrightarrow> 0 < n"
  by (auto simp: chain_step_def Let_def split: go.splits if_splits option.splits prod.splits)

lemma chain_step_err: "chain_step P D a src = DErr e a' \<Longrightarrow> e \<noteq> OutOfFuel"
  by (auto simp: chain_step_def Let_def split: go.splits if_splits option.splits prod.splits)

lemma v4_step_err: "v4_step a src = DErr e a' \<Longrightarrow> e \<noteq> OutOfFuel"
  by (auto simp: v4_step_def Let_def split: go.splits if_splits)

lemma aes_step_err: "aes_step a src = DErr e a' \<Longrightarrow> e \<noteq> OutOfFuel"
  by (auto simp: aes_step_def Let_def split: go.splits if_splits)

lemma proto_Decode_result:
  obtains r pr' x k where "\<forall>dst. proto_Decode P D pr dst src = (r, pr', dst @ x, drop k src)" "r \<noteq> Err OutOfFuel"
proof (cases pr)
  case Origin
  then show ?thesis using that [of "Ret ()" Origin src "length src"] by (simp add: proto_Decode_def)
next
  case (SHA1V4 a)
  show ?thesis
    by (rule decode_result [of v4_step v4_rawTrans a src]) (use v4_step_takes v4_step_err that SHA1V4 in \<open>fastforce simp: proto_Decode_def v4_Decode_def\<close>)+
next
  case (AES128 a)
  show ?thesis
    by (rule decode_result [of aes_step aes_rawTrans a src]) (use aes_step_takes aes_step_err that AES128 in \<open>fastforce simp: proto_Decode_def aes_Decode_def\<close>)+
next
  case (ChainA a)
  show ?thesis
    by (rule decode_result [of "chain_step P D" ch_rawTrans a src]) (use chain_step_takes chain_step_err that ChainA in \<open>fastforce simp: proto_Decode_def chain_Decode_def\<close>)+
next
  case (ChainB a)
  show ?thesis
    by (rule decode_result [of "chain_step P D" ch_rawTrans a src]) (use chain_step_takes chain_step_err that ChainB in \<open>fastforce simp: proto_Decode_def chain_Decode_def\<close>)+
qed

lemma feed_dst:
  "feed (proto_Decode P D) pr dst src cs = (case feed (proto_Decode P D) pr [] src cs of (r, pr', x, rest) \<Rightarrow> (r, pr', dst @ x, rest))"
proof (induction cs arbitrary: pr dst src)
  case (Cons c cs)
  obtain r pr1 x k where d: "\<forall>dst. proto_Decode P D pr dst (src @ c) = (r, pr1, dst @ x, drop k (src @ c))" "r \<noteq> Err OutOfFuel"
    by (rule proto_Decode_result [of P D pr "src @ c"])
  show ?case
    using Cons.IH [of pr1 "dst @ x" "drop k (src @ c)"] Cons.IH [of pr1 x "drop k (src @ c)"]
    by (cases r) (auto simp: d(1) case_prod_unfold)
qed simp

text \<open>Reading with a buffer of \<open>k\<close> bytes until an error: what was read, and the error.\<close>

fun conn_reads :: "('blk, 'st) prims \<Rightarrow> digests \<Rightarrow> nat \<Rightarrow> nat \<Rightarrow> (conn, 'st) Conn \<Rightarrow> bytes \<times> unit go" where
  "conn_reads P D 0 k c = ([], Err OutOfFuel)"
| "conn_reads P D (Suc fuel) k c = (case Conn_Read P D read_conn k c of
     (Ret x, c') \<Rightarrow> (case conn_reads P D fuel k c' of (y, r) \<Rightarrow> (x @ y, r))
   | (Err e, _) \<Rightarrow> ([], Err e)
   | (Panic, _) \<Rightarrow> ([], Panic))"

lemma conn_reads_feed:
  assumes "feed (proto_Decode P D) pr [] u cs = (Ret (), pr', x, [])" "\<forall>c \<in> set cs. length c \<le> relayBufferSize" "0 < k"
    and "length q + length x + length cs < fuel" "inp n = cs"
  shows "conn_reads P D fuel k \<lparr>cn_Conn = n, cn_Protocol = pr, cn_decoded = q, cn_underDecoded = u\<rparr> = (q @ x, Err EOF)"
  using assms
proof (induction fuel arbitrary: pr u cs x q n)
  case (Suc fuel)
  show ?case
  proof (cases "q = []")
    case False
    have "length (drop k q) + length x + length cs < fuel" using Suc.prems(3,4) False by (cases q; cases k) auto
    then show ?thesis
      using Suc.IH [OF Suc.prems(1-3) _ Suc.prems(5), of "drop k q"] False by (simp add: Conn_Read_def)
  next
    case q: True
    show ?thesis
    proof (cases cs)
      case Nil
      then show ?thesis using Suc.prems q by (simp add: Conn_Read_def read_conn_def)
    next
      case (Cons c ds)
      obtain r pr1 y j where d: "\<forall>dst. proto_Decode P D pr dst (u @ c) = (r, pr1, dst @ y, drop j (u @ c))" "r \<noteq> Err OutOfFuel"
        by (rule proto_Decode_result [of P D pr "u @ c"])
      let ?s = "drop j (u @ c)"
      have r: "r = Ret ()" using Suc.prems(1) by (cases r) (simp_all add: Cons d(1))
      obtain z where z: "feed (proto_Decode P D) pr1 [] ?s ds = (Ret (), pr', z, [])" "x = y @ z"
        using Suc.prems(1) feed_dst [of P D pr1 y ?s ds] by (auto simp: Cons d(1) r split: prod.splits)
      have "length (drop k y) + length z + length ds < fuel" using Suc.prems(4) z(2) Cons by simp
      then have "conn_reads P D fuel k \<lparr>cn_Conn = n\<lparr>inp := ds\<rparr>, cn_Protocol = pr1, cn_decoded = drop k y, cn_underDecoded = ?s\<rparr> = (drop k y @ z, Err EOF)"
        using Suc.IH [OF z(1) _ Suc.prems(3), of "drop k y" "n\<lparr>inp := ds\<rparr>"] Suc.prems(2) Cons by simp
      moreover have "length c \<le> relayBufferSize" using Suc.prems(2) Cons by simp
      ultimately show ?thesis
        using q Suc.prems(5) Cons z(2) r d(1) by (simp add: Conn_Read_def read_conn_def Let_def)
    qed
  qed
qed simp

section \<open>Properties\<close>

text \<open>
  C27. Decoding ends, whatever arrives: for every protocol and every buffer the loop of \<open>Decode\<close> stops
  after as many turns as the buffer has bytes at most, with a result, an error or a panic. What it
  delivers is appended to what was there, and what it leaves is the end of the buffer.
\<close>

theorem ssr_decode_terminates:
  "\<exists>r pr' x k. proto_Decode P D pr dst src = (r, pr', dst @ x, drop k src) \<and> r \<noteq> Err OutOfFuel"
  by (rule proto_Decode_result [of P D pr src]) blast

text \<open>
  C28. A connection loses and reorders nothing of what its protocol decodes: if \<open>Decode\<close> takes the chunks
  that arrive without an error and without a rest, reading the connection with any buffer gives all the
  decoded bytes in order, and then the end of the stream.
\<close>

theorem ssr_conn_delivers:
  assumes "feed (proto_Decode P D) pr [] [] (inp n) = (Ret (), pr', b, [])"
    and "\<forall>c \<in> set (inp n). length c \<le> relayBufferSize" "0 < k"
  shows "conn_reads P D (Suc (length b + length (inp n))) k \<lparr>cn_Conn = n, cn_Protocol = pr, cn_decoded = [], cn_underDecoded = []\<rparr>
     = (b, Err EOF)"
  using conn_reads_feed [OF assms(1-3), of "[]" "Suc (length b + length (inp n))" n] by (simp del: conn_reads.simps)

theorem ssr_conn_delivers_witness:
  "conn_reads toy_prims toy_digests 6 2 \<lparr>cn_Conn = \<lparr>inp = [[1, 2], [3]], out = [], wfail = False\<rparr>, cn_Protocol = Origin,
     cn_decoded = [], cn_underDecoded = []\<rparr> = ([1, 2, 3], Err EOF)"
proof -
  let ?n = "\<lparr>inp = [[1, 2], [3]], out = [], wfail = False\<rparr> :: conn"
  have "feed (proto_Decode toy_prims toy_digests) Origin [] [] (inp ?n) = (Ret (), Origin, [1, 2, 3], [])"
    "\<forall>c \<in> set (inp ?n). length c \<le> relayBufferSize" by (simp_all add: proto_Decode_def relayBufferSize_def)
  from ssr_conn_delivers [OF this, of 2] show ?thesis by (simp add: numeral_eq_Suc del: conn_reads.simps)
qed

text \<open>
  Two ways in which the chained protocols crash their client. A server that sends five bytes before
  the client has written anything makes \<open>Decode\<close> index an empty digest. And \<open>auth_chain_b\<close> cannot open a
  connection with a key of less than 16 bytes, in particular with no cipher: the padded copy of the key
  is assigned to a variable of an inner block.
\<close>

theorem auth_chain_crashes:
  assumes "4 < length src" "length (b_Key (ch_Base a)) < 16"
  shows "fst (chain_Decode P D (fst (chainA_StreamConn iv g a)) [] src) = Panic \<and> chainB_StreamConn iv g a = Panic"
proof
  have "ch_lastServerHash (fst (chainA_StreamConn iv g a)) = []" "\<not> ch_rawTrans (fst (chainA_StreamConn iv g a))"
    by (auto simp: chainA_StreamConn_def split: prod.splits)
  then show "fst (chain_Decode P D (fst (chainA_StreamConn iv g a)) [] src) = Panic"
    using assms(1) by (simp add: chain_Decode_def decode_def chain_step_def slice_def)
  show "chainB_StreamConn iv g a = Panic"
    using assms(2) by (simp add: chainB_StreamConn_def initDataSize_def InitFromBin_def split: prod.splits)
qed

theorem auth_chain_crashes_witness:
  "fst (chain_Decode toy_prims toy_digests (fst (chainA_StreamConn [] [] toy_chain)) [] [0, 0, 0, 0, 0]) = Panic
   \<and> chainB_StreamConn [] [] toy_chain = Panic"
proof -
  have "length (b_Key (ch_Base toy_chain)) < 16"
    by (simp add: toy_chain_def chainA_StreamConn_def newAuthChainA_def newAuthChain_def toy_Base_def split: prod.splits)
  then show ?thesis using auth_chain_crashes [of "[0, 0, 0, 0, 0]" toy_chain] by simp
qed

end
