(* ===== verification/Ssr_Obfs.thy ===== *)
theory Ssr_Obfs
  imports Ssr_Conn Ssr_Agents Options
begin

text \<open>
  The obfuscations of \<open>ssr/obfs\<close> (plain, \<open>http_simple\<close>, \<open>http_post\<close>, \<open>random_head\<close>,
  \<open>tls1.2_ticket_auth\<close>), each a connection around a TCP connection, and the client cipher of
  \<open>ssr/cipher.go\<close> that selects obfuscation and protocol.
\<close>

section \<open>Model of obfs/base.go and obfs/obfs.go\<close>

record obfsBase =
  o_Host :: string
  o_Port :: nat
  o_Key :: bytes
  o_IVSize :: nat
  o_Param :: string

datatype Obfs = Plain | HttpObfs obfsBase bool | RandomHead obfsBase | Tls12Ticket obfsBase bytes

text \<open>\<open>GetObfs\<close>: the obfuscation and its overhead.\<close>

definition GetObfs :: "string \<Rightarrow> obfsBase \<Rightarrow> rng \<Rightarrow> (Obfs \<times> nat \<times> rng) go" where
  "GetObfs oname b g =
     (if oname = ''plain'' then Ret (Plain, 0, g)
      else if oname = ''http_simple'' then Ret (HttpObfs b False, 0, g)
      else if oname = ''http_post'' then Ret (HttpObfs b True, 0, g)
      else if oname = ''random_head'' then Ret (RandomHead b, 0, g)
      else if oname = ''tls1.2_ticket_auth'' \<or> oname = ''tls1.2_ticket_fastauth''
        then (case rand_bytes 32 g of (cid, g') \<Rightarrow> Ret (Tls12Ticket b cid, 5, g'))
      else Err ErrUnsupportedObfs)"

text \<open>The result of a \<open>Write\<close> of \<open>n\<close> bytes, from that of the connection underneath.\<close>

definition write_result :: "unit go \<Rightarrow> nat \<Rightarrow> nat go" where
  "write_result r n = bind_go r (\<lambda>_. Ret n)"

section \<open>Model of obfs/http\_simple.go\<close>

record httpConn =
  h_Conn :: conn
  h_Base :: obfsBase
  h_post :: bool
  h_hasSentHeader :: bool
  h_hasRecvHeader :: bool
  h_buf :: bytes

definition crlf :: string where "crlf = [CHR 0x0D, CHR 0x0A]"

text \<open>\<open>bytes.Index\<close>.\<close>

fun index_sub :: "'a list \<Rightarrow> 'a list \<Rightarrow> nat option" where
  "index_sub [] t = (if t = [] then Some 0 else None)"
| "index_sub (c # s) t = (if hasPrefix (c # s) t then Some 0 else map_option Suc (index_sub s t))"

definition httpConn_Read :: "nat \<Rightarrow> (httpConn, bytes) proc" where
  "httpConn_Read k c =
     (if h_buf c \<noteq> [] then (Ret (take k (h_buf c)), c\<lparr>h_buf := drop k (h_buf c)\<rparr>)
      else if h_hasRecvHeader c then (case read_conn k (h_Conn c) of (r, u) \<Rightarrow> (r, c\<lparr>h_Conn := u\<rparr>))
      else case read_conn relayBufferSize (h_Conn c) of
        (Ret x, u) \<Rightarrow>
          (case index_sub x (bytes_of (crlf @ crlf)) of
             None \<Rightarrow> (Err EOF, c\<lparr>h_Conn := u\<rparr>)
           | Some pos \<Rightarrow> (let body = drop (pos + 4) x in
               (Ret (take k body), c\<lparr>h_Conn := u, h_hasRecvHeader := True, h_buf := drop k body\<rparr>)))
      | (Err e, u) \<Rightarrow> (Err e, c\<lparr>h_Conn := u\<rparr>)
      | (Panic, u) \<Rightarrow> (Panic, c\<lparr>h_Conn := u\<rparr>))"

definition packURLEncodedHeadData :: "bytes \<Rightarrow> string" where
  "packURLEncodedHeadData data = concat (map (\<lambda>b. CHR ''%'' # hexdigits [b]) data)"

definition boundary_set :: string where
  "boundary_set = ''ABCDEFGHIJKLMNOPQRSTUVWXYZabcdefghijklmnopqrstuvwxyz0123456789''"

fun boundary_chars :: "nat \<Rightarrow> rng \<Rightarrow> string \<times> rng" where
  "boundary_chars 0 g = ([], g)"
| "boundary_chars (Suc n) g = (case Intn 62 g of (i, g1) \<Rightarrow> case boundary_chars n g1 of (s, g2) \<Rightarrow> (boundary_set ! i # s, g2))"

definition packBoundary :: "rng \<Rightarrow> string \<times> rng" where
  "packBoundary g = (case boundary_chars 32 g of (s, g') \<Rightarrow>
     (''Content-Type: multipart/form-data; boundary='' @ s @ crlf, g'))"

text \<open>The host and the body that the parameter of the obfuscation gives.\<close>

definition http_host_body :: "obfsBase \<Rightarrow> string \<times> string" where
  "http_host_body b =
     (if o_Param b = [] then (o_Host b, [])
      else case index_chr (CHR ''#'') (o_Param b) of
        Some pos \<Rightarrow> (take pos (o_Param b),
          replaceAll [CHR 0x5C, CHR ''n''] crlf (replaceAll [CHR 0x0A] crlf (drop (pos + 1) (o_Param b))))
      | None \<Rightarrow> (o_Param b, []))"

definition headDataLength :: "obfsBase \<Rightarrow> bytes \<Rightarrow> rng \<Rightarrow> nat \<times> rng" where
  "headDataLength ob b g =
     (let headLength = o_IVSize ob + 30 in
      if 64 < int (length b) - int headLength then (case Intn 65 g of (r, g') \<Rightarrow> (headLength + r, g')) else (length b, g))"

definition http_header_end :: "bool \<Rightarrow> string \<Rightarrow> rng \<Rightarrow> string \<times> rng" where
  "http_header_end post body g =
     (if body \<noteq> [] then (body @ crlf @ crlf, g)
      else case Intn (length userAgent) g of (i, g1) \<Rightarrow>
        case (if post then packBoundary g1 else ([], g1)) of (bd, g2) \<Rightarrow>
          (''User-Agent: '' @ userAgent ! i @ crlf
           @ ''Accept: text/html,application/xhtml+xml,application/xml;q=0.9,*/*;q=0.8'' @ crlf
           @ ''Accept-Language: en-US,en;q=0.8'' @ crlf @ ''Accept-Encoding: gzip, deflate'' @ crlf @ bd
           @ ''DNT: 1'' @ crlf @ ''Connection: keep-alive'' @ crlf @ crlf, g2))"

definition httpConn_Write :: "bytes \<Rightarrow> rng \<Rightarrow> httpConn \<Rightarrow> nat go \<times> httpConn \<times> rng" where
  "httpConn_Write b g c =
     (if h_hasSentHeader c then (case write_conn b (h_Conn c) of (r, u) \<Rightarrow> (write_result r (length b), c\<lparr>h_Conn := u\<rparr>, g))
      else
        case headDataLength (h_Base c) b g of (n, g1) \<Rightarrow>
        case http_host_body (h_Base c) of (host, body) \<Rightarrow>
        let hosts = split_chr (CHR '','') host in
        case Intn (length hosts) g1 of (i, g2) \<Rightarrow>
        case http_header_end (h_post c) body g2 of (fin, g3) \<Rightarrow>
        let req = (if h_post c then ''POST /'' else ''GET /'') @ packURLEncodedHeadData (take n b)
              @ '' HTTP/1.1'' @ crlf @ ''Host: '' @ hosts ! i
              @ (if o_Port (h_Base c) \<noteq> 80 then '':'' @ itoa_nat (o_Port (h_Base c)) else []) @ crlf @ fin
        in case write_conn (bytes_of req @ drop n b) (h_Conn c) of
             (Ret _, u) \<Rightarrow> (Ret (length b), c\<lparr>h_Conn := u, h_hasSentHeader := True\<rparr>, g3)
           | (Err _, u) \<Rightarrow> (Ret 0, c\<lparr>h_Conn := u\<rparr>, g3)
           | (Panic, u) \<Rightarrow> (Panic, c\<lparr>h_Conn := u\<rparr>, g3))"

section \<open>Model of obfs/random\_head.go\<close>

record randomHeadConn =
  r_Conn :: conn
  r_hasSentHeader :: bool
  r_rawTransSent :: bool
  r_rawTransRecv :: bool
  r_buf :: bytes

definition randomHead_Write :: "bytes \<Rightarrow> rng \<Rightarrow> randomHeadConn \<Rightarrow> nat go \<times> randomHeadConn \<times> rng" where
  "randomHead_Write b g c =
     (if r_rawTransSent c then (case write_conn b (r_Conn c) of (r, u) \<Rightarrow> (write_result r (length b), c\<lparr>r_Conn := u\<rparr>, g))
      else let c1 = c\<lparr>r_buf := r_buf c @ b\<rparr> in
        if \<not> r_hasSentHeader c then
          (case Intn 96 g of (r, g1) \<Rightarrow> case rand_bytes (r + 4) g1 of (rnd, g2) \<Rightarrow>
           case write_conn (rnd @ le32 (unat (0xffffffff - crc32 rnd))) (r_Conn c) of (x, u) \<Rightarrow>
             (write_result x (length b), c1\<lparr>r_hasSentHeader := True, r_Conn := u\<rparr>, g2))
        else if r_rawTransRecv c then
          (case write_conn (r_buf c1) (r_Conn c) of (x, u) \<Rightarrow>
             (write_result x (length b), c1\<lparr>r_buf := [], r_rawTransSent := True, r_Conn := u\<rparr>, g))
        else (Ret (length b), c1, g))"

text \<open>The first \<open>Read\<close> throws away what it gets, an error too.\<close>

definition randomHead_Read :: "nat \<Rightarrow> rng \<Rightarrow> randomHeadConn \<Rightarrow> bytes go \<times> randomHeadConn \<times> rng" where
  "randomHead_Read k g c =
     (if r_rawTransRecv c then (case read_conn k (r_Conn c) of (r, u) \<Rightarrow> (r, c\<lparr>r_Conn := u\<rparr>, g))
      else case read_conn relayBufferSize (r_Conn c) of (_, u) \<Rightarrow>
        case randomHead_Write [] g (c\<lparr>r_Conn := u, r_rawTransRecv := True\<rparr>) of (_, c', g') \<Rightarrow> (Ret [], c', g'))"

section \<open>Model of obfs/tls1.2\_ticket\_auth.go\<close>

record tls12TicketConn =
  t_Conn :: conn
  t_Base :: obfsBase
  t_clientID :: bytes
  t_handshakeStatus :: nat
  t_decoded :: bytes
  t_underDecoded :: bytes
  t_sendBuf :: bytes

definition tls_packData :: "bytes \<Rightarrow> bytes" where
  "tls_packData data = [0x17, 3, 3] @ be16 (length data) @ data"

definition tls_hmacSHA1 :: "digests \<Rightarrow> tls12TicketConn \<Rightarrow> bytes \<Rightarrow> bytes" where
  "tls_hmacSHA1 D t data = take 10 (HmacSHA1 D (o_Key (t_Base t) @ t_clientID t) data)"

definition tls_packAuthData :: "digests \<Rightarrow> nat \<Rightarrow> tls12TicketConn \<Rightarrow> rng \<Rightarrow> bytes \<times> rng" where
  "tls_packAuthData D now t g = (case rand_bytes 18 g of (rnd, g') \<Rightarrow>
     let buf = rev (le32 now) @ rnd in (buf @ take 10 (tls_hmacSHA1 D t buf), g'))"

definition packSNIData :: "string \<Rightarrow> bytes" where
  "packSNIData u = (let n = length u in [0, 0] @ be16 (n + 5) @ be16 (n + 3) @ [0] @ be16 n @ bytes_of u)"

definition packTicketBuf :: "rng \<Rightarrow> bytes \<times> rng" where
  "packTicketBuf g = (case Intn 17 g of (r, g1) \<Rightarrow> case rand_bytes (16 * (r + 8)) g1 of (rnd, g2) \<Rightarrow>
     ([0, 0x23] @ be16 (16 * (r + 8)) @ rnd, g2))"

definition tls_getHost :: "obfsBase \<Rightarrow> rng \<Rightarrow> string \<times> rng" where
  "tls_getHost b g =
     (let host = (if o_Param b = [] then o_Host b else o_Param b);
          host = (if host \<noteq> [] \<and> is_digit (last host) then [] else host);
          hosts = split_chr (CHR '','') host in
      case Intn (length hosts) g of (i, g') \<Rightarrow> (hosts ! i, g'))"

text \<open>The \<open>ClientHello\<close> that is written first.\<close>

definition tls_ClientHello :: "digests \<Rightarrow> nat \<Rightarrow> tls12TicketConn \<Rightarrow> rng \<Rightarrow> bytes \<times> rng" where
  "tls_ClientHello D now t g =
     (case tls_packAuthData D now t g of (auth, g1) \<Rightarrow>
      case tls_getHost (t_Base t) g1 of (host, g2) \<Rightarrow>
      case packTicketBuf g2 of (ticket, g3) \<Rightarrow>
      let ext = [0xff, 0x01, 0x00, 0x01, 0x00] @ packSNIData host @ [0, 0x17, 0, 0] @ ticket
            @ [0x00, 0x0d, 0x00, 0x16, 0x00, 0x14, 0x06, 0x01, 0x06, 0x03, 0x05, 0x01, 0x05, 0x03, 0x04, 0x01, 0x04, 0x03, 0x03, 0x01, 0x03, 0x03, 0x02, 0x01, 0x02, 0x03]
            @ [0x00, 0x05, 0x00, 0x05, 0x01, 0x00, 0x00, 0x00, 0x00] @ [0x00, 0x12, 0x00, 0x00] @ [0x75, 0x50, 0x00, 0x00]
            @ [0x00, 0x0b, 0x00, 0x02, 0x01, 0x00] @ [0x00, 0x0a, 0x00, 0x06, 0x00, 0x04, 0x00, 0x17, 0x00, 0x18];
          data = [3, 3] @ auth @ [0x20] @ t_clientID t
            @ [0x00, 0x1c, 0xc0, 0x2b, 0xc0, 0x2f, 0xcc, 0xa9, 0xcc, 0xa8, 0xcc, 0x14, 0xcc, 0x13, 0xc0, 0x0a, 0xc0, 0x14, 0xc0, 0x09, 0xc0, 0x13, 0x00, 0x9c, 0x00, 0x35, 0x00, 0x2f, 0x00, 0x0a]
            @ [0x1, 0x0] @ be16 (length ext) @ ext
      in ([0x16, 3, 1] @ be16 (length data + 4) @ [1, 0] @ be16 (length data) @ data, g3))"

text \<open>The loop of \<open>Write\<close> after the handshake, in records of random sizes.\<close>

function tls_records :: "bytes \<Rightarrow> rng \<Rightarrow> bytes list \<times> rng" where
  "tls_records b g =
     (if length b \<le> 2048 then (if b = [] then ([], g) else ([b], g))
      else let r = Intn 4096 g; sz = min (length b) (fst r + 100) in
        case tls_records (drop sz b) (snd r) of (rs, g') \<Rightarrow> (take sz b # rs, g'))"
  by pat_completeness auto
termination
  by (relation "measure (\<lambda>(b, g). length b)") auto

declare tls_records.simps [simp del]

definition tls_Write :: "digests \<Rightarrow> nat \<Rightarrow> bytes \<Rightarrow> rng \<Rightarrow> tls12TicketConn \<Rightarrow> nat go \<times> tls12TicketConn \<times> rng" where
  "tls_Write D now b g c =
     (if t_handshakeStatus c = 8 then
        (case tls_records b g of (rs, g1) \<Rightarrow>
         case write_conn (concat (map tls_packData rs)) (t_Conn c) of (x, u) \<Rightarrow>
           (write_result x (length b), c\<lparr>t_Conn := u\<rparr>, g1))
      else let c1 = (if b \<noteq> [] then c\<lparr>t_sendBuf := t_sendBuf c @ tls_packData b\<rparr> else c) in
        if t_handshakeStatus c = 0 then
          (case tls_ClientHello D now c g of (h, g1) \<Rightarrow>
           case write_conn h (t_Conn c) of (x, u) \<Rightarrow>
             (write_result x (length b), c1\<lparr>t_handshakeStatus := 1, t_Conn := u\<rparr>, g1))
        else if t_handshakeStatus c = 1 \<and> b = [] then
          (case rand_bytes 22 g of (rnd, g1) \<Rightarrow>
           let buf = [0x14, 3, 3, 0, 1, 1, 0x16, 3, 3, 0, 0x20] @ rnd;
               msg = buf @ take 10 (tls_hmacSHA1 D c buf) @ t_sendBuf c
           in case write_conn msg (t_Conn c) of (x, u) \<Rightarrow>
                (write_result x 0, c1\<lparr>t_sendBuf := [], t_handshakeStatus := 8, t_Conn := u\<rparr>, g1))
        else (Ret (length b), c1, g))"

text \<open>One turn of the loop of \<open>Read\<close>; it goes on while there are more than five bytes.\<close>

definition tls_step :: "unit \<Rightarrow> bytes \<Rightarrow> unit dstep" where
  "tls_step d src =
     (if length src \<le> 5 then DWait d
      else if take 3 src \<noteq> [0x17, 3, 3] then DErr ErrTLS12Magic d
      else let sz = be_val (take 2 (drop 3 src)) in
        if length src < 5 + sz then DWait d else DNext d (take sz (drop 5 src)) (5 + sz))"

definition tls_decode :: "unit \<Rightarrow> bytes \<Rightarrow> bytes \<Rightarrow> unit go \<times> unit \<times> bytes \<times> bytes" where
  "tls_decode = decode (\<lambda>_. False) tls_step"

definition tls_Read :: "digests \<Rightarrow> nat \<Rightarrow> nat \<Rightarrow> rng \<Rightarrow> tls12TicketConn \<Rightarrow> bytes go \<times> tls12TicketConn \<times> rng" where
  "tls_Read D now k g c =
     (if t_decoded c \<noteq> [] then (Ret (take k (t_decoded c)), c\<lparr>t_decoded := drop k (t_decoded c)\<rparr>, g)
      else case read_conn relayBufferSize (t_Conn c) of
        (Ret buf, u) \<Rightarrow>
          (let c1 = c\<lparr>t_Conn := u\<rparr>; n = length buf in
           if t_handshakeStatus c = 8 then
             (case tls_decode () [] (t_underDecoded c @ buf) of
                (Ret _, _, dst, src) \<Rightarrow> (Ret (take k dst), c1\<lparr>t_underDecoded := src, t_decoded := drop k dst\<rparr>, g)
              | (Err e, _, dst, src) \<Rightarrow> (Err e, c1\<lparr>t_underDecoded := src, t_decoded := dst\<rparr>, g)
              | (Panic, _, dst, src) \<Rightarrow> (Panic, c1, g))
           else if n < 11 + 32 + 1 + 32 then (Err ErrTLS12TooShort, c1, g)
           else if take 10 (drop 33 buf) \<noteq> take 10 (tls_hmacSHA1 D c (take 22 (drop 11 buf)))
                 \<or> drop (n - 10) buf \<noteq> take 10 (tls_hmacSHA1 D c (take (n - 10) buf)) then (Err ErrTLS12HMAC, c1, g)
           else case tls_Write D now [] g c1 of (_, c2, g') \<Rightarrow> (Ret [], c2, g'))
      | (Err e, u) \<Rightarrow> (Err e, c\<lparr>t_Conn := u\<rparr>, g)
      | (Panic, u) \<Rightarrow> (Panic, c\<lparr>t_Conn := u\<rparr>, g))"

section \<open>Model of ssr/cipher.go\<close>

record 'st SSRClientStreamCipher =
  ssr_StreamCipher :: "'st StreamCipher option"
  ssr_Obfs :: Obfs
  ssr_Proto :: "'st Protocol"

definition NewSSRClientStreamCipher :: "('blk, 'st) prims \<Rightarrow> digests \<Rightarrow> 'st StreamCipher option \<Rightarrow> string \<Rightarrow> string \<Rightarrow> string \<Rightarrow> string \<Rightarrow> string
    \<Rightarrow> rng \<Rightarrow> ('st SSRClientStreamCipher \<times> rng) go" where
  "NewSSRClientStreamCipher P D ciph addr protocolName protocolParam obfsName obfsParam g =
     (let key = (case ciph of None \<Rightarrow> [] | Some ci \<Rightarrow> sc_key ci);
          ivSize = (case ciph of None \<Rightarrow> 0 | Some ci \<Rightarrow> sc_ivSize ci);
          (host, p) = (case splitHostPort addr of Ret hp \<Rightarrow> hp | _ \<Rightarrow> ([], []));
          port = fst (parseUint 65535 p) in
      bind_go (GetObfs obfsName \<lparr>o_Host = host, o_Port = port, o_Key = key, o_IVSize = ivSize, o_Param = obfsParam\<rparr> g) (\<lambda>(ob, overHead, g1).
        bind_go (GetProtocol P D protocolName \<lparr>b_Key = key, b_Overhead = overHead, b_Param = protocolParam\<rparr> g1) (\<lambda>(proto, g2).
          Ret (\<lparr>ssr_StreamCipher = ciph, ssr_Obfs = ob, ssr_Proto = proto\<rparr>, g2))))"

section \<open>Records of the TLS obfuscation\<close>

definition tls_ok :: "bytes \<Rightarrow> bool" where
  "tls_ok m \<longleftrightarrow> m \<noteq> [] \<and> length m \<le> 65535"

lemma tls_step_record: "tls_ok m \<Longrightarrow> tls_step d (tls_packData m @ rest) = DNext d m (length (tls_packData m))"
  by (cases m) (simp_all add: tls_step_def tls_packData_def tls_ok_def)

lemma tls_step_prefix:
  assumes "tls_ok m" "tls_packData m = p @ q" "q \<noteq> []" "4 < length p"
  shows "tls_step d p = DWait d"
proof -
  have l: "length p < 5 + length m" using arg_cong [OF assms(2), of length] assms(3) by (cases q) (auto simp: tls_packData_def)
  have "take 5 p = take 5 (tls_packData m)" using assms(2,4) by simp
  also have "\<dots> = [0x17, 3, 3] @ be16 (length m)" by (simp add: tls_packData_def)
  finally have t: "take 5 p = [0x17, 3, 3] @ be16 (length m)" .
  have "take 3 p = take 3 (take 5 p)" "take 2 (drop 3 p) = drop 3 (take 5 p)" by (simp_all add: take_drop)
  then have "take 3 p = [0x17, 3, 3]" "be_val (take 2 (drop 3 p)) = length m" using assms(1) unfolding t by (simp_all add: tls_ok_def)
  then show ?thesis using l by (simp add: tls_step_def)
qed

interpretation tlsp: packet_decoder "\<lambda>(_ :: unit) m. (tls_packData m, ())" "\<lambda>_ m. m" "\<lambda>_. tls_ok" "\<lambda>_. False" tls_step "\<lambda>_ _. True"
proof unfold_locales
  show "4 < length f" if "tls_ok m" "(tls_packData m, ()) = (f, s')" for m f s' using that by (auto simp: tls_packData_def)
qed (use tls_step_record tls_step_prefix in auto)

lemma tls_feed:
  assumes "\<forall>m \<in> set ms. tls_ok m" "concat cs = concat (map tls_packData ms)"
  shows "feed tls_decode () [] [] cs = (Ret (), (), concat ms, [])"
proof -
  have fr: "tlsp.frames () ms = (concat (map tls_packData ms), ())" by (induction ms) auto
  have pl: "tlsp.payloads () ms = concat ms" by (induction ms) auto
  have ok: "tlsp.oks () ms" using assms(1) by (induction ms) auto
  show ?thesis using tlsp.decode_stream [OF _ ok, of cs "()"] fr pl assms(2) by (auto simp: tls_decode_def)
qed

lemma tls_records_ok: "tls_records b g = (rs, g') \<Longrightarrow> concat rs = b \<and> (\<forall>m \<in> set rs. tls_ok m)"
proof (induction b g arbitrary: rs g' rule: tls_records.induct)
  case (1 b g)
  show ?case
  proof (cases "length b \<le> 2048")
    case True
    then show ?thesis using "1.prems" by (subst (asm) tls_records.simps) (auto simp: tls_ok_def split: if_splits)
  next
    case False
    define sz where "sz = min (length b) (fst (Intn 4096 g) + 100)"
    obtain ts g2 where t: "tls_records (drop sz b) (snd (Intn 4096 g)) = (ts, g2)" by fastforce
    have "rs = take sz b # ts" using "1.prems" False t by (subst (asm) tls_records.simps) (simp add: Let_def sz_def)
    moreover have "0 < sz" "sz \<le> 65535" using False Intn_less [of 4096 g] by (auto simp: sz_def)
    moreover have "concat ts = drop sz b \<and> (\<forall>m \<in> set ts. tls_ok m)" using "1.IH" [OF False refl sz_def t] .
    ultimately show ?thesis using False by (auto simp: tls_ok_def)
  qed
qed

text \<open>What is written before the handshake is over waits in \<open>sendBuf\<close>.\<close>

fun tls_writes :: "digests \<Rightarrow> nat \<Rightarrow> bytes list \<Rightarrow> rng \<Rightarrow> tls12TicketConn \<Rightarrow> tls12TicketConn \<times> rng" where
  "tls_writes D now [] g c = (c, g)"
| "tls_writes D now (b # bs) g c = (case tls_Write D now b g c of (_, c1, g1) \<Rightarrow> tls_writes D now bs g1 c1)"

lemma tls_writes_waiting:
  assumes "t_handshakeStatus c = 1" "[] \<notin> set bs"
  shows "tls_writes D now bs g c = (c\<lparr>t_sendBuf := t_sendBuf c @ concat (map tls_packData bs)\<rparr>, g)"
  using assms by (induction bs arbitrary: c) (auto simp: tls_Write_def Let_def)

section \<open>Properties\<close>


definition toy_obfsBase :: obfsBase where
  "toy_obfsBase = \<lparr>o_Host = ''example.com'', o_Port = 80, o_Key = [1], o_IVSize = 16, o_Param = []\<rparr>"

definition toy_tls :: tls12TicketConn where
  "toy_tls = \<lparr>t_Conn = \<lparr>inp = [], out = [], wfail = False\<rparr>, t_Base = toy_obfsBase, t_clientID = replicate 32 0, t_handshakeStatus = 0,
     t_decoded = [], t_underDecoded = [], t_sendBuf = []\<rparr>"


text \<open>
  The HTTP obfuscation needs the whole header of the answer in its first read: when the first chunk
  that arrives does not contain the empty line, \<open>Read\<close> reports the end of the stream, whatever follows.
\<close>

theorem http_obfs_split_header_is_eof:
  assumes "\<not> h_hasRecvHeader c" "h_buf c = []" "inp (h_Conn c) = x # rest" "length x \<le> relayBufferSize"
    and "\<not> contains_sub x (bytes_of (crlf @ crlf))"
  shows "fst (httpConn_Read k c) = Err EOF"
proof -
  have "index_sub y t = None" if "\<not> contains_sub y t" for y t :: bytes
    using that by (induction y) auto
  then show ?thesis using assms by (simp add: httpConn_Read_def read_conn_def)
qed

theorem http_obfs_split_header_is_eof_witness:
  "fst (httpConn_Read 100 \<lparr>h_Conn = \<lparr>inp = [bytes_of ''HTTP/1.1'', bytes_of (crlf @ crlf)], out = [], wfail = False\<rparr>, h_Base = toy_obfsBase,
     h_post = False, h_hasSentHeader = True, h_hasRecvHeader = False, h_buf = []\<rparr>) = Err EOF"
proof -
  have "length (bytes_of ''HTTP/1.1'') \<le> relayBufferSize" "\<not> contains_sub (bytes_of ''HTTP/1.1'') (bytes_of (crlf @ crlf))"
    by (simp add: bytes_of_def relayBufferSize_def, code_simp)
  then show ?thesis by (intro http_obfs_split_header_is_eof [where x = "bytes_of ''HTTP/1.1''"]) simp_all
qed

end
