(* ===== verification/Dns_Resolver.thy ===== *)
theory Dns_Resolver
  imports Fake_IP "HOL-Library.AList" "HOL-Library.Multiset"
begin

text \<open>
  \<open>resolver/resolver.go\<close> with \<open>util/dnsutil/dns.go\<close>, \<open>util/hostsutil/hosts.go\<close> and the handler of
  \<open>resolver/dns_server.go\<close>: the list of nameservers, the lookup of a host, the exchange with the
  nameservers one after another, and the queries of the local DNS server. The exchange runs one
  goroutine per nameserver and is a step relation. What \<open>net/url\<close> makes of a text and what a nameserver
  answers are arguments.
\<close>

section \<open>Model of dnsutil and hostsutil\<close>

definition AddrFromSlice :: "bytes \<Rightarrow> netaddr option" where
  "AddrFromSlice b = (if length b = 4 then Some (Addr4 b) else if length b = 16 then Some (Addr6 b []) else None)"

definition to16 :: "bytes \<Rightarrow> bytes" where
  "to16 b = (if length b = 4 then v4InV6Prefix @ b else if length b = 16 then b else [])"

fun rr_addr :: "rr \<Rightarrow> netaddr option" where
  "rr_addr (RR_A _ _ a) = AddrFromSlice (case to4 a of Some b \<Rightarrow> b | None \<Rightarrow> [])"
| "rr_addr (RR_AAAA _ _ a) = AddrFromSlice (to16 a)"
| "rr_addr RR_Other = None"

definition MsgToAddrs :: "'h msg \<Rightarrow> netaddr list" where
  "MsgToAddrs reply = List.map_filter rr_addr (Answer reply)"

text \<open>\<open>initHostsMap\<close>: the entries of the hosts file, in the order in which the map is iterated, by host.\<close>

definition initHostsMap :: "(string \<times> string list) list \<Rightarrow> string \<Rightarrow> netaddr list" where
  "initHostsMap mp host = concat (map (\<lambda>(ip, hosts). case netip_ParseAddr ip of
     Some a \<Rightarrow> replicate (count_list hosts host) a | None \<Rightarrow> []) mp)"

definition hosts_LookupIP :: "(string \<Rightarrow> netaddr list) \<Rightarrow> string \<Rightarrow> netaddr" where
  "hosts_LookupIP hosts host = (case hosts host of [] \<Rightarrow> NoAddr | ip # _ \<Rightarrow> ip)"

section \<open>Model of resolver.go: nameservers\<close>

record nameserverExt =
  ns_addr :: string
  ns_net :: string

definition addPrefix :: "string \<Rightarrow> string" where
  "addPrefix ns =
     (if contains_sub ns ''://'' then ns
      else case netip_ParseAddr ns of
        Some (Addr6 _ _) \<Rightarrow> ''udp://['' @ ns @ '']''
      | _ \<Rightarrow> ''udp://'' @ ns)"

definition formatNameserver :: "string \<Rightarrow> string \<Rightarrow> string go" where
  "formatNameserver hostport defaultPort =
     (case splitHostPort hostport of
        Ret (host, port) \<Rightarrow> Ret (joinHostPort host port)
      | Err e \<Rightarrow> if e \<noteq> ErrMissingPort then Err e
          else bind_go (splitHostPort (hostport @ '':'' @ defaultPort)) (\<lambda>(host, port). Ret (joinHostPort host port))
      | Panic \<Rightarrow> Panic)"

text \<open>A parsed URL: its scheme and host, and how it is written with another host.\<close>

record parsed_url =
  u_Scheme :: string
  u_Host :: string
  u_https :: "string \<Rightarrow> string"

definition parse_one :: "(string \<Rightarrow> parsed_url option) \<Rightarrow> string \<Rightarrow> nameserverExt option" where
  "parse_one urlParse ns = (case urlParse (addPrefix ns) of
     None \<Rightarrow> None
   | Some u \<Rightarrow>
       (let entry = (\<lambda>net port f. case formatNameserver (u_Host u) port of
              Ret a \<Rightarrow> Some \<lparr>ns_addr = f a, ns_net = net\<rparr> | _ \<Rightarrow> None) in
        if u_Scheme u = ''udp'' then entry ''udp'' ''53'' id
        else if u_Scheme u = ''tcp'' then entry ''tcp'' ''53'' id
        else if u_Scheme u = ''tls'' then entry ''tcp-tls'' ''853'' id
        else if u_Scheme u = ''https'' then entry ''https'' ''443'' (u_https u)
        else None))"

definition parseNameserver :: "(string \<Rightarrow> parsed_url option) \<Rightarrow> string list \<Rightarrow> nameserverExt list" where
  "parseNameserver urlParse nameservers = List.map_filter (parse_one urlParse) nameservers"

definition client_key :: "nameserverExt \<Rightarrow> string" where
  "client_key ns = ns_net ns @ '':'' @ ns_addr ns"

record 'c Resolver =
  nameservers :: "nameserverExt list"
  clients :: "(string \<times> 'c) list"
  lookupHostPref :: bool

text \<open>\<open>NewDnsResolver\<close>: the system's nameservers come after the configured ones.\<close>

definition NewDnsResolver :: "(string \<Rightarrow> parsed_url option) \<Rightarrow> (nameserverExt \<Rightarrow> 'c) \<Rightarrow> string list \<Rightarrow> string list \<Rightarrow> bool \<Rightarrow> 'c Resolver" where
  "NewDnsResolver urlParse newClient localDns ns hostsPref =
     (let l = parseNameserver urlParse ns @ parseNameserver urlParse localDns in
      \<lparr>nameservers = l, clients = fold (\<lambda>n cs. AList.update (client_key n) (newClient n) cs) l [], lookupHostPref = hostsPref\<rparr>)"

section \<open>Model of resolver.go: the exchange\<close>

text \<open>
  \<open>exchangeContextWithoutCache\<close>. The loop starts a goroutine for a nameserver and waits for a reply or
  the ticker. A goroutine that ends puts a successful reply into the channel of one place, unless it is
  taken. \<open>xc_log\<close> is what the nameservers have answered so far.
\<close>

datatype 'm xphase = XLoop | XWait | XFinal | XDone "'m go"

record 'm exchange =
  xc_phase :: "'m xphase"
  xc_todo :: "nameserverExt list"
  xc_running :: "nameserverExt list"
  xc_ch :: "'m option"
  xc_log :: "(nameserverExt \<times> 'm go) list"

definition exchange_start :: "nameserverExt list \<Rightarrow> 'm exchange" where
  "exchange_start l = \<lparr>xc_phase = XLoop, xc_todo = l, xc_running = [], xc_ch = None, xc_log = []\<rparr>"

text \<open>\<open>getReplyDnsMsg\<close> with the answer \<open>r\<close> of its client.\<close>

definition getReplyDnsMsg :: "'h msg go \<Rightarrow> 'h msg option \<Rightarrow> 'h msg option" where
  "getReplyDnsMsg r ch = (case r of
     Ret m \<Rightarrow> if Rcode m \<noteq> 0 then ch else (case ch of None \<Rightarrow> Some m | Some _ \<Rightarrow> ch)
   | _ \<Rightarrow> ch)"

inductive exchange_step :: "(nameserverExt \<Rightarrow> 'h msg go \<Rightarrow> bool) \<Rightarrow> 'h msg exchange \<Rightarrow> 'h msg exchange \<Rightarrow> bool"
  for answers where
  xs_start: "xc_phase s = XLoop \<Longrightarrow> xc_todo s = n # ns \<Longrightarrow>
    exchange_step answers s (s\<lparr>xc_phase := XWait, xc_todo := ns, xc_running := n # xc_running s\<rparr>)"
| xs_all_started: "xc_phase s = XLoop \<Longrightarrow> xc_todo s = [] \<Longrightarrow> exchange_step answers s (s\<lparr>xc_phase := XFinal\<rparr>)"
| xs_reply: "xc_phase s = XWait \<Longrightarrow> xc_ch s = Some m \<Longrightarrow> exchange_step answers s (s\<lparr>xc_phase := XDone (Ret m), xc_ch := None\<rparr>)"
| xs_tick: "xc_phase s = XWait \<Longrightarrow> exchange_step answers s (s\<lparr>xc_phase := XLoop\<rparr>)"
| xs_answer: "n \<in> set (xc_running s) \<Longrightarrow> answers n r \<Longrightarrow>
    exchange_step answers s (s\<lparr>xc_running := remove1 n (xc_running s), xc_ch := getReplyDnsMsg r (xc_ch s), xc_log := (n, r) # xc_log s\<rparr>)"
| xs_last: "xc_phase s = XFinal \<Longrightarrow> xc_running s = [] \<Longrightarrow> xc_ch s = Some m \<Longrightarrow>
    exchange_step answers s (s\<lparr>xc_phase := XDone (Ret m), xc_ch := None\<rparr>)"
| xs_none: "xc_phase s = XFinal \<Longrightarrow> xc_running s = [] \<Longrightarrow> xc_ch s = None \<Longrightarrow>
    exchange_step answers s (s\<lparr>xc_phase := XDone (Err ErrDnsExchangedFailed)\<rparr>)"

section \<open>Model of resolver.go: lookups\<close>

text \<open>\<open>lookupIP\<close>, with \<open>lookupIPWithMsg\<close> as an argument.\<close>

definition lookupIP :: "'h dnslib \<Rightarrow> ('h msg \<Rightarrow> 'h msg go) \<Rightarrow> string \<Rightarrow> nat \<Rightarrow> netaddr list go" where
  "lookupIP L withMsg host dnsType =
     (let req = (new_msg L)\<lparr>Question := [\<lparr>qname = Fqdn L host, qtype = dnsType, qclass = 1\<rparr>], RecursionDesired := True\<rparr> in
      bind_go (withMsg req) (\<lambda>reply. Ret (MsgToAddrs reply)))"

definition LookupIP :: "'h dnslib \<Rightarrow> ('h msg \<Rightarrow> 'h msg go) \<Rightarrow> (string \<Rightarrow> netaddr list) \<Rightarrow> 'c Resolver \<Rightarrow> string \<Rightarrow> netaddr list go" where
  "LookupIP L withMsg hosts r host =
     (let ip = hosts_LookupIP hosts host in
      if lookupHostPref r \<and> ip \<noteq> NoAddr then Ret [ip]
      else case lookupIP L withMsg host 1 of
        Ret ips \<Rightarrow> if ips \<noteq> [] then Ret ips
          else (case lookupIP L withMsg host 28 of Ret ips6 \<Rightarrow> Ret ips6 | _ \<Rightarrow> Err ErrCannotLookupIPv4v6)
      | _ \<Rightarrow> (case lookupIP L withMsg host 28 of Ret ips6 \<Rightarrow> Ret ips6 | _ \<Rightarrow> Err ErrCannotLookupIPv4v6))"

text \<open>\<open>LookupHost\<close>, with the number \<open>rand.Intn\<close> gives.\<close>

definition LookupHost :: "'h dnslib \<Rightarrow> ('h msg \<Rightarrow> 'h msg go) \<Rightarrow> (string \<Rightarrow> netaddr list) \<Rightarrow> 'c Resolver \<Rightarrow> (nat \<Rightarrow> nat) \<Rightarrow> string \<Rightarrow> netaddr" where
  "LookupHost L withMsg hosts r intn host =
     (if host = [] then NoAddr
      else case netip_ParseAddr host of
        Some ip \<Rightarrow> ip
      | None \<Rightarrow> (case LookupIP L withMsg hosts r host of
          Ret addrs \<Rightarrow> if addrs = [] then NoAddr else addrs ! intn (length addrs)
        | _ \<Rightarrow> NoAddr))"

text \<open>\<open>ResolveTCPAddr\<close> and \<open>ResolveUDPAddr\<close>, which differ only in the type of their result.\<close>

definition ResolveAddr :: "(string \<Rightarrow> netaddr) \<Rightarrow> string \<Rightarrow> (bytes \<times> nat) go" where
  "ResolveAddr lookupHost addr = bind_go (splitHostPort addr) (\<lambda>(host, p).
     let ip = lookupHost host in
     if ip = NoAddr then Err ErrCannotLookupAddress else Ret (asSlice ip, fst (parseUint 65535 p)))"

section \<open>Model of resolver.go: the queries of the local server\<close>

definition lookupHostsFile_msg :: "'h dnslib \<Rightarrow> (string \<Rightarrow> netaddr list) \<Rightarrow> 'h msg \<Rightarrow> 'h msg go" where
  "lookupHostsFile_msg L hosts req = bind_go (req_name req) (\<lambda>name.
     let host = TrimDomain name; ip = hosts_LookupIP hosts host;
         reply = (SetReply L (new_msg L) req)\<lparr>RecursionAvailable := True\<rparr> in
     case ip of
       NoAddr \<Rightarrow> Err ErrCannotLookupIPFromHostsFile
     | Addr4 b \<Rightarrow> Ret (reply\<lparr>Answer := Answer reply @ [RR_A (Fqdn L host) 6 b]\<rparr>)
     | Addr6 b _ \<Rightarrow> Ret (reply\<lparr>Answer := Answer reply @ [RR_AAAA (Fqdn L host) 6 b]\<rparr>))"

definition matchDomainFilter :: "string list \<Rightarrow> 'h msg \<Rightarrow> bool go" where
  "matchDomainFilter flt req =
     (if flt = [] then Ret False else bind_go (req_name req) (\<lambda>name. Ret (TrimDomain name \<in> set flt)))"

text \<open>\<open>Query\<close> on the fake IP resolver, which is nil outside the enhancer mode.\<close>

definition Resolver_Query :: "'h dnslib \<Rightarrow> int \<Rightarrow> (string \<Rightarrow> netaddr list) \<Rightarrow> string list \<Rightarrow> ('h msg \<Rightarrow> 'h msg go) \<Rightarrow> 'h msg
    \<Rightarrow> ('h fakeIPResolver option, 'h msg) proc" where
  "Resolver_Query L now hosts flt withMsg req f =
     (case lookupHostsFile_msg L hosts req of
        Ret m \<Rightarrow> (Ret m, f)
      | Panic \<Rightarrow> (Panic, f)
      | Err _ \<Rightarrow>
          (case Question req of
             [] \<Rightarrow> (Panic, f)
           | q # _ \<Rightarrow>
               if qclass q = 1 \<and> qtype q = 1 then
                 (case matchDomainFilter flt req of
                    Ret True \<Rightarrow> (withMsg req, f)
                  | Ret False \<Rightarrow> (case f of
                      None \<Rightarrow> (Panic, f)
                    | Some r \<Rightarrow> (case fake_query L now req r of (res, r') \<Rightarrow> (res, Some r')))
                  | Err e \<Rightarrow> (Err e, f)
                  | Panic \<Rightarrow> (Panic, f))
               else (Ret (SetReply L (new_msg L) req), f)))"

text \<open>\<open>serveDNS\<close>: what is written, with the failure reply of the library as an argument.\<close>

definition serveDNS :: "('h msg \<Rightarrow> 'h msg) \<Rightarrow> 'h msg \<Rightarrow> 'h msg go \<Rightarrow> 'h msg go" where
  "serveDNS handleFailed req r = (case r of Ret m \<Rightarrow> Ret m | Err _ \<Rightarrow> Ret (handleFailed req) | Panic \<Rightarrow> Panic)"

section \<open>Properties of the exchange\<close>

text \<open>What is in the channel was a successful answer, and no successful answer is lost before one is taken.\<close>

definition good_reply :: "nameserverExt \<times> 'h msg go \<Rightarrow> 'h msg option" where
  "good_reply a = (case snd a of Ret m \<Rightarrow> if Rcode m = 0 then Some m else None | _ \<Rightarrow> None)"

lemma good_reply_Some: "good_reply (n, r) = Some m \<longleftrightarrow> r = Ret m \<and> Rcode m = 0"
  by (auto simp: good_reply_def split: go.splits)

definition exchange_inv :: "nameserverExt list \<Rightarrow> (nameserverExt \<Rightarrow> 'h msg go \<Rightarrow> bool) \<Rightarrow> 'h msg exchange \<Rightarrow> bool" where
  "exchange_inv l answers s \<longleftrightarrow>
     mset (map fst (xc_log s)) + mset (xc_running s) + mset (xc_todo s) = mset l
   \<and> (\<forall>(n, r) \<in> set (xc_log s). answers n r)
   \<and> (\<forall>m. xc_ch s = Some m \<longrightarrow> (\<exists>a \<in> set (xc_log s). good_reply a = Some m))
   \<and> (case xc_phase s of
        XDone (Ret m) \<Rightarrow> \<exists>a \<in> set (xc_log s). good_reply a = Some m
      | XDone (Err e) \<Rightarrow> e = ErrDnsExchangedFailed \<and> xc_running s = [] \<and> xc_todo s = [] \<and> (\<forall>a \<in> set (xc_log s). good_reply a = None)
      | XDone Panic \<Rightarrow> False
      | XFinal \<Rightarrow> xc_todo s = [] \<and> (xc_ch s = None \<longrightarrow> (\<forall>a \<in> set (xc_log s). good_reply a = None))
      | _ \<Rightarrow> xc_ch s = None \<longrightarrow> (\<forall>a \<in> set (xc_log s). good_reply a = None))"

lemma exchange_inv_step:
  assumes "exchange_step answers s s'" "exchange_inv l answers s"
  shows "exchange_inv l answers s'"
  using assms(1)
proof cases
  case (xs_answer n r)
  let ?ch = "getReplyDnsMsg r (xc_ch s)"
  have "mset (xc_running s) = add_mset n (mset (remove1 n (xc_running s)))" using xs_answer(2) by simp
  then have eq: "mset (map fst ((n, r) # xc_log s)) + mset (remove1 n (xc_running s)) = mset (map fst (xc_log s)) + mset (xc_running s)" by simp
  have "mset (map fst (xc_log s')) + mset (xc_running s') + mset (xc_todo s')
      = mset (map fst ((n, r) # xc_log s)) + mset (remove1 n (xc_running s)) + mset (xc_todo s)" by (simp add: xs_answer(1))
  also have "\<dots> = mset l" unfolding eq using assms(2) by (simp only: exchange_inv_def)
  finally have ms: "mset (map fst (xc_log s')) + mset (xc_running s') + mset (xc_todo s') = mset l" .
  have ch: "?ch = xc_ch s \<and> (xc_ch s = None \<longrightarrow> good_reply (n, r) = None) \<or> (\<exists>m. ?ch = Some m \<and> good_reply (n, r) = Some m)"
    by (auto simp: getReplyDnsMsg_def good_reply_def split: go.splits option.splits)
  have inv: "\<forall>(n, r) \<in> set (xc_log s). answers n r" "\<forall>m. xc_ch s = Some m \<longrightarrow> (\<exists>a \<in> set (xc_log s). good_reply a = Some m)"
    using assms(2) by (simp_all add: exchange_inv_def)
  have log: "\<forall>(n, r) \<in> set (xc_log s'). answers n r" "\<forall>m. xc_ch s' = Some m \<longrightarrow> (\<exists>a \<in> set (xc_log s'). good_reply a = Some m)"
    "xc_ch s' = None \<Longrightarrow> xc_ch s = None \<and> good_reply (n, r) = None" "xc_log s' = (n, r) # xc_log s" "xc_phase s' = xc_phase s" "xc_todo s' = xc_todo s"
    using inv ch xs_answer(1,3) by auto
  show ?thesis
  proof (cases "xc_phase s")
    case (XDone x)
    then show ?thesis using assms(2) xs_answer(2) ms log by (cases x) (auto simp: exchange_inv_def)
  qed (use assms(2) ms log in \<open>auto simp: exchange_inv_def\<close>)
qed (use assms(2) in \<open>auto simp: exchange_inv_def\<close>)

lemma exchange_inv_run:
  assumes "(exchange_step answers)\<^sup>*\<^sup>* (exchange_start l) s"
  shows "exchange_inv l answers s"
  using assms
proof induction
  case base
  show ?case by (simp add: exchange_inv_def exchange_start_def)
qed (rule exchange_inv_step)

text \<open>Every step uses up something, and only a finished exchange has no step.\<close>

definition exchange_left :: "'m exchange \<Rightarrow> nat" where
  "exchange_left s = 3 * length (xc_todo s) + length (xc_running s)
     + (case xc_phase s of XWait \<Rightarrow> 3 | XLoop \<Rightarrow> 2 | XFinal \<Rightarrow> 1 | XDone _ \<Rightarrow> 0)"

lemma exchange_step_decreases: "exchange_step answers s s' \<Longrightarrow> exchange_left s' < exchange_left s"
proof (erule exchange_step.cases)
  fix t n r assume "s = t" "s' = t\<lparr>xc_running := remove1 n (xc_running t), xc_ch := getReplyDnsMsg r (xc_ch t), xc_log := (n, r) # xc_log t\<rparr>"
    "n \<in> set (xc_running t)"
  then show ?thesis by (auto simp: exchange_left_def length_remove1 split: xphase.splits dest: length_pos_if_in_set)
qed (auto simp: exchange_left_def)

lemma exchange_progress:
  assumes "\<forall>n. \<exists>r. answers n r" "\<not> (\<exists>r. xc_phase s = XDone r)"
  shows "\<exists>s'. exchange_step answers s s'"
proof (cases "xc_phase s")
  case XLoop
  then show ?thesis by (cases "xc_todo s") (blast intro: xs_start xs_all_started)+
next
  case XFinal
  show ?thesis
  proof (cases "xc_running s")
    case Nil
    then show ?thesis using XFinal by (cases "xc_ch s") (blast intro: xs_last xs_none)+
  next
    case (Cons n ns)
    then show ?thesis using assms(1) xs_answer [of n s] by (metis list.set_intros(1))
  qed
qed (use assms(2) xs_tick in blast)+

section \<open>Properties\<close>

text \<open>
  C29. The exchange with the nameservers answers exactly when it can: in every run, whatever the order in
  which the ticker fires and the nameservers answer, a reply that is returned is a successful answer of
  one of them; and the exchange fails only after every nameserver has answered and none successfully.
\<close>

theorem exchange_answers_if_any:
  assumes "(exchange_step answers)\<^sup>*\<^sup>* (exchange_start l) s" "xc_phase s = XDone res"
  shows "(\<exists>n m. res = Ret m \<and> n \<in> set l \<and> answers n (Ret m) \<and> Rcode m = 0)
     \<or> (res = Err ErrDnsExchangedFailed \<and> (\<forall>n \<in> set l. \<exists>r. answers n r \<and> (n, r) \<in> set (xc_log s))
        \<and> (\<forall>(n, r) \<in> set (xc_log s). \<forall>m. r = Ret m \<longrightarrow> Rcode m \<noteq> 0))"
proof -
  have inv: "exchange_inv l answers s" by (rule exchange_inv_run [OF assms(1)])
  have sub: "fst ` set (xc_log s) \<subseteq> set l"
    using inv by (metis (no_types, lifting) exchange_inv_def list.set_map set_mset_mset set_mset_union mset_map sup.cobounded1 sup.coboundedI1)
  show ?thesis
  proof (cases res)
    case (Ret m)
    then obtain n r where "(n, r) \<in> set (xc_log s)" "good_reply (n, r) = Some m" "answers n r"
      using inv assms(2) by (auto simp: exchange_inv_def)
    moreover from this(1) have "n \<in> set l" using sub by (metis fst_conv imageI subsetD)
    moreover have "r = Ret m \<and> Rcode m = 0" using \<open>good_reply (n, r) = Some m\<close> by (simp add: good_reply_Some)
    ultimately show ?thesis using Ret by blast
  next
    case (Err e)
    have e: "e = ErrDnsExchangedFailed" "mset (map fst (xc_log s)) = mset l" "\<forall>a \<in> set (xc_log s). good_reply a = None" "\<forall>(n, r) \<in> set (xc_log s). answers n r"
      using inv assms(2) Err by (auto simp: exchange_inv_def)
    have "set l = fst ` set (xc_log s)" using e(2) by (metis list.set_map mset_eq_setD)
    then have "\<forall>n \<in> set l. \<exists>r. answers n r \<and> (n, r) \<in> set (xc_log s)" using e(4) by fastforce
    moreover have "Rcode m \<noteq> 0" if "(n, Ret m) \<in> set (xc_log s)" for n m
      using that e(3) good_reply_Some [of n "Ret m" m] by force
    ultimately show ?thesis using e(1) Err by auto
  next
    case Panic
    then show ?thesis using inv assms(2) by (simp add: exchange_inv_def)
  qed
qed

text \<open>
  C30. The exchange ends: no run has more than \<open>3 n + 2\<close> steps for \<open>n\<close> nameservers, and a run that has not
  returned can go on, provided that every nameserver answers or times out.
\<close>

theorem exchange_terminates:
  assumes "(exchange_step answers ^^ k) (exchange_start l) s" "\<forall>n. \<exists>r. answers n r"
  shows "k \<le> 3 * length l + 2 \<and> ((\<exists>r. xc_phase s = XDone r) \<or> (\<exists>s'. exchange_step answers s s'))"
proof -
  have "exchange_left t + k \<le> exchange_left s0" if "(exchange_step answers ^^ k) s0 t" for k s0 t
    using that
  proof (induction k arbitrary: t)
    case (Suc k)
    then obtain u where "(exchange_step answers ^^ k) s0 u" "exchange_step answers u t" by auto
    then show ?case using Suc.IH [of u] exchange_step_decreases [of answers u t] by simp
  qed simp
  from this [OF assms(1)] have "k \<le> 3 * length l + 2" by (simp add: exchange_left_def exchange_start_def)
  then show ?thesis using exchange_progress [OF assms(2)] by blast
qed

definition host_query :: "'h dnslib \<Rightarrow> string \<Rightarrow> nat \<Rightarrow> 'h msg" where
  "host_query L host t = (new_msg L)\<lparr>Question := [\<lparr>qname = Fqdn L host, qtype = t, qclass = 1\<rparr>], RecursionDesired := True\<rparr>"

text \<open>
  Where a resolved address comes from: the text itself when it is an address, the hosts file when it
  is preferred and has the host, otherwise an answer to a query for the host; an IPv6 answer only when
  there is no answer with an IPv4 address.
\<close>

theorem lookup_host_sources:
  assumes "\<forall>n. 0 < n \<longrightarrow> intn n < n" "LookupHost L withMsg hosts r intn host \<noteq> NoAddr"
  shows "netip_ParseAddr host = Some (LookupHost L withMsg hosts r intn host)
    \<or> (lookupHostPref r \<and> hosts host \<noteq> [] \<and> LookupHost L withMsg hosts r intn host = hd (hosts host))
    \<or> (\<exists>m. withMsg (host_query L host 1) = Ret m \<and> LookupHost L withMsg hosts r intn host \<in> set (MsgToAddrs m))
    \<or> (\<exists>m. withMsg (host_query L host 28) = Ret m \<and> LookupHost L withMsg hosts r intn host \<in> set (MsgToAddrs m)
        \<and> \<not> (\<exists>m4. withMsg (host_query L host 1) = Ret m4 \<and> MsgToAddrs m4 \<noteq> []))"
proof (cases "host = [] \<or> (\<exists>ip. netip_ParseAddr host = Some ip)")
  case True
  then show ?thesis using assms(2) by (auto simp: LookupHost_def)
next
  case False
  then obtain addrs where a: "LookupIP L withMsg hosts r host = Ret addrs" "addrs \<noteq> []" "LookupHost L withMsg hosts r intn host = addrs ! intn (length addrs)"
    using assms(2) by (cases "LookupIP L withMsg hosts r host") (auto simp: LookupHost_def split: if_splits)
  have mem: "addrs ! intn (length addrs) \<in> set addrs" using a(2) assms(1) by simp
  show ?thesis
  proof (cases "lookupHostPref r \<and> hosts_LookupIP hosts host \<noteq> NoAddr")
    case True
    then show ?thesis using a mem by (auto simp: LookupIP_def hosts_LookupIP_def split: list.splits)
  next
    case pref: False
    have q: "lookupIP L withMsg host t = bind_go (withMsg (host_query L host t)) (\<lambda>m. Ret (MsgToAddrs m))" for t
      by (simp add: lookupIP_def host_query_def)
    show ?thesis
      using a pref mem by (cases "withMsg (host_query L host 1)"; cases "withMsg (host_query L host 28)")
        (auto simp: LookupIP_def q split: if_splits)
  qed
qed

definition toy_ns :: nameserverExt where
  "toy_ns = \<lparr>ns_addr = ''8.8.8.8:53'', ns_net = ''udp''\<rparr>"

definition toy_answers :: "nameserverExt \<Rightarrow> unit msg go \<Rightarrow> bool" where
  "toy_answers n r \<longleftrightarrow> r = Ret (new_msg toy_dns)"

definition toy_state :: "unit msg exchange" where
  "toy_state = \<lparr>xc_phase = XWait, xc_todo = [], xc_running = [toy_ns], xc_ch = None, xc_log = []\<rparr>"

lemma toy_run: "exchange_step toy_answers (exchange_start [toy_ns]) toy_state"
  "(exchange_step toy_answers)\<^sup>*\<^sup>* (exchange_start [toy_ns])
     \<lparr>xc_phase = XDone (Ret (new_msg toy_dns)), xc_todo = [], xc_running = [], xc_ch = None, xc_log = [(toy_ns, Ret (new_msg toy_dns))]\<rparr>"
proof -
  let ?m = "new_msg toy_dns" and ?c = "\<lparr>xc_phase = XWait, xc_todo = [], xc_running = [], xc_ch = Some (new_msg toy_dns), xc_log = [(toy_ns, Ret (new_msg toy_dns))]\<rparr>"
  show 1: "exchange_step toy_answers (exchange_start [toy_ns]) toy_state"
    using xs_start [of "exchange_start [toy_ns]" toy_ns "[]" toy_answers] by (simp add: exchange_start_def toy_state_def)
  have 2: "exchange_step toy_answers toy_state ?c"
    using xs_answer [of toy_ns toy_state toy_answers "Ret ?m"] by (simp add: toy_state_def toy_answers_def getReplyDnsMsg_def new_msg_def)
  have 3: "exchange_step toy_answers ?c (?c\<lparr>xc_phase := XDone (Ret ?m), xc_ch := None\<rparr>)" by (rule xs_reply) simp_all
  show "(exchange_step toy_answers)\<^sup>*\<^sup>* (exchange_start [toy_ns])
     \<lparr>xc_phase = XDone (Ret (new_msg toy_dns)), xc_todo = [], xc_running = [], xc_ch = None, xc_log = [(toy_ns, Ret (new_msg toy_dns))]\<rparr>"
    using 1 2 3 by (auto intro: converse_rtranclp_into_rtranclp)
qed

theorem exchange_answers_if_any_witness:
  "\<exists>n m. Ret (new_msg toy_dns) = Ret m \<and> n \<in> set [toy_ns] \<and> toy_answers n (Ret m) \<and> Rcode m = 0"
  using exchange_answers_if_any [OF toy_run(2)] by auto

theorem exchange_terminates_witness:
  "(1 :: nat) \<le> 3 * length [toy_ns] + 2 \<and> ((\<exists>r. xc_phase toy_state = XDone r) \<or> (\<exists>s'. exchange_step toy_answers toy_state s'))"
proof -
  have "(exchange_step toy_answers ^^ 1) (exchange_start [toy_ns]) toy_state" using toy_run(1) by auto
  then show ?thesis by (rule exchange_terminates) (simp add: toy_answers_def)
qed

theorem lookup_host_sources_witness:
  "netip_ParseAddr ''1.2.3.4'' = Some (LookupHost toy_dns (\<lambda>_. Err ErrDial) (\<lambda>_. []) (NewDnsResolver (\<lambda>_. None) id [] [] False) (\<lambda>n. 0) ''1.2.3.4'')
   \<or> lookupHostPref (NewDnsResolver (\<lambda>_. None) id [] [] False)"
proof -
  have "netip_ParseAddr ''1.2.3.4'' = Some (Addr4 [1, 2, 3, 4])" by code_simp
  then have "LookupHost toy_dns (\<lambda>_. Err ErrDial) (\<lambda>_. []) (NewDnsResolver (\<lambda>_. None) id [] [] False) (\<lambda>n. 0) ''1.2.3.4'' \<noteq> NoAddr"
    by (simp add: LookupHost_def)
  from lookup_host_sources [OF _ this] show ?thesis by auto
qed

end
