(* ===== verification/Go_Http.thy ===== *)
theory Go_Http
  imports Go_Net
begin

text \<open>
  The parts of \<open>bufio\<close>, \<open>encoding/base64\<close>, \<open>net/textproto\<close> and \<open>net/http\<close> that the program uses: reading the
  head of a request from a buffered reader, the header map, and base64 texts. \<open>url.ParseRequestURI\<close> is an
  argument.
\<close>

section \<open>bufio.Reader\<close>

text \<open>
  A buffered reader holds the bytes that were read and not yet delivered, at most 4096. Filling it gives up
  after a hundred reads without data.
\<close>

type_synonym bufr = "bytes \<times> reader"

definition bufSize :: nat where
  "bufSize = 4096"

fun fill :: "nat \<Rightarrow> (bufr, unit) proc" where
  "fill 0 s = (Err ErrNoProgress, s)"
| "fill (Suc i) (b, r) = (case rd_read (bufSize - length b) r of
     (Ret x, r') \<Rightarrow> if x = [] then fill i (b, r') else (Ret (), (b @ x, r'))
   | (Err e, r') \<Rightarrow> (Err e, (b, r'))
   | (Panic, r') \<Rightarrow> (Panic, (b, r')))"

lemma fill_shrinks:
  "fill i (b, r) = (Ret u, (b', r')) \<Longrightarrow> length (concat r') < length (concat r) \<and> (\<exists>x. x \<noteq> [] \<and> b' = b @ x)"
proof (induction i arbitrary: r)
  case (Suc i)
  note prems = Suc.prems
  show ?case
  proof (cases r)
    case (Cons c cs)
    consider "c = []" | "c \<noteq> []" "length c \<le> bufSize - length b" | "c \<noteq> []" "bufSize - length b < length c" by force
    then show ?thesis
    proof cases
      case 1
      then show ?thesis using Suc Cons by simp
    next
      case 2
      then show ?thesis using Suc.prems Cons by auto
    next
      case 3
      show ?thesis
      proof (cases "bufSize - length b")
        case 0
        then show ?thesis using Suc.IH [of "c # cs"] Suc.prems Cons 3 by simp
      next
        case (Suc k)
        then have "b' = b @ take (Suc k) c" "r' = drop (Suc k) c # cs" using prems Cons 3 by auto
        then show ?thesis using Suc 3 Cons by auto
      qed
    qed
  qed (use Suc.prems in simp)
qed simp

lemma fill_length:
  "fill i (b, r) = (Ret u, (b', r')) \<Longrightarrow> length b' + length (concat r') = length b + length (concat r)"
proof (induction i arbitrary: r)
  case (Suc i)
  then show ?case by (cases r) (auto split: if_splits)
qed simp

text \<open>\<open>ReadString('\n')\<close>: the bytes up to the next line feed; at an error the rest of the buffer is consumed.\<close>

function readString :: "(bufr, bytes) proc" where
  "readString (b, r) = (case index_chr 10 b of
     Some i \<Rightarrow> (Ret (take (Suc i) b), (drop (Suc i) b, r))
   | None \<Rightarrow>
       if bufSize \<le> length b then (case readString ([], r) of (Ret x, s) \<Rightarrow> (Ret (b @ x), s) | (e, s) \<Rightarrow> (e, s))
       else (case fill 100 (b, r) of
           (Ret _, s) \<Rightarrow> readString s
         | (Err e, s) \<Rightarrow> (Err e, ([], snd s))
         | (Panic, s) \<Rightarrow> (Panic, s)))"
  by pat_completeness auto
termination
  by (relation "measures [\<lambda>(b, r). length (concat r), \<lambda>(b, r). length b]")
    (auto simp: bufSize_def dest: fill_shrinks [OF sym])

declare readString.simps [simp del]

lemma fill_some:
  assumes "concat r \<noteq> []" "[] \<notin> set r" "length b < bufSize"
  shows "\<exists>x r'. fill (Suc i) (b, r @ ts) = (Ret (), (b @ x, r' @ ts)) \<and> x \<noteq> [] \<and> concat r = x @ concat r' \<and> [] \<notin> set r'"
proof (cases r)
  case (Cons c cs)
  show ?thesis
  proof (cases "length c \<le> bufSize - length b")
    case True
    then show ?thesis using assms Cons by auto
  next
    case False
    then show ?thesis using assms Cons by (intro exI [of _ "take (bufSize - length b) c"] exI [of _ "drop (bufSize - length b) c # cs"]) auto
  qed
qed (use assms in simp)

lemma index_chr_first: "c \<notin> set l \<Longrightarrow> index_chr c (l @ c # t) = Some (length l)"
  by (simp add: index_chr_append)

text \<open>A line that has arrived is read without touching the chunks \<open>ts\<close> that come later.\<close>

lemma readString_line:
  assumes "b @ concat r = l @ 10 # rest" "10 \<notin> set l" "[] \<notin> set r"
  shows "\<exists>b' r'. readString (b, r @ ts) = (Ret (l @ [10]), (b', r' @ ts)) \<and> b' @ concat r' = rest \<and> [] \<notin> set r'
     \<and> length (concat r') \<le> length (concat r)"
  using assms
proof (induction "(b, r @ ts)" arbitrary: b r l rule: readString.induct)
  case (1 b)
  show ?case
  proof (cases "length l < length b")
    case True
    then obtain t where b: "b = l @ 10 # t" "t @ concat r = rest"
      using 1(3) by (auto simp: append_eq_append_conv2 append_eq_Cons_conv)
    then show ?thesis using 1(4,5) by (auto simp: readString.simps index_chr_first)
  next
    case False
    then obtain l' where l: "l = b @ l'" "concat r = l' @ 10 # rest"
      using 1(3) by (metis append_eq_append_conv_if append_take_drop_id not_less)
    then have none: "index_chr 10 b = None" using 1(4) by (simp add: index_chr_None)
    have l': "10 \<notin> set l'" using l 1(4) by simp
    show ?thesis
    proof (cases "bufSize \<le> length b")
      case True
      obtain b' r' where "readString ([], r @ ts) = (Ret (l' @ [10]), (b', r' @ ts))" "b' @ concat r' = rest" "[] \<notin> set r'" "length (concat r') \<le> length (concat r)"
        using 1(1) [OF none True _ l' 1(5)] l(2) by auto
      then show ?thesis using none True l(1) by (auto simp: readString.simps [of b "r @ ts"])
    next
      case False
      obtain x r1 where x: "fill 100 (b, r @ ts) = (Ret (), (b @ x, r1 @ ts))" "concat r = x @ concat r1" "[] \<notin> set r1"
        using fill_some [of r b 99 ts] False 1(5) l(2) by (auto simp: numeral_eq_Suc)
      have "(b @ x) @ concat r1 = l @ 10 # rest" using 1(3) x(2) by simp
      then obtain b' r' where "readString (b @ x, r1 @ ts) = (Ret (l @ [10]), (b', r' @ ts))" "b' @ concat r' = rest" "[] \<notin> set r'" "length (concat r') \<le> length (concat r1)"
        using 1(2) [OF none False x(1) [symmetric] refl _ 1(4) x(3)] by blast
      then show ?thesis using none False x(1,2) by (auto simp: readString.simps [of b "r @ ts"])
    qed
  qed
qed

text \<open>
  \<open>Read\<close>: what is buffered, or one read of the underlying reader, past the buffer when the slice is larger.
\<close>

definition bufio_Read :: "nat \<Rightarrow> (bufr, bytes) proc" where
  "bufio_Read n s = (case s of (b, r) \<Rightarrow>
     if b \<noteq> [] then (Ret (take n b), (drop n b, r))
     else if bufSize \<le> n then (case rd_read n r of (x, r') \<Rightarrow> (x, ([], r')))
     else (case rd_read bufSize r of
         (Ret x, r') \<Rightarrow> (Ret (take n x), (drop n x, r'))
       | (x, r') \<Rightarrow> (x, ([], r'))))"

text \<open>\<open>Peek(1)\<close>: the next byte, which stays.\<close>

definition Peek1 :: "(bufr, bytes) proc" where
  "Peek1 s = (if fst s \<noteq> [] then (Ret (take 1 (fst s)), s)
     else (case fill 100 s of (Ret _, s') \<Rightarrow> (Ret (take 1 (fst s')), s') | (Err e, s') \<Rightarrow> (Err e, s') | (Panic, s') \<Rightarrow> (Panic, s')))"

lemma bufio_Read_length:
  "bufio_Read n s = (Ret x, s') \<Longrightarrow> length x \<le> n \<and> (x = [] \<longrightarrow> 0 < n \<longrightarrow> length (snd s') < length (snd s))"
proof (cases s)
  case (Pair b r)
  assume 1: "bufio_Read n s = (Ret x, s')"
  show ?thesis
  proof (cases "b = []")
    case True
    then show ?thesis using 1 Pair by (cases r) (auto simp: bufio_Read_def bufSize_def split: if_splits)
  qed (use 1 Pair in \<open>auto simp: bufio_Read_def\<close>)
qed

text \<open>A successful call returns at least one byte.\<close>

lemma readString_shrinks:
  "readString (b, r) = (Ret x, (b', r')) \<Longrightarrow> length b' + length (concat r') < length b + length (concat r)"
proof (induction "(b, r)" arbitrary: b r x rule: readString.induct)
  case (1 b r)
  show ?case
  proof (cases "index_chr 10 b")
    case (Some i)
    then have "b \<noteq> []" by auto
    then show ?thesis using 1(3) Some by (auto simp: readString.simps [of b r])
  next
    case None
    show ?thesis
    proof (cases "bufSize \<le> length b")
      case True
      then obtain y where "readString ([], r) = (Ret y, (b', r'))"
        using 1(3) None by (auto simp: readString.simps [of b r] split: go.splits prod.splits)
      then show ?thesis using 1(1) [OF None True] by fastforce
    next
      case False
      then obtain b1 r1 where f: "fill 100 (b, r) = (Ret (), (b1, r1))" and "readString (b1, r1) = (Ret x, (b', r'))"
        using 1(3) None by (auto simp: readString.simps [of b r] split: go.splits prod.splits)
      then have "length b' + length (concat r') < length b1 + length (concat r1)"
        using 1(2) [OF None False f [symmetric] refl] by blast
      moreover have "length b1 + length (concat r1) \<le> length b + length (concat r)"
        using fill_length [OF f] by simp
      ultimately show ?thesis by simp
    qed
  qed
qed

section \<open>Heads of messages (net/textproto)\<close>

text \<open>The text of a line without its line feed and the carriage return before it.\<close>

definition chop_eol :: "bytes \<Rightarrow> string" where
  "chop_eol l = (let s = butlast (string_of l) in if s \<noteq> [] \<and> last s = CHR 0x0D then butlast s else s)"

text \<open>
  The lines up to the empty one. The library stops at the first line it cannot parse, here the head is read
  to its end before it is parsed.
\<close>

function read_raw :: "(bufr, string list) proc" where
  "read_raw (b, r) = (case readString (b, r) of
     (Ret l, s) \<Rightarrow> if chop_eol l = [] then (Ret [], s)
       else (case read_raw s of (Ret ls, s') \<Rightarrow> (Ret (chop_eol l # ls), s') | (e, s') \<Rightarrow> (e, s'))
   | (Err e, s) \<Rightarrow> (Err (if e = EOF then ErrUnexpectedEOF else e), s)
   | (Panic, s) \<Rightarrow> (Panic, s))"
  by pat_completeness auto
termination
  by (relation "measure (\<lambda>(b, r). length b + length (concat r))") (auto dest: readString_shrinks [OF sym])

declare read_raw.simps [simp del]

definition is_space :: "char \<Rightarrow> bool" where
  "is_space c \<longleftrightarrow> c = CHR '' '' \<or> c = CHR 0x09"

definition trim_left :: "string \<Rightarrow> string" where
  "trim_left s = dropWhile is_space s"

definition trim :: "string \<Rightarrow> string" where
  "trim s = rev (trim_left (rev (trim_left s)))"

definition starts_space :: "string \<Rightarrow> bool" where
  "starts_space l \<longleftrightarrow> l \<noteq> [] \<and> is_space (hd l)"

text \<open>Lines that start with a space continue the line before; a line that is none of these has a colon.\<close>

function unfold_lines :: "string list \<Rightarrow> string list option" where
  "unfold_lines [] = Some []"
| "unfold_lines (l # ls) = (if CHR '':'' \<notin> set l then None
     else map_option (Cons (join_chr (CHR '' '') (map trim (l # takeWhile starts_space ls))))
       (unfold_lines (dropWhile starts_space ls)))"
  by pat_completeness auto
termination
  by (relation "measure length") (auto simp: le_imp_less_Suc length_dropWhile_le)

definition letter :: "char \<Rightarrow> bool" where
  "letter c \<longleftrightarrow> (65 \<le> ord c \<and> ord c \<le> 90) \<or> (97 \<le> ord c \<and> ord c \<le> 122)"

definition validHeaderFieldByte :: "char \<Rightarrow> bool" where
  "validHeaderFieldByte c \<longleftrightarrow> letter c \<or> is_digit c \<or> c \<in> set [CHR ''!'', CHR ''#'', CHR ''$'', CHR ''%'', CHR ''&'',
     CHR 0x27, CHR ''*'', CHR ''+'', CHR ''-'', CHR ''.'', CHR ''^'', CHR ''_'', CHR 0x60, CHR ''|'', CHR ''~'']"

definition validHeaderValueByte :: "char \<Rightarrow> bool" where
  "validHeaderValueByte c \<longleftrightarrow> c = CHR 0x09 \<or> (32 \<le> ord c \<and> ord c \<noteq> 127)"

definition toUpper :: "char \<Rightarrow> char" where
  "toUpper c = (if 97 \<le> ord c \<and> ord c \<le> 122 then char_of (ord c - 32) else c)"

definition toLower :: "char \<Rightarrow> char" where
  "toLower c = (if 65 \<le> ord c \<and> ord c \<le> 90 then char_of (ord c + 32) else c)"

fun canon :: "bool \<Rightarrow> string \<Rightarrow> string" where
  "canon up [] = []"
| "canon up (c # cs) = (let d = (if up then toUpper c else toLower c) in d # canon (d = CHR ''-'') cs)"

definition canonicalMIMEHeaderKey :: "string \<Rightarrow> string option" where
  "canonicalMIMEHeaderKey a =
     (if \<not> list_all (\<lambda>c. validHeaderFieldByte c \<or> c = CHR '' '') a then None
      else if CHR '' '' \<in> set a then Some a else Some (canon True a))"

type_synonym Header = "(string \<times> string) list"

fun parse_entries :: "string list \<Rightarrow> Header option" where
  "parse_entries [] = Some []"
| "parse_entries (kv # kvs) = (case cut_chr (CHR '':'') kv of (k, v, _) \<Rightarrow>
     (case canonicalMIMEHeaderKey k of
        None \<Rightarrow> None
      | Some key \<Rightarrow> if \<not> list_all validHeaderValueByte v then None
          else if key = [] then parse_entries kvs
          else map_option (Cons (key, trim_left v)) (parse_entries kvs)))"

text \<open>\<open>ReadMIMEHeader\<close> on the lines of a head. The entries of one key are in the order of the lines.\<close>

definition parseMIMEHeader :: "string list \<Rightarrow> Header option" where
  "parseMIMEHeader ls = (if ls \<noteq> [] \<and> starts_space (hd ls) then None
     else Option.bind (unfold_lines ls) parse_entries)"

text \<open>\<open>Header.Get\<close>, \<open>Header.Values\<close> and \<open>Header.Del\<close> canonicalise the key they are called with.\<close>

definition header_key :: "string \<Rightarrow> string" where
  "header_key k = (case canonicalMIMEHeaderKey k of None \<Rightarrow> k | Some c \<Rightarrow> c)"

definition Header_Values :: "Header \<Rightarrow> string \<Rightarrow> string list" where
  "Header_Values h k = map snd (filter (\<lambda>(k', _). k' = header_key k) h)"

definition Header_Get :: "Header \<Rightarrow> string \<Rightarrow> string" where
  "Header_Get h k = (case Header_Values h k of [] \<Rightarrow> [] | v # _ \<Rightarrow> v)"

definition Header_Del :: "string \<Rightarrow> Header \<Rightarrow> Header" where
  "Header_Del k h = filter (\<lambda>(k', _). k' \<noteq> header_key k) h"

section \<open>Requests (net/http)\<close>

text \<open>The fields of \<open>url.URL\<close> and \<open>http.Request\<close> that the program reads.\<close>

record URL =
  u_Scheme :: string
  u_Host :: string
  u_Path :: string

record Request =
  Method :: string
  RequestURI :: string
  rq_URL :: URL
  rq_Header :: Header
  rq_Host :: string
  ContentLength :: int
  Chunked :: bool

definition ParseHTTPVersion :: "string \<Rightarrow> (nat \<times> nat) option" where
  "ParseHTTPVersion vers =
     (if hasPrefix vers ''HTTP/'' \<and> length vers = 8 \<and> is_digit (vers ! 5) \<and> vers ! 6 = CHR ''.'' \<and> is_digit (vers ! 7)
      then Some (digit_val (vers ! 5), digit_val (vers ! 7)) else None)"

text \<open>The first line: method, target with its URL, and whether the version is at least 1.1.\<close>

definition parseRequestLine :: "(string \<Rightarrow> URL option) \<Rightarrow> string \<Rightarrow> (string \<times> string \<times> URL \<times> bool) option" where
  "parseRequestLine parseURI line =
     (case cut_chr (CHR '' '') line of (meth, rest, ok1) \<Rightarrow> case cut_chr (CHR '' '') rest of (target, proto, ok2) \<Rightarrow>
      if \<not> ok1 \<or> \<not> ok2 \<or> meth = [] \<or> \<not> list_all validHeaderFieldByte meth then None
      else Option.bind (ParseHTTPVersion proto) (\<lambda>(major, minor).
        let justAuthority = (meth = ''CONNECT'' \<and> \<not> hasPrefix target ''/'') in
        Option.bind (parseURI (if justAuthority then ''http://'' @ target else target)) (\<lambda>u.
          Some (meth, target, (if justAuthority then u\<lparr>u_Scheme := []\<rparr> else u), 1 < major \<or> (major = 1 \<and> 1 \<le> minor)))))"

text \<open>
  How the body is delimited: the transfer encoding must be \<open>chunked\<close>, and is ignored before HTTP/1.1;
  several lengths must agree.
\<close>

definition transfer_chunked :: "bool \<Rightarrow> Header \<Rightarrow> bool go" where
  "transfer_chunked at_least_11 h = (case Header_Values h ''Transfer-Encoding'' of
     [] \<Rightarrow> Ret False
   | te # tes \<Rightarrow> if \<not> at_least_11 then Ret False
       else if tes \<noteq> [] \<or> map toLower te \<noteq> ''chunked'' then Err ErrMalformedRequest else Ret True)"

definition content_length :: "Header \<Rightarrow> nat option go" where
  "content_length h = (case map trim (Header_Values h ''Content-Length'') of
     [] \<Rightarrow> Ret None
   | c # cs \<Rightarrow> if \<not> list_all (\<lambda>x. x = c) cs then Err ErrMalformedRequest
       else (case parseUint (2 ^ 63 - 1) c of (n, None) \<Rightarrow> Ret (Some n) | (_, Some e) \<Rightarrow> Err ErrMalformedRequest))"

definition finish_request :: "string \<Rightarrow> string \<Rightarrow> URL \<Rightarrow> bool \<Rightarrow> Header \<Rightarrow> Request go" where
  "finish_request meth target u at_least_11 h =
     (if 1 < length (Header_Values h ''Host'') then Err ErrMalformedRequest
      else bind_go (transfer_chunked at_least_11 h) (\<lambda>chunked. bind_go (content_length h) (\<lambda>cl.
        let h1 = Header_Del ''Host'' (Header_Del ''Transfer-Encoding'' h) in
        Ret \<lparr>Method = meth, RequestURI = target, rq_URL = u, rq_Header = (if chunked then Header_Del ''Content-Length'' h1 else h1),
          rq_Host = (if u_Host u = [] then Header_Get h ''Host'' else u_Host u),
          ContentLength = (if chunked then -1 else case cl of None \<Rightarrow> 0 | Some n \<Rightarrow> int n), Chunked = chunked\<rparr>)))"

definition ReadRequest :: "(string \<Rightarrow> URL option) \<Rightarrow> (bufr, Request) proc" where
  "ReadRequest parseURI = bindP readString (\<lambda>l.
     bindP (liftP (of_option ErrMalformedRequest (parseRequestLine parseURI (chop_eol l)))) (\<lambda>(meth, target, u, v).
       bindP read_raw (\<lambda>ls.
         bindP (liftP (of_option ErrMalformedRequest (parseMIMEHeader ls))) (\<lambda>h.
           liftP (finish_request meth target u v h)))))"

text \<open>Reading the head of a message that arrives in any segmentation leaves exactly what follows it.\<close>

definition crlf_line :: "string \<Rightarrow> bytes" where
  "crlf_line s = bytes_of s @ [13, 10]"

definition line_ok :: "string \<Rightarrow> bool" where
  "line_ok s \<longleftrightarrow> CHR 0x0A \<notin> set s"

lemma bytes_of_mem: "byte_of (ord c) \<in> set (bytes_of s) \<longleftrightarrow> c \<in> set s"
proof -
  have "inj (\<lambda>c. byte_of (ord c))"
    by (rule injI) (metis bytes_of_inject bytes_of_def list.inject list.simps(9))
  from inj_image_mem_iff [OF this, of c "set s"] show ?thesis by (simp add: bytes_of_def)
qed

lemma line_ok_bytes: "line_ok s \<Longrightarrow> 10 \<notin> set (bytes_of s @ [13])"
  using bytes_of_mem [of "CHR 0x0A" s] by (simp add: line_ok_def ord_def byte_of_def)

lemma string_of_crlf: "string_of [13, 10] = [CHR 0x0D, CHR 0x0A]"
  by code_simp

lemma chop_eol_line [simp]: "chop_eol (crlf_line s) = s"
  by (simp add: chop_eol_def crlf_line_def string_of_crlf butlast_append)

lemma readString_crlf:
  assumes "b @ concat r = crlf_line s @ rest" "line_ok s" "[] \<notin> set r"
  shows "\<exists>b' r'. readString (b, r @ ts) = (Ret (crlf_line s), (b', r' @ ts)) \<and> b' @ concat r' = rest \<and> [] \<notin> set r'
     \<and> length (concat r') \<le> length (concat r)"
  using readString_line [of b r "bytes_of s @ [13]" rest] assms line_ok_bytes [OF assms(2)] by (simp add: crlf_line_def)

lemma read_raw_lines:
  assumes "b @ concat r = concat (map crlf_line ls) @ crlf_line [] @ rest" "\<forall>l \<in> set ls. line_ok l \<and> l \<noteq> []" "[] \<notin> set r"
  shows "\<exists>b' r'. read_raw (b, r @ ts) = (Ret ls, (b', r' @ ts)) \<and> b' @ concat r' = rest \<and> [] \<notin> set r'
     \<and> length (concat r') \<le> length (concat r)"
  using assms
proof (induction ls arbitrary: b r)
  case Nil
  then obtain b' r' where "readString (b, r @ ts) = (Ret (crlf_line []), (b', r' @ ts))" "b' @ concat r' = rest" "[] \<notin> set r'" "length (concat r') \<le> length (concat r)"
    using readString_crlf [of b r "[]" rest ts] by (auto simp: line_ok_def)
  then show ?case by (auto simp: read_raw.simps [of b])
next
  case (Cons l ls)
  then obtain b1 r1 where 1: "readString (b, r @ ts) = (Ret (crlf_line l), (b1, r1 @ ts))"
    "b1 @ concat r1 = concat (map crlf_line ls) @ crlf_line [] @ rest" "[] \<notin> set r1" "length (concat r1) \<le> length (concat r)"
    using readString_crlf [of b r l "concat (map crlf_line ls) @ crlf_line [] @ rest" ts] by auto
  then obtain b' r' where "read_raw (b1, r1 @ ts) = (Ret ls, (b', r' @ ts))" "b' @ concat r' = rest" "[] \<notin> set r'" "length (concat r') \<le> length (concat r1)"
    using Cons.IH [OF 1(2) _ 1(3)] Cons.prems(2) by auto
  then show ?case using 1(1,4) Cons.prems(2) by (auto simp: read_raw.simps [of b "r @ ts"])
qed

theorem ReadRequest_head:
  assumes "b @ concat r = crlf_line l @ concat (map crlf_line ls) @ crlf_line [] @ rest" "[] \<notin> set r"
    and "line_ok l" "\<forall>x \<in> set ls. line_ok x \<and> x \<noteq> []"
    and "parseRequestLine parseURI l = Some (meth, target, u, v)" "parseMIMEHeader ls = Some h"
  shows "\<exists>b' r'. ReadRequest parseURI (b, r @ ts) = (finish_request meth target u v h, (b', r' @ ts)) \<and> b' @ concat r' = rest \<and> [] \<notin> set r'
     \<and> length (concat r') \<le> length (concat r)"
proof -
  obtain b1 r1 where 1: "readString (b, r @ ts) = (Ret (crlf_line l), (b1, r1 @ ts))"
    "b1 @ concat r1 = concat (map crlf_line ls) @ crlf_line [] @ rest" "[] \<notin> set r1" "length (concat r1) \<le> length (concat r)"
    using readString_crlf [OF assms(1,3,2)] by blast
  obtain b' r' where "read_raw (b1, r1 @ ts) = (Ret ls, (b', r' @ ts))" "b' @ concat r' = rest" "[] \<notin> set r'" "length (concat r') \<le> length (concat r1)"
    using read_raw_lines [OF 1(2) assms(4) 1(3)] by blast
  then show ?thesis using 1(1,4) assms(5,6) by (auto simp: ReadRequest_def bindP_apply)
qed

text \<open>A first chunk that fits is buffered as a whole.\<close>

lemma readString_first: "x \<noteq> [] \<Longrightarrow> length x \<le> bufSize \<Longrightarrow> readString ([], x # ts) = readString (x, ts)"
proof -
  assume "x \<noteq> []" "length x \<le> bufSize"
  then have "fill (Suc i) ([], x # ts) = (Ret (), (x, ts))" for i by simp
  from this [of 99] have f: "fill 100 ([], x # ts) = (Ret (), (x, ts))" by (simp only: Suc_numeral semiring_norm)
  have "\<not> bufSize \<le> length ([] :: bytes)" by (simp add: bufSize_def)
  then show ?thesis by (subst readString.simps) (simp only: f index_chr.simps option.case if_False prod.case go.case)
qed

lemma ReadRequest_first: "x \<noteq> [] \<Longrightarrow> length x \<le> bufSize \<Longrightarrow> ReadRequest parseURI ([], x # ts) = ReadRequest parseURI (x, ts)"
  by (simp add: ReadRequest_def bindP_def readString_first)

section \<open>base64.StdEncoding\<close>

definition b64_chr :: "nat \<Rightarrow> char" where
  "b64_chr n = (if n < 26 then char_of (65 + n) else if n < 52 then char_of (71 + n) else if n < 62 then char_of (n - 4)
     else if n = 62 then CHR ''+'' else CHR ''/'')"

definition b64_val :: "char \<Rightarrow> nat option" where
  "b64_val c = (let n = ord c in
     if 65 \<le> n \<and> n \<le> 90 then Some (n - 65) else if 97 \<le> n \<and> n \<le> 122 then Some (n - 71)
     else if 48 \<le> n \<and> n \<le> 57 then Some (n + 4) else if c = CHR ''+'' then Some 62 else if c = CHR ''/'' then Some 63 else None)"

fun EncodeToString :: "bytes \<Rightarrow> string" where
  "EncodeToString [] = []"
| "EncodeToString [a] = [b64_chr (unat a div 4), b64_chr (unat a mod 4 * 16), CHR ''='', CHR ''='']"
| "EncodeToString [a, b] = [b64_chr (unat a div 4), b64_chr (unat a mod 4 * 16 + unat b div 16), b64_chr (unat b mod 16 * 4), CHR ''='']"
| "EncodeToString (a # b # c # bs) = b64_chr (unat a div 4) # b64_chr (unat a mod 4 * 16 + unat b div 16)
     # b64_chr (unat b mod 16 * 4 + unat c div 64) # b64_chr (unat c mod 64) # EncodeToString bs"

text \<open>Groups of four characters; only the last may be padded. Line ends inside the text are skipped.\<close>

fun decode_quantums :: "string \<Rightarrow> bytes option" where
  "decode_quantums [] = Some []"
| "decode_quantums (w # x # y # z # cs) = (case (b64_val w, b64_val x) of
     (Some i, Some j) \<Rightarrow>
       if y = CHR ''='' then (if z = CHR ''='' \<and> cs = [] then Some [byte_of (i * 4 + j div 16)] else None)
       else (case b64_val y of
           None \<Rightarrow> None
         | Some k \<Rightarrow>
             if z = CHR ''='' then (if cs = [] then Some [byte_of (i * 4 + j div 16), byte_of (j mod 16 * 16 + k div 4)] else None)
             else (case b64_val z of
                 None \<Rightarrow> None
               | Some l \<Rightarrow> map_option (\<lambda>bs. byte_of (i * 4 + j div 16) # byte_of (j mod 16 * 16 + k div 4) # byte_of (k mod 4 * 64 + l) # bs)
                   (decode_quantums cs)))
   | _ \<Rightarrow> None)"
| "decode_quantums _ = None"

definition DecodeString :: "string \<Rightarrow> bytes go" where
  "DecodeString s = of_option ErrBase64 (decode_quantums (filter (\<lambda>c. c \<noteq> CHR 0x0D \<and> c \<noteq> CHR 0x0A) s))"

lemma b64_chr_val [simp]: "n < 64 \<Longrightarrow> b64_val (b64_chr n) = Some n"
proof -
  assume n: "n < 64"
  have o: "ord (CHR ''+'') = 43" "ord (CHR ''/'') = 47" by (simp_all add: ord_def)
  consider "n < 26" | "26 \<le> n" "n < 52" | "52 \<le> n" "n < 62" | "n = 62" | "n = 63" using n by linarith
  then show ?thesis by cases (auto simp: b64_chr_def b64_val_def Let_def o)
qed

lemma b64_chr_neq [simp]:
  "n < 64 \<Longrightarrow> b64_chr n \<noteq> CHR ''=''" "n < 64 \<Longrightarrow> b64_chr n \<noteq> CHR 0x0D" "n < 64 \<Longrightarrow> b64_chr n \<noteq> CHR 0x0A"
proof -
  have v: "b64_val (CHR ''='') = None" "b64_val (CHR 0x0D) = None" "b64_val (CHR 0x0A) = None" by code_simp+
  show "n < 64 \<Longrightarrow> b64_chr n \<noteq> CHR ''=''" "n < 64 \<Longrightarrow> b64_chr n \<noteq> CHR 0x0D" "n < 64 \<Longrightarrow> b64_chr n \<noteq> CHR 0x0A"
    using b64_chr_val [of n] v by (metis option.distinct(1))+
qed

lemma pack_unpack:
  fixes y z :: nat
  shows "z < k \<Longrightarrow> (y * k + z) div k = y" "z < k \<Longrightarrow> (y * k + z) mod k = z" "0 < k \<Longrightarrow> y * k div k = y" "(y * k) mod k = 0"
  by simp_all

lemma byte_parts:
  fixes b :: byte
  shows "unat b div 4 < 64" "unat b div 16 < 16" "unat b div 64 < 4"
  by (rule less_mult_imp_div_less, use unat_byte_less [of b] in simp)+

lemma sextets:
  fixes a b c :: byte
  shows "unat a div 4 < 64" "unat a mod 4 * 16 + unat b div 16 < 64" "unat b mod 16 * 4 + unat c div 64 < 64"
    "unat a mod 4 * 16 < 64" "unat b mod 16 * 4 < 64"
proof -
  have "unat a mod 4 < 4" "unat b mod 16 < 16" by simp_all
  then show "unat a div 4 < 64" "unat a mod 4 * 16 + unat b div 16 < 64" "unat b mod 16 * 4 + unat c div 64 < 64"
    "unat a mod 4 * 16 < 64" "unat b mod 16 * 4 < 64"
    using byte_parts(1) [of a] byte_parts(2) [of b] byte_parts(3) [of c] by linarith+
qed

lemma octets:
  fixes a b c :: byte
  shows "unat a div 4 * 4 + (unat a mod 4 * 16 + unat b div 16) div 16 = unat a"
    and "(unat a mod 4 * 16 + unat b div 16) mod 16 * 16 + (unat b mod 16 * 4 + unat c div 64) div 4 = unat b"
    and "(unat b mod 16 * 4 + unat c div 64) mod 4 * 64 + unat c mod 64 = unat c"
    and "unat a div 4 * 4 + (unat a mod 4 * 16) div 16 = unat a"
    and "(unat a mod 4 * 16 + unat b div 16) mod 16 * 16 + (unat b mod 16 * 4) div 4 = unat b"
  by (simp_all only: pack_unpack byte_parts div_mult_mod_eq zero_less_numeral)

theorem base64_round_trip: "DecodeString (EncodeToString bs) = Ret bs"
proof -
  have clean: "filter (\<lambda>c. c \<noteq> CHR 0x0D \<and> c \<noteq> CHR 0x0A) (EncodeToString bs) = EncodeToString bs"
    by (induction bs rule: EncodeToString.induct) (simp_all add: sextets)
  have "decode_quantums (EncodeToString bs) = Some bs"
    by (induction bs rule: EncodeToString.induct)
      (simp_all only: EncodeToString.simps decode_quantums.simps sextets b64_chr_val b64_chr_neq option.case prod.case if_False if_True octets byte_of_unat
        list.map option.map simp_thms HOL.refl)
  then show ?thesis by (simp add: DecodeString_def clean)
qed

section \<open>Heads that parse\<close>

text \<open>A key and a value that survive printing and parsing.\<close>

definition text_ok :: "string \<Rightarrow> bool" where
  "text_ok v \<longleftrightarrow> list_all validHeaderValueByte v \<and> (v \<noteq> [] \<longrightarrow> \<not> is_space (hd v) \<and> \<not> is_space (last v))"

definition entry_ok :: "string \<times> string \<Rightarrow> bool" where
  "entry_ok e \<longleftrightarrow> fst e \<noteq> [] \<and> list_all validHeaderFieldByte (fst e) \<and> text_ok (snd e)"

definition entry_line :: "string \<times> string \<Rightarrow> string" where
  "entry_line e = fst e @ '': '' @ snd e"

lemma field_byte_plain: "validHeaderFieldByte c \<Longrightarrow> \<not> is_space c \<and> c \<noteq> CHR '':'' \<and> c \<noteq> CHR 0x0A \<and> c \<noteq> CHR '' ''"
proof -
  have "\<not> validHeaderFieldByte (CHR '' '')" "\<not> validHeaderFieldByte (CHR 0x09)" "\<not> validHeaderFieldByte (CHR '':'')"
    "\<not> validHeaderFieldByte (CHR 0x0A)" by code_simp+
  then show "validHeaderFieldByte c \<Longrightarrow> ?thesis" by (auto simp: is_space_def)
qed

lemma value_byte_plain: "validHeaderValueByte c \<Longrightarrow> c \<noteq> CHR 0x0A"
proof -
  have "\<not> validHeaderValueByte (CHR 0x0A)" by code_simp
  then show "validHeaderValueByte c \<Longrightarrow> ?thesis" by auto
qed

lemma text_ok_line: "text_ok v \<Longrightarrow> line_ok v"
  using value_byte_plain by (auto simp: text_ok_def line_ok_def list_all_iff)

lemma line_ok_append [simp]: "line_ok (s @ t) \<longleftrightarrow> line_ok s \<and> line_ok t"
  by (auto simp: line_ok_def)

lemma entry_line_ok: "entry_ok e \<Longrightarrow> line_ok (entry_line e) \<and> entry_line e \<noteq> [] \<and> \<not> starts_space (entry_line e) \<and> CHR '':'' \<in> set (entry_line e)"
  using field_byte_plain text_ok_line [of "snd e"] by (cases "fst e") (auto simp: entry_ok_def entry_line_def line_ok_def starts_space_def list_all_iff)

lemma trim_left_id: "s \<noteq> [] \<Longrightarrow> \<not> is_space (hd s) \<Longrightarrow> trim_left s = s"
  by (cases s) (simp_all add: trim_left_def)

lemma trim_left_space: "trim_left (CHR '' '' # s) = trim_left s"
  by (simp add: trim_left_def is_space_def)

lemma trim_entry_line:
  assumes "entry_ok e"
  shows "trim (entry_line e) = fst e @ CHR '':'' # (if snd e = [] then [] else CHR '' '' # snd e)"
proof -
  have k: "fst e \<noteq> []" "\<not> is_space (hd (fst e))" using assms field_byte_plain by (cases "fst e"; auto simp: entry_ok_def)+
  then have l: "trim_left (entry_line e) = entry_line e" by (intro trim_left_id) (auto simp: entry_line_def)
  have c: "\<not> is_space (CHR '':'')" by (simp add: is_space_def)
  show ?thesis
  proof (cases "snd e = []")
    case True
    then show ?thesis using c unfolding trim_def l by (simp add: entry_line_def trim_left_def is_space_def)
  next
    case False
    then have "\<not> is_space (hd (rev (entry_line e)))" using assms by (simp add: entry_line_def hd_rev hd_append entry_ok_def text_ok_def)
    then have "trim_left (rev (entry_line e)) = rev (entry_line e)" by (intro trim_left_id) (simp_all add: entry_line_def)
    then show ?thesis unfolding trim_def l using False by (simp add: entry_line_def)
  qed
qed

lemma unfold_lines_plain:
  "\<forall>l \<in> set ls. CHR '':'' \<in> set l \<and> \<not> starts_space l \<Longrightarrow> unfold_lines ls = Some (map trim ls)"
proof (induction ls)
  case (Cons l ls)
  then have "dropWhile starts_space ls = ls" "takeWhile starts_space ls = []" by (cases ls; simp)+
  then show ?case using Cons by simp
qed simp

lemma canonical_entry: "entry_ok e \<Longrightarrow> canonicalMIMEHeaderKey (fst e) = Some (canon True (fst e))"
  using field_byte_plain by (auto simp: canonicalMIMEHeaderKey_def entry_ok_def list_all_iff)

lemma canon_Nil [simp]: "canon up k = [] \<longleftrightarrow> k = []"
  by (cases k) (simp_all add: Let_def)

lemma parse_entries_print:
  "\<forall>e \<in> set es. entry_ok e \<Longrightarrow> parse_entries (map (\<lambda>e. trim (entry_line e)) es) = Some (map (\<lambda>(k, v). (canon True k, v)) es)"
proof (induction es)
  case (Cons e es)
  then have e: "entry_ok e" by simp
  then have n: "CHR '':'' \<notin> set (fst e)" using field_byte_plain by (auto simp: entry_ok_def list_all_iff)
  have v: "list_all validHeaderValueByte (if snd e = [] then [] else CHR '' '' # snd e)"
    "trim_left (if snd e = [] then [] else CHR '' '' # snd e) = snd e"
    using e by (auto simp: entry_ok_def text_ok_def trim_left_space trim_left_id validHeaderValueByte_def ord_def trim_left_def [of "[]"])
  show ?case unfolding list.map parse_entries.simps trim_entry_line [OF e] cut_chr_app [OF n]
    using Cons e v canonical_entry [OF e] by (auto simp: entry_ok_def split: prod.splits)
qed simp

theorem header_round_trip:
  assumes "\<forall>e \<in> set es. entry_ok e"
  shows "parseMIMEHeader (map entry_line es) = Some (map (\<lambda>(k, v). (canon True k, v)) es)"
proof -
  have "unfold_lines (map entry_line es) = Some (map trim (map entry_line es))"
    using assms entry_line_ok by (intro unfold_lines_plain) auto
  moreover have "es \<noteq> [] \<Longrightarrow> \<not> starts_space (hd (map entry_line es))" using assms entry_line_ok by (cases es) auto
  ultimately show ?thesis using parse_entries_print [OF assms] by (auto simp: parseMIMEHeader_def o_def)
qed

lemma b64_chr_plain: "n < 64 \<Longrightarrow> validHeaderValueByte (b64_chr n) \<and> \<not> is_space (b64_chr n)"
proof -
  assume n: "n < 64"
  have "b64_val (CHR '' '') = None" "b64_val (CHR 0x09) = None" by code_simp+
  then have "\<not> is_space (b64_chr n)" using b64_chr_val [OF n] by (auto simp: is_space_def)
  moreover have "validHeaderValueByte c" if "b64_val c = Some n" for c
  proof -
    have "ord (CHR ''+'') = 43" "ord (CHR ''/'') = 47" by (simp_all add: ord_def)
    then show ?thesis using that by (auto simp: b64_val_def Let_def validHeaderValueByte_def split: if_splits)
  qed
  ultimately show ?thesis using b64_chr_val [OF n] by blast
qed

lemma EncodeToString_plain: "c \<in> set (EncodeToString bs) \<Longrightarrow> validHeaderValueByte c \<and> \<not> is_space c"
proof -
  have "validHeaderValueByte (CHR ''='') \<and> \<not> is_space (CHR ''='')" by code_simp
  then show "c \<in> set (EncodeToString bs) \<Longrightarrow> ?thesis"
    by (induction bs rule: EncodeToString.induct) (use b64_chr_plain sextets in auto)
qed

lemma EncodeToString_text: "text_ok (EncodeToString bs)"
  unfolding text_ok_def list_all_iff using EncodeToString_plain hd_in_set last_in_set by blast

end
