(* ===== verification/Obfs_Conn.thy ===== *)
theory Obfs_Conn
  imports Go_Http Interfaces
begin

text \<open>
  \<open>connection/obfs.go\<close>: a connection whose two ends exchange the heads of an HTTP websocket upgrade before the
  data. The client sends its head together with its first data, the server answers with its own head, again
  together with its first data when the request came with data, and each end drops the head of the other.
\<close>

section \<open>Model\<close>

text \<open>
  What the code takes from outside: \<open>url.ParseRequestURI\<close>, SHA-1, the formatted time, 16 random bytes, the host
  of a request as \<open>http.Request.Write\<close> cleans it, and the free space of a \<open>bytes.Buffer\<close> of some length.
\<close>

record obfs_env =
  parseURI :: "string \<Rightarrow> URL option"
  sha1 :: "bytes \<Rightarrow> bytes"
  now_text :: string
  rand16 :: "bytes go"
  cleanHost :: "string \<Rightarrow> string go"
  grow :: "nat \<Rightarrow> nat"

record ObfsConn =
  ob_Conn :: conn
  ob_host :: string
  rbuf :: bytes
  wbuf :: bytes
  isServer :: bool
  headerDrained :: bool
  handshaked :: bool

definition NewObfsConn :: "conn \<Rightarrow> string \<Rightarrow> bool \<Rightarrow> ObfsConn" where
  "NewObfsConn c h srv = \<lparr>ob_Conn = c, ob_host = h, rbuf = [], wbuf = [], isServer = srv, headerDrained = False, handshaked = False\<rparr>"

definition keyGUID :: string where
  "keyGUID = ''258EAFA5-E914-47DA-95CA-C5AB0DC85B11''"

definition computeAcceptKey :: "obfs_env \<Rightarrow> string \<Rightarrow> string" where
  "computeAcceptKey E challengeKey = EncodeToString (sha1 E (bytes_of challengeKey @ bytes_of keyGUID))"

definition generateChallengeKey :: "obfs_env \<Rightarrow> string go" where
  "generateChallengeKey E = bind_go (rand16 E) (\<lambda>p. Ret (EncodeToString p))"

text \<open>\<open>io.Copy(&c.rbuf, r.Body)\<close> for a body of \<open>n\<close> bytes.\<close>

function copy_body :: "(nat \<Rightarrow> nat) \<Rightarrow> nat \<Rightarrow> bytes \<Rightarrow> bufr \<Rightarrow> unit go \<times> bytes \<times> bufr" where
  "copy_body gr n acc s = (if n = 0 then (Ret (), acc, s)
     else (case bufio_Read (min n (max 512 (gr (length acc)))) s of
         (Ret x, s') \<Rightarrow> copy_body gr (n - length x) (acc @ x) s'
       | (Err e, s') \<Rightarrow> (Err (if e = EOF then ErrUnexpectedEOF else e), acc, s')
       | (Panic, s') \<Rightarrow> (Panic, acc, s')))"
  by pat_completeness auto
termination
proof (relation "measures [\<lambda>(gr, n, acc, s). n, \<lambda>(gr, n, acc, s). length (snd s)]")
  fix gr :: "nat \<Rightarrow> nat" and n and acc :: bytes and s s' and y and x :: bytes
  assume "n \<noteq> 0" "(y, s') = bufio_Read (min n (max 512 (gr (length acc)))) s" "y = Ret x"
  then show "((gr, n - length x, acc @ x, s'), gr, n, acc, s) \<in> measures [\<lambda>(gr, n, acc, s). n, \<lambda>(gr, n, acc, s). length (snd s)]"
    using bufio_Read_length [of "min n (max 512 (gr (length acc)))" s x s'] by (cases x) auto
qed simp

declare copy_body.simps [simp del]

definition upgrade_lines :: "obfs_env \<Rightarrow> string \<Rightarrow> string list" where
  "upgrade_lines E key = [''HTTP/1.1 101 Switching Protocols'', ''Server: nginx/1.10.0'', ''Date: '' @ now_text E,
     ''Connection: Upgrade'', ''Upgrade: websocket'', ''Sec-WebSocket-Accept: '' @ computeAcceptKey E key]"

definition unavailable_lines :: "obfs_env \<Rightarrow> string list" where
  "unavailable_lines E = [''HTTP/1.1 503 Service Unavailable'', ''Content-Length: 0'', ''Date: '' @ now_text E]"

definition head_bytes :: "string list \<Rightarrow> bytes" where
  "head_bytes ls = concat (map crlf_line ls) @ crlf_line []"

text \<open>The body of the request, or what the reader has buffered behind its head.\<close>

definition request_data :: "obfs_env \<Rightarrow> Request \<Rightarrow> bufr \<Rightarrow> bytes \<Rightarrow> unit go \<times> bytes \<times> reader" where
  "request_data E r s acc = (if 0 < ContentLength r
     then (case copy_body (grow E) (nat (ContentLength r)) acc s of (e, acc', (_, r')) \<Rightarrow> (e, acc', r'))
     else (Ret (), acc @ fst s, snd s))"

definition good_upgrade :: "ObfsConn \<Rightarrow> Request \<Rightarrow> bool" where
  "good_upgrade c r \<longleftrightarrow> Method r = ''GET'' \<and> Header_Get (rq_Header r) ''Upgrade'' = ''websocket''
     \<and> (if rq_Host r = [] then u_Host (rq_URL r) else rq_Host r) = ob_host c"

definition on_Conn :: "(conn, 'a) proc \<Rightarrow> (ObfsConn, 'a) proc" where
  "on_Conn p c = (case p (ob_Conn c) of (x, w) \<Rightarrow> (x, c\<lparr>ob_Conn := w\<rparr>))"

definition serverHandshake :: "obfs_env \<Rightarrow> (ObfsConn, unit) proc" where
  "serverHandshake E c = (case ReadRequest (parseURI E) ([], inp (ob_Conn c)) of
     (Err e, s) \<Rightarrow> (Err e, c\<lparr>ob_Conn := (ob_Conn c)\<lparr>inp := snd s\<rparr>\<rparr>)
   | (Panic, s) \<Rightarrow> (Panic, c)
   | (Ret r, s) \<Rightarrow> (case request_data E r s (rbuf c) of (x, d, rd) \<Rightarrow>
       (let c1 = c\<lparr>ob_Conn := (ob_Conn c)\<lparr>inp := rd\<rparr>, rbuf := d\<rparr>;
            resp = head_bytes (upgrade_lines E (Header_Get (rq_Header r) ''Sec-WebSocket-Key'')) in
        if x \<noteq> Ret () then (x, c1)
        else if \<not> good_upgrade c r
          then bindP (on_Conn (write_conn_ign (head_bytes (unavailable_lines E)))) (\<lambda>_. errP ErrBadRequest) c1
        else if d \<noteq> [] then (Ret (), c1\<lparr>wbuf := resp\<rparr>)
        else on_Conn (write_conn resp) c1)))"

text \<open>The head that \<open>req.Write\<close> produces: the host, the user agent, then the other keys in order.\<close>

definition request_lines :: "string \<Rightarrow> string \<Rightarrow> string list" where
  "request_lines h key = [''GET / HTTP/1.1'', ''Host: '' @ h,
     ''User-Agent: Mozilla/5.0 (Macintosh; Intel Mac OS X 10_15_7) AppleWebKit/537.36 (KHTML, like Gecko) Chrome/106.0.0.0 Safari/537.36'',
     ''Connection: Upgrade'', ''Sec-Websocket-Key: '' @ key, ''Upgrade: websocket'']"

text \<open>The error of \<open>generateChallengeKey\<close> is dropped.\<close>

definition challenge_key :: "obfs_env \<Rightarrow> string" where
  "challenge_key E = (case generateChallengeKey E of Ret k \<Rightarrow> k | _ \<Rightarrow> [])"

definition clientHandshake :: "obfs_env \<Rightarrow> (ObfsConn, unit) proc" where
  "clientHandshake E c =
     (case cleanHost E (ob_host c) of
        Ret h \<Rightarrow> (Ret (), c\<lparr>wbuf := wbuf c @ head_bytes (request_lines h (challenge_key E))\<rparr>)
      | Err e \<Rightarrow> (Err e, c) | Panic \<Rightarrow> (Panic, c))"

definition Handshake :: "obfs_env \<Rightarrow> (ObfsConn, unit) proc" where
  "Handshake E c = (if handshaked c then (Ret (), c)
     else bindP (if \<not> isServer c then clientHandshake E else serverHandshake E) (\<lambda>_ c'. (Ret (), c'\<lparr>handshaked := True\<rparr>)) c)"

text \<open>The loop of \<open>drainHeader\<close>: lines up to the empty one.\<close>

function drain_loop :: "(bufr, unit) proc" where
  "drain_loop (b, r) = (case readString (b, r) of
     (Ret l, s) \<Rightarrow> if l = [13, 10] then (Ret (), s) else drain_loop s
   | (Err e, s) \<Rightarrow> (Err e, s)
   | (Panic, s) \<Rightarrow> (Panic, s))"
  by pat_completeness auto
termination
  by (relation "measure (\<lambda>(b, r). length b + length (concat r))") (auto dest: readString_shrinks [OF sym])

declare drain_loop.simps [simp del]

definition drainHeader :: "(ObfsConn, unit) proc" where
  "drainHeader c = (if headerDrained c then (Ret (), c)
     else (case drain_loop ([], inp (ob_Conn c)) of (x, (b, r)) \<Rightarrow>
       (let c1 = c\<lparr>headerDrained := True, ob_Conn := (ob_Conn c)\<lparr>inp := r\<rparr>\<rparr> in
        if x = Ret () then (Ret (), c1\<lparr>rbuf := rbuf c @ b\<rparr>) else (x, c1))))"

definition ObfsConn_Read :: "obfs_env \<Rightarrow> nat \<Rightarrow> (ObfsConn, bytes) proc" where
  "ObfsConn_Read E n = bindP (Handshake E) (\<lambda>_ c. bindP (if \<not> isServer c then drainHeader else retP ()) (\<lambda>_ c1.
     if rbuf c1 \<noteq> [] then (Ret (take n (rbuf c1)), c1\<lparr>rbuf := drop n (rbuf c1)\<rparr>) else on_Conn (read_conn n) c1) c)"

definition ObfsConn_Write :: "obfs_env \<Rightarrow> bytes \<Rightarrow> (ObfsConn, unit) proc" where
  "ObfsConn_Write E b = bindP (Handshake E) (\<lambda>_ c.
     if wbuf c \<noteq> [] then (case write_conn (wbuf c @ b) (ob_Conn c) of
         (Ret _, w) \<Rightarrow> (Ret (), c\<lparr>ob_Conn := w, wbuf := []\<rparr>)
       | (Err e, w) \<Rightarrow> (Err e, c\<lparr>ob_Conn := w, wbuf := wbuf c @ b\<rparr>)
       | (Panic, w) \<Rightarrow> (Panic, c))
     else on_Conn (write_conn b) c)"

section \<open>The two heads\<close>

text \<open>The documented behaviour of the libraries that the handshake relies on, for a host name.\<close>

definition env_ok :: "obfs_env \<Rightarrow> string \<Rightarrow> bool" where
  "env_ok E h \<longleftrightarrow> cleanHost E h = Ret h \<and> text_ok h \<and> line_ok (now_text E)
     \<and> (case parseURI E ''/'' of None \<Rightarrow> False | Some u \<Rightarrow> u_Host u = [])"

definition request_entries :: "string \<Rightarrow> string \<Rightarrow> Header" where
  "request_entries h key = [(''Host'', h),
     (''User-Agent'', ''Mozilla/5.0 (Macintosh; Intel Mac OS X 10_15_7) AppleWebKit/537.36 (KHTML, like Gecko) Chrome/106.0.0.0 Safari/537.36''),
     (''Connection'', ''Upgrade''), (''Sec-Websocket-Key'', key), (''Upgrade'', ''websocket'')]"

lemma request_lines_entries: "request_lines h key = ''GET / HTTP/1.1'' # map entry_line (request_entries h key)"
  by (simp add: request_lines_def request_entries_def entry_line_def)

lemma entry_ok_consts:
  "entry_ok (''User-Agent'', ''Mozilla/5.0 (Macintosh; Intel Mac OS X 10_15_7) AppleWebKit/537.36 (KHTML, like Gecko) Chrome/106.0.0.0 Safari/537.36'')"
  "entry_ok (''Connection'', ''Upgrade'')" "entry_ok (''Upgrade'', ''websocket'')"
  "list_all validHeaderFieldByte ''Host''" "list_all validHeaderFieldByte ''Sec-Websocket-Key''"
  by code_simp+

lemma canon_consts:
  "canon True ''Host'' = ''Host''" "canon True ''User-Agent'' = ''User-Agent''" "canon True ''Connection'' = ''Connection''"
  "canon True ''Sec-Websocket-Key'' = ''Sec-Websocket-Key''" "canon True ''Upgrade'' = ''Upgrade''"
  "header_key ''Host'' = ''Host''" "header_key ''Transfer-Encoding'' = ''Transfer-Encoding''"
  "header_key ''Content-Length'' = ''Content-Length''" "header_key ''Upgrade'' = ''Upgrade''"
  "header_key ''Sec-WebSocket-Key'' = ''Sec-Websocket-Key''"
  by code_simp+

lemma request_entries_ok: "text_ok h \<Longrightarrow> text_ok key \<Longrightarrow> \<forall>e \<in> set (request_entries h key). entry_ok e"
  using entry_ok_consts by (auto simp: request_entries_def entry_ok_def)

lemma request_header: "text_ok h \<Longrightarrow> text_ok key \<Longrightarrow> parseMIMEHeader (map entry_line (request_entries h key)) = Some (request_entries h key)"
proof -
  assume "text_ok h" "text_ok key"
  then have "parseMIMEHeader (map entry_line (request_entries h key)) = Some (map (\<lambda>(k, v). (canon True k, v)) (request_entries h key))"
    by (intro header_round_trip request_entries_ok)
  moreover have "map (\<lambda>(k, v). (canon True k, v)) (request_entries h key) = request_entries h key"
    by (simp only: request_entries_def list.map prod.case canon_consts)
  ultimately show ?thesis by simp
qed

lemma request_line: "parseURI E ''/'' = Some u \<Longrightarrow> parseRequestLine (parseURI E) ''GET / HTTP/1.1'' = Some (''GET'', ''/'', u, True)"
proof -
  have c: "cut_chr (CHR '' '') ''GET / HTTP/1.1'' = (''GET'', ''/ HTTP/1.1'', True)" "cut_chr (CHR '' '') ''/ HTTP/1.1'' = (''/'', ''HTTP/1.1'', True)"
    "ParseHTTPVersion ''HTTP/1.1'' = Some (1, 1)" "list_all validHeaderFieldByte ''GET''" by code_simp+
  show "parseURI E ''/'' = Some u \<Longrightarrow> ?thesis" by (simp add: parseRequestLine_def c del: list.pred_inject)
qed

lemma finish_upgrade:
  assumes "u_Host u = []"
  obtains r where "finish_request ''GET'' ''/'' u True (request_entries h key) = Ret r" "Method r = ''GET''" "rq_URL r = u"
    "rq_Host r = h" "ContentLength r = 0" "Header_Get (rq_Header r) ''Upgrade'' = ''websocket''" "Header_Get (rq_Header r) ''Sec-WebSocket-Key'' = key"
  using assms
  by (simp add: finish_request_def transfer_chunked_def content_length_def Header_Values_def Header_Get_def Header_Del_def
      canon_consts request_entries_def Let_def)

lemma request_lines_ok: "text_ok h \<Longrightarrow> text_ok key \<Longrightarrow> \<forall>x \<in> set (map entry_line (request_entries h key)). line_ok x \<and> x \<noteq> []"
  using request_entries_ok entry_line_ok by (simp del: split_paired_All)

text \<open>The head of a client is read, however it is cut, and what follows it stays.\<close>

lemma request_received:
  assumes "env_ok E h" "text_ok key" "concat rs = head_bytes (request_lines h key) @ p" "[] \<notin> set rs"
  obtains u r b rd where "u_Host u = []" "ReadRequest (parseURI E) ([], rs) = (Ret r, (b, rd))" "b @ concat rd = p" "[] \<notin> set rd"
    "Method r = ''GET''" "rq_URL r = u" "rq_Host r = h" "ContentLength r = 0"
    "Header_Get (rq_Header r) ''Upgrade'' = ''websocket''" "Header_Get (rq_Header r) ''Sec-WebSocket-Key'' = key"
proof -
  obtain u where u: "parseURI E ''/'' = Some u" "u_Host u = []" "text_ok h"
    using assms(1) by (auto simp: env_ok_def split: option.splits)
  obtain r where r: "finish_request ''GET'' ''/'' u True (request_entries h key) = Ret r" "Method r = ''GET''" "rq_URL r = u"
    "rq_Host r = h" "ContentLength r = 0" "Header_Get (rq_Header r) ''Upgrade'' = ''websocket''"
    "Header_Get (rq_Header r) ''Sec-WebSocket-Key'' = key"
    using finish_upgrade [OF u(2)] by metis
  have i: "[] @ concat rs = crlf_line ''GET / HTTP/1.1'' @ concat (map crlf_line (map entry_line (request_entries h key))) @ crlf_line [] @ p"
    unfolding assms(3) by (simp add: head_bytes_def request_lines_entries)
  have g: "line_ok ''GET / HTTP/1.1''" by code_simp
  obtain b rd where "ReadRequest (parseURI E) ([], rs) = (Ret r, (b, rd))" "b @ concat rd = p" "[] \<notin> set rd"
    using ReadRequest_head [OF i assms(4) g request_lines_ok [OF u(3) assms(2)] request_line [OF u(1)] request_header [OF u(3) assms(2)], of "[]"]
    unfolding r(1) by auto
  then show thesis using that u(2) r by blast
qed

lemma serverHandshake_ok:
  assumes "env_ok E (ob_host c)" "text_ok key" "concat (inp (ob_Conn c)) = head_bytes (request_lines (ob_host c) key) @ p"
    and "[] \<notin> set (inp (ob_Conn c))" "rbuf c = []" "wbuf c = []" "\<not> wfail (ob_Conn c)" "out (ob_Conn c) = []"
  shows "\<exists>c'. serverHandshake E c = (Ret (), c') \<and> rbuf c' @ concat (inp (ob_Conn c')) = p \<and> [] \<notin> set (inp (ob_Conn c'))
     \<and> out (ob_Conn c') @ wbuf c' = head_bytes (upgrade_lines E key) \<and> \<not> wfail (ob_Conn c')
     \<and> ob_host c' = ob_host c \<and> isServer c' = isServer c \<and> headerDrained c' = headerDrained c"
proof -
  obtain u r b rd where r: "u_Host u = []" "ReadRequest (parseURI E) ([], inp (ob_Conn c)) = (Ret r, (b, rd))" "b @ concat rd = p" "[] \<notin> set rd"
    "Method r = ''GET''" "rq_URL r = u" "rq_Host r = ob_host c" "ContentLength r = 0"
    "Header_Get (rq_Header r) ''Upgrade'' = ''websocket''" "Header_Get (rq_Header r) ''Sec-WebSocket-Key'' = key"
    using request_received [OF assms(1-4)] by metis
  have "good_upgrade c r" using r by (simp add: good_upgrade_def)
  then show ?thesis using r assms(5-8)
    by (cases "b = []") (simp_all add: serverHandshake_def request_data_def on_Conn_def Let_def)
qed

lemma drain_loop_head:
  assumes "b @ concat r = head_bytes ls @ p" "\<forall>l \<in> set ls. line_ok l \<and> l \<noteq> []" "[] \<notin> set r"
  shows "\<exists>b' r'. drain_loop (b, r) = (Ret (), (b', r')) \<and> b' @ concat r' = p \<and> [] \<notin> set r'"
  using assms
proof (induction ls arbitrary: b r)
  case Nil
  then obtain b' r' where "readString (b, r) = (Ret (crlf_line []), (b', r'))" "b' @ concat r' = p" "[] \<notin> set r'"
    using readString_crlf [of b r "[]" p "[]"] by (auto simp: head_bytes_def line_ok_def)
  then show ?case by (simp add: drain_loop.simps crlf_line_def)
next
  case (Cons l ls)
  then obtain b1 r1 where 1: "readString (b, r) = (Ret (crlf_line l), (b1, r1))" "b1 @ concat r1 = head_bytes ls @ p" "[] \<notin> set r1"
    using readString_crlf [of b r l "head_bytes ls @ p" "[]"] by (auto simp: head_bytes_def)
  moreover have "crlf_line l \<noteq> [13, 10]" using Cons.prems(2) by (cases l) (simp_all add: crlf_line_def bytes_of_def)
  ultimately show ?case using Cons.IH [OF 1(2) _ 1(3)] Cons.prems(2) by (simp add: drain_loop.simps [of b r])
qed

lemma upgrade_lines_ok: "line_ok (now_text E) \<Longrightarrow> \<forall>l \<in> set (upgrade_lines E key). line_ok l \<and> l \<noteq> []"
proof -
  have "line_ok ''HTTP/1.1 101 Switching Protocols''" "line_ok ''Server: nginx/1.10.0''" "line_ok ''Date: ''" "line_ok ''Connection: Upgrade''"
    "line_ok ''Upgrade: websocket''" "line_ok ''Sec-WebSocket-Accept: ''" by code_simp+
  then show "line_ok (now_text E) \<Longrightarrow> ?thesis"
    using text_ok_line [OF EncodeToString_text] by (simp add: upgrade_lines_def computeAcceptKey_def del: append.simps)
qed

section \<open>Both directions of a connection\<close>

text \<open>
  \<open>obfs_state E x c p\<close>: the connection \<open>c\<close> has sent, or holds in its buffer, its head and then the data \<open>x\<close>, and the
  data \<open>p\<close> is still to be read from it.
\<close>

definition own_head :: "obfs_env \<Rightarrow> ObfsConn \<Rightarrow> string \<Rightarrow> bytes" where
  "own_head E c key = head_bytes (if isServer c then upgrade_lines E key else request_lines (ob_host c) key)"

definition peer_head :: "ObfsConn \<Rightarrow> string list \<Rightarrow> bool" where
  "peer_head c ls \<longleftrightarrow> (if isServer c then (\<exists>key. text_ok key \<and> ls = request_lines (ob_host c) key)
     else (\<forall>l \<in> set ls. line_ok l \<and> l \<noteq> []))"

definition head_read :: "ObfsConn \<Rightarrow> bool" where
  "head_read c \<longleftrightarrow> (if isServer c then handshaked c else headerDrained c)"

definition obfs_state :: "obfs_env \<Rightarrow> bytes \<Rightarrow> ObfsConn \<Rightarrow> bytes \<Rightarrow> bool" where
  "obfs_state E x c p \<longleftrightarrow> env_ok E (ob_host c) \<and> \<not> wfail (ob_Conn c) \<and> [] \<notin> set (inp (ob_Conn c))
     \<and> (if handshaked c then (\<exists>key. text_ok key \<and> out (ob_Conn c) @ wbuf c = own_head E c key @ x)
        else out (ob_Conn c) = [] \<and> wbuf c = [] \<and> x = [])
     \<and> (if head_read c then rbuf c @ concat (inp (ob_Conn c)) = p
        else rbuf c = [] \<and> (\<exists>ls. peer_head c ls \<and> concat (inp (ob_Conn c)) = head_bytes ls @ p))"

lemma challenge_key_text: "text_ok (challenge_key E)"
  using EncodeToString_text by (cases "rand16 E") (simp_all add: challenge_key_def generateChallengeKey_def text_ok_def [of "[]"])

lemma Handshake_state:
  assumes "obfs_state E x c p"
  shows "\<exists>c'. Handshake E c = (Ret (), c') \<and> handshaked c' \<and> isServer c' = isServer c \<and> obfs_state E x c' p"
proof (cases "handshaked c")
  case False
  show ?thesis
  proof (cases "isServer c")
    case True
    then obtain key where key: "text_ok key" "concat (inp (ob_Conn c)) = head_bytes (request_lines (ob_host c) key) @ p"
      using assms False by (auto simp: obfs_state_def head_read_def peer_head_def)
    have st: "env_ok E (ob_host c)" "[] \<notin> set (inp (ob_Conn c))" "rbuf c = []" "wbuf c = []" "\<not> wfail (ob_Conn c)" "out (ob_Conn c) = []" "x = []"
      using assms False True by (auto simp: obfs_state_def head_read_def)
    obtain c' where c': "serverHandshake E c = (Ret (), c')" "rbuf c' @ concat (inp (ob_Conn c')) = p" "[] \<notin> set (inp (ob_Conn c'))"
      "out (ob_Conn c') @ wbuf c' = head_bytes (upgrade_lines E key)" "\<not> wfail (ob_Conn c')" "ob_host c' = ob_host c" "isServer c' = isServer c"
      using serverHandshake_ok [OF st(1) key st(2-6)] by blast
    have "obfs_state E x (c'\<lparr>handshaked := True\<rparr>) p"
      using c' st(1,7) key(1) True by (auto simp: obfs_state_def own_head_def head_read_def)
    then show ?thesis using False True c'(1,7) by (simp add: Handshake_def bindP_apply)
  next
    case srv: False
    have st: "obfs_state E x (c\<lparr>wbuf := wbuf c @ head_bytes (request_lines (ob_host c) (challenge_key E)), handshaked := True\<rparr>) p"
      using assms False srv challenge_key_text [of E] by (auto simp: obfs_state_def own_head_def head_read_def peer_head_def)
    have "cleanHost E (ob_host c) = Ret (ob_host c)" using assms by (simp add: obfs_state_def env_ok_def)
    then show ?thesis using False srv st by (simp add: Handshake_def clientHandshake_def bindP_apply)
  qed
qed (use assms in \<open>simp add: Handshake_def\<close>)

lemma drainHeader_state:
  assumes "obfs_state E x c p" "handshaked c" "\<not> isServer c"
  shows "\<exists>c'. drainHeader c = (Ret (), c') \<and> handshaked c' \<and> \<not> isServer c' \<and> headerDrained c' \<and> obfs_state E x c' p"
proof (cases "headerDrained c")
  case False
  then obtain ls where ls: "\<forall>l \<in> set ls. line_ok l \<and> l \<noteq> []" "concat (inp (ob_Conn c)) = head_bytes ls @ p" "[] \<notin> set (inp (ob_Conn c))" "rbuf c = []"
    using assms by (auto simp: obfs_state_def head_read_def peer_head_def)
  obtain b r where br: "drain_loop ([], inp (ob_Conn c)) = (Ret (), (b, r))" "b @ concat r = p" "[] \<notin> set r"
    using drain_loop_head [of "[]" "inp (ob_Conn c)" ls p] ls by auto
  then have "obfs_state E x (c\<lparr>headerDrained := True, ob_Conn := (ob_Conn c)\<lparr>inp := r\<rparr>, rbuf := rbuf c @ b\<rparr>) p"
    using assms ls(4) by (auto simp: obfs_state_def head_read_def own_head_def)
  then show ?thesis using False br assms(2,3) by (simp add: drainHeader_def Let_def)
qed (use assms in \<open>simp add: drainHeader_def\<close>)

text \<open>A read first gets past the heads; then it delivers from the buffer or from the connection.\<close>

definition read_data :: "nat \<Rightarrow> (ObfsConn, bytes) proc" where
  "read_data n c = (if rbuf c \<noteq> [] then (Ret (take n (rbuf c)), c\<lparr>rbuf := drop n (rbuf c)\<rparr>) else on_Conn (read_conn n) c)"

lemma Read_past_heads:
  assumes "obfs_state E x c p"
  shows "\<exists>c'. ObfsConn_Read E n c = read_data n c' \<and> handshaked c' \<and> head_read c' \<and> obfs_state E x c' p"
proof -
  obtain c1 where c1: "Handshake E c = (Ret (), c1)" "handshaked c1" "isServer c1 = isServer c" "obfs_state E x c1 p"
    using Handshake_state [OF assms] by blast
  show ?thesis
  proof (cases "isServer c1")
    case True
    then show ?thesis using c1 by (intro exI [of _ c1]) (simp add: ObfsConn_Read_def bindP_apply read_data_def head_read_def)
  next
    case False
    then obtain c2 where "drainHeader c1 = (Ret (), c2)" "handshaked c2" "\<not> isServer c2" "headerDrained c2" "obfs_state E x c2 p"
      using drainHeader_state [OF c1(4,2)] by blast
    then show ?thesis using c1 False by (intro exI [of _ c2]) (simp add: ObfsConn_Read_def bindP_apply read_data_def head_read_def)
  qed
qed

lemma rd_read_some:
  assumes "[] \<notin> set r" "r \<noteq> []" "0 < n"
  shows "\<exists>y r'. rd_read n r = (Ret y, r') \<and> y \<noteq> [] \<and> length y \<le> n \<and> concat r = y @ concat r' \<and> [] \<notin> set r'"
  using assms by (cases r) auto

lemma read_data_state:
  assumes "obfs_state E x c p" "head_read c" "0 < n"
  shows "if p = [] then read_data n c = (Err EOF, c)
    else \<exists>y q c'. read_data n c = (Ret y, c') \<and> y \<noteq> [] \<and> length y \<le> n \<and> p = y @ q \<and> obfs_state E x c' q"
proof -
  have p: "rbuf c @ concat (inp (ob_Conn c)) = p" "[] \<notin> set (inp (ob_Conn c))"
    using assms by (auto simp: obfs_state_def)
  consider "p = []" | "rbuf c \<noteq> []" | "p \<noteq> []" "rbuf c = []" by blast
  then show ?thesis
  proof cases
    case 1
    then have "rbuf c = []" "inp (ob_Conn c) = []" using p by (cases "inp (ob_Conn c)"; auto)+
    then show ?thesis using 1 by (simp add: read_data_def on_Conn_def read_conn_def)
  next
    case 2
    have "obfs_state E x (c\<lparr>rbuf := drop n (rbuf c)\<rparr>) (drop n (rbuf c) @ concat (inp (ob_Conn c)))"
      using assms(1,2) by (auto simp: obfs_state_def head_read_def own_head_def)
    moreover have "p = take n (rbuf c) @ drop n (rbuf c) @ concat (inp (ob_Conn c))"
      unfolding p(1) [symmetric] append_assoc [symmetric] append_take_drop_id ..
    moreover have "take n (rbuf c) \<noteq> []" using 2 assms(3) by simp
    ultimately show ?thesis using 2 by (auto simp: read_data_def)
  next
    case 3
    then have "inp (ob_Conn c) \<noteq> []" using p by auto
    then obtain y r' where y: "rd_read n (inp (ob_Conn c)) = (Ret y, r')" "y \<noteq> []" "length y \<le> n" "p = y @ concat r'" "[] \<notin> set r'"
      using rd_read_some [OF p(2) _ assms(3)] p(1) 3 by auto
    then have "obfs_state E x (c\<lparr>ob_Conn := (ob_Conn c)\<lparr>inp := r'\<rparr>\<rparr>) (concat r')"
      using assms(1,2) 3 by (auto simp: obfs_state_def head_read_def own_head_def)
    then show ?thesis using 3 y by (auto simp: read_data_def on_Conn_def read_conn_def)
  qed
qed

interpretation obfs: byte_reader "ObfsConn_Read E" "obfs_state E x" for E x
proof
  fix c and k :: nat
  assume "obfs_state E x c []" "0 < k"
  then show "\<exists>c'. ObfsConn_Read E k c = (Err EOF, c')"
    using Read_past_heads [of E x c "[]" k] read_data_state [of E x _ "[]" k] by fastforce
next
  fix c p and k :: nat
  assume "obfs_state E x c p" "p \<noteq> []" "0 < k"
  then show "\<exists>y q c'. ObfsConn_Read E k c = (Ret y, c') \<and> y \<noteq> [] \<and> length y \<le> k \<and> p = y @ q \<and> obfs_state E x c' q"
    using Read_past_heads [of E x c p k] read_data_state [of E x _ p k] by (metis (full_types))
qed

lemma Write_state:
  assumes "obfs_state E x c p"
  shows "\<exists>c'. ObfsConn_Write E m c = (Ret (), c') \<and> wbuf c' = [] \<and> handshaked c' \<and> isServer c' = isServer c \<and> obfs_state E (x @ m) c' p"
proof -
  obtain c1 where c1: "Handshake E c = (Ret (), c1)" "handshaked c1" "isServer c1 = isServer c" "obfs_state E x c1 p"
    using Handshake_state [OF assms] by blast
  have w: "\<not> wfail (ob_Conn c1)" using c1(4) by (simp add: obfs_state_def)
  define c2 where "c2 = c1\<lparr>ob_Conn := (ob_Conn c1)\<lparr>out := out (ob_Conn c1) @ wbuf c1 @ m\<rparr>, wbuf := []\<rparr>"
  have "obfs_state E (x @ m) c2 p"
    using c1(2,4) unfolding obfs_state_def c2_def by (auto simp: head_read_def own_head_def peer_head_def)
  moreover have "ObfsConn_Write E m c = (Ret (), c2)"
    using c1(1) w by (cases "wbuf c1 = []") (simp_all add: ObfsConn_Write_def bindP_apply on_Conn_def c2_def)
  ultimately show ?thesis using c1(2,3) by (simp add: c2_def)
qed

section \<open>Runs of the two ends\<close>

text \<open>A program on one end reads and writes in any order; what it has read is collected.\<close>

datatype obfs_op = Rd nat | Wr bytes

fun obfs_run :: "obfs_env \<Rightarrow> obfs_op list \<Rightarrow> ObfsConn \<Rightarrow> bytes \<times> ObfsConn" where
  "obfs_run E [] c = ([], c)"
| "obfs_run E (Rd k # os) c = (case ObfsConn_Read E k c of
     (Ret y, c') \<Rightarrow> (case obfs_run E os c' of (z, c'') \<Rightarrow> (y @ z, c''))
   | (_, c') \<Rightarrow> obfs_run E os c')"
| "obfs_run E (Wr m # os) c = obfs_run E os (snd (ObfsConn_Write E m c))"

fun written :: "obfs_op list \<Rightarrow> bytes" where
  "written [] = []"
| "written (Rd k # os) = written os"
| "written (Wr m # os) = m @ written os"

fun reads :: "obfs_op list \<Rightarrow> nat" where
  "reads [] = 0"
| "reads (Rd k # os) = Suc (reads os)"
| "reads (Wr m # os) = reads os"

fun op_ok :: "obfs_op \<Rightarrow> bool" where
  "op_ok (Rd k) = (0 < k)"
| "op_ok (Wr m) = True"

lemma written_append [simp]: "written (os @ os') = written os @ written os'"
  by (induction os rule: written.induct) simp_all

lemma reads_append [simp]: "reads (os @ os') = reads os + reads os'"
  by (induction os rule: reads.induct) simp_all

lemma obfs_run_append:
  "obfs_run E (os @ os') c = (case obfs_run E os c of (y, c1) \<Rightarrow> case obfs_run E os' c1 of (z, c2) \<Rightarrow> (y @ z, c2))"
  by (induction E os c rule: obfs_run.induct) (auto split: prod.splits go.splits)

lemma Read_end_state:
  assumes "obfs_state E x c []" "0 < k"
  shows "\<exists>c'. ObfsConn_Read E k c = (Err EOF, c') \<and> obfs_state E x c' []"
  using Read_past_heads [OF assms(1), of k] read_data_state [of E x _ "[]" k] assms(2) by fastforce

lemma obfs_run_state:
  assumes "obfs_state E x c p" "\<forall>a \<in> set os. op_ok a"
  shows "\<exists>q. p = fst (obfs_run E os c) @ q \<and> min (reads os) (length p) \<le> length (fst (obfs_run E os c))
     \<and> obfs_state E (x @ written os) (snd (obfs_run E os c)) q"
  using assms
proof (induction E os c arbitrary: x p rule: obfs_run.induct)
  case (2 E k os c)
  have k: "0 < k" and os: "\<forall>a \<in> set os. op_ok a" using 2(5) by simp_all
  show ?case
  proof (cases "p = []")
    case True
    obtain c' where c': "ObfsConn_Read E k c = (Err EOF, c')" "obfs_state E x c' []"
      using Read_end_state [OF 2(4) [unfolded True] k] by blast
    obtain q where "[] = fst (obfs_run E os c') @ q" "obfs_state E (x @ written os) (snd (obfs_run E os c')) q"
      using 2(2) [OF c'(1) [symmetric] refl c'(2) os] by blast
    then show ?thesis using c'(1) True by (intro exI [of _ q]) simp
  next
    case False
    obtain y q c' where y: "ObfsConn_Read E k c = (Ret y, c')" "y \<noteq> []" "p = y @ q" "obfs_state E x c' q"
      using obfs.read_some [OF 2(4) False k] by blast
    obtain q' where q': "q = fst (obfs_run E os c') @ q'" "min (reads os) (length q) \<le> length (fst (obfs_run E os c'))"
      "obfs_state E (x @ written os) (snd (obfs_run E os c')) q'"
      using 2(1) [OF y(1) [symmetric] refl y(4) os] by blast
    have "Suc 0 \<le> length y" using y(2) by (cases y) auto
    moreover have "obfs_run E (Rd k # os) c = (y @ fst (obfs_run E os c'), snd (obfs_run E os c'))"
      using y(1) by (simp split: prod.splits)
    moreover have "p = (y @ fst (obfs_run E os c')) @ q'" using y(3) q'(1) by simp
    ultimately show ?thesis using q'(2,3) y(3) by (intro exI [of _ q']) simp
  qed
next
  case (3 E m os c)
  obtain c' where c': "ObfsConn_Write E m c = (Ret (), c')" "obfs_state E (x @ m) c' p" using Write_state [OF 3(2)] by blast
  have "\<forall>a \<in> set os. op_ok a" using 3(3) by simp
  then obtain q where "p = fst (obfs_run E os c') @ q" "min (reads os) (length p) \<le> length (fst (obfs_run E os c'))"
     "obfs_state E ((x @ m) @ written os) (snd (obfs_run E os c')) q"
    using 3(1) [of "x @ m" p] c' by auto
  then show ?case using c'(1) by (intro exI [of _ q]) simp
qed simp

text \<open>What a client sends does not depend on what it receives.\<close>

definition client_sent :: "obfs_env \<Rightarrow> bytes \<Rightarrow> ObfsConn \<Rightarrow> bool" where
  "client_sent E x c \<longleftrightarrow> \<not> isServer c \<and> env_ok E (ob_host c) \<and> \<not> wfail (ob_Conn c)
     \<and> (if handshaked c then out (ob_Conn c) @ wbuf c = head_bytes (request_lines (ob_host c) (challenge_key E)) @ x
        else out (ob_Conn c) = [] \<and> wbuf c = [] \<and> x = [])"

lemma Handshake_client:
  assumes "client_sent E x c"
  shows "\<exists>c'. Handshake E c = (Ret (), c') \<and> handshaked c' \<and> client_sent E x c'"
proof (cases "handshaked c")
  case False
  have st: "client_sent E x (c\<lparr>wbuf := wbuf c @ head_bytes (request_lines (ob_host c) (challenge_key E)), handshaked := True\<rparr>)"
    using assms False by (auto simp: client_sent_def)
  have "cleanHost E (ob_host c) = Ret (ob_host c)" "\<not> isServer c" using assms by (simp_all add: client_sent_def env_ok_def)
  then show ?thesis using False st by (simp add: Handshake_def clientHandshake_def bindP_apply)
qed (use assms in \<open>simp add: Handshake_def\<close>)

lemma client_sent_input:
  "client_sent E x c \<Longrightarrow> client_sent E x (c\<lparr>ob_Conn := (ob_Conn c)\<lparr>inp := r\<rparr>\<rparr>)"
  "client_sent E x c \<Longrightarrow> client_sent E x (c\<lparr>rbuf := b\<rparr>)"
  "client_sent E x c \<Longrightarrow> client_sent E x (c\<lparr>headerDrained := d\<rparr>)"
  by (auto simp: client_sent_def own_head_def)

lemma drainHeader_client: "client_sent E x c \<Longrightarrow> client_sent E x (snd (drainHeader c))"
proof (cases "headerDrained c")
  case False
  obtain y b r where d: "drain_loop ([], inp (ob_Conn c)) = (y, (b, r))" by (metis surj_pair)
  assume "client_sent E x c"
  then have 1: "client_sent E x (c\<lparr>headerDrained := True, ob_Conn := (ob_Conn c)\<lparr>inp := r\<rparr>\<rparr>)"
    using client_sent_input(1) [OF client_sent_input(3) [of E x c True], of r] by simp
  then show ?thesis using False d client_sent_input(2) [OF 1, of "rbuf c @ b"] by (simp add: drainHeader_def Let_def)
qed (simp add: drainHeader_def)

lemma read_data_client: "client_sent E x c \<Longrightarrow> client_sent E x (snd (read_data n c))"
  by (auto simp: read_data_def on_Conn_def read_conn_def client_sent_input split: prod.splits)

lemma Read_client: "client_sent E x c \<Longrightarrow> client_sent E x (snd (ObfsConn_Read E n c))"
proof -
  assume "client_sent E x c"
  then obtain c1 where c1: "Handshake E c = (Ret (), c1)" "client_sent E x c1" using Handshake_client by blast
  obtain y c2 where c2: "drainHeader c1 = (y, c2)" "client_sent E x c2" using drainHeader_client [OF c1(2)] by (cases "drainHeader c1") auto
  have s: "\<not> isServer c1" using c1(2) by (simp add: client_sent_def)
  show ?thesis
  proof (cases y)
    case (Ret u)
    then have "ObfsConn_Read E n c = read_data n c2" using c1 c2 s by (simp add: ObfsConn_Read_def bindP_apply read_data_def)
    then show ?thesis using read_data_client [OF c2(2)] by simp
  qed (use c1 c2 s in \<open>simp_all add: ObfsConn_Read_def bindP_apply\<close>)
qed

lemma Write_client:
  assumes "client_sent E x c"
  shows "\<exists>c'. ObfsConn_Write E m c = (Ret (), c') \<and> wbuf c' = [] \<and> handshaked c' \<and> client_sent E (x @ m) c'"
proof -
  obtain c1 where c1: "Handshake E c = (Ret (), c1)" "handshaked c1" "client_sent E x c1"
    using Handshake_client [OF assms] by blast
  have w: "\<not> wfail (ob_Conn c1)" using c1(3) by (simp add: client_sent_def)
  define c2 where "c2 = c1\<lparr>ob_Conn := (ob_Conn c1)\<lparr>out := out (ob_Conn c1) @ wbuf c1 @ m\<rparr>, wbuf := []\<rparr>"
  have "client_sent E (x @ m) c2" using c1(2,3) unfolding client_sent_def c2_def by (auto simp: own_head_def)
  moreover have "ObfsConn_Write E m c = (Ret (), c2)"
    using c1(1) w by (cases "wbuf c1 = []") (simp_all add: ObfsConn_Write_def bindP_apply on_Conn_def c2_def)
  ultimately show ?thesis using c1(2) by (simp add: c2_def)
qed

lemma obfs_run_client: "client_sent E x c \<Longrightarrow> client_sent E (x @ written os) (snd (obfs_run E os c))"
proof (induction E os c arbitrary: x rule: obfs_run.induct)
  case (2 E k os c)
  have s: "client_sent E x (snd (ObfsConn_Read E k c))" using Read_client [OF 2(4)] .
  show ?case
  proof (cases "ObfsConn_Read E k c")
    case (Pair y c')
    then show ?thesis using 2(1-3) s by (cases y) (auto split: prod.splits)
  qed
next
  case (3 E m os c)
  obtain c' where "ObfsConn_Write E m c = (Ret (), c')" "client_sent E (x @ m) c'" using Write_client [OF 3(2)] by blast
  then show ?case using 3(1) [of "x @ m"] by simp
qed simp

text \<open>Host name and side never change.\<close>

lemma host_kept:
  "ob_host (snd (Handshake E c)) = ob_host c \<and> isServer (snd (Handshake E c)) = isServer c"
  "ob_host (snd (drainHeader c)) = ob_host c \<and> isServer (snd (drainHeader c)) = isServer c"
  "ob_host (snd (ObfsConn_Read E n c)) = ob_host c \<and> isServer (snd (ObfsConn_Read E n c)) = isServer c"
  "ob_host (snd (ObfsConn_Write E m c)) = ob_host c \<and> isServer (snd (ObfsConn_Write E m c)) = isServer c"
proof -
  have sv: "ob_host (snd (serverHandshake E c)) = ob_host c \<and> isServer (snd (serverHandshake E c)) = isServer c" for c
    by (auto simp: serverHandshake_def on_Conn_def bindP_def errP_def Let_def split: prod.splits go.splits)
  have cl: "ob_host (snd (clientHandshake E c)) = ob_host c \<and> isServer (snd (clientHandshake E c)) = isServer c" for c
    by (auto simp: clientHandshake_def Let_def split: go.splits)
  have hs: "ob_host (snd (Handshake E c)) = ob_host c \<and> isServer (snd (Handshake E c)) = isServer c" for c
    using sv [of c] cl [of c] by (auto simp: Handshake_def bindP_def split: prod.splits go.splits)
  have dr: "ob_host (snd (drainHeader c)) = ob_host c \<and> isServer (snd (drainHeader c)) = isServer c" for c
    by (auto simp: drainHeader_def Let_def split: prod.splits)
  have rd: "ob_host (snd (read_data n c)) = ob_host c \<and> isServer (snd (read_data n c)) = isServer c" for c
    by (auto simp: read_data_def on_Conn_def split: prod.splits)
  have rw: "ObfsConn_Read E n = bindP (Handshake E) (\<lambda>_ c. bindP (if \<not> isServer c then drainHeader else retP ()) (\<lambda>_. read_data n) c)"
    by (simp add: ObfsConn_Read_def read_data_def [abs_def])
  show "ob_host (snd (Handshake E c)) = ob_host c \<and> isServer (snd (Handshake E c)) = isServer c"
    "ob_host (snd (drainHeader c)) = ob_host c \<and> isServer (snd (drainHeader c)) = isServer c" using hs dr by blast+
  obtain x c1 where c1: "Handshake E c = (x, c1)" "ob_host c1 = ob_host c" "isServer c1 = isServer c"
    using hs [of c] by (cases "Handshake E c") auto
  obtain y c2 where c2: "drainHeader c1 = (y, c2)" "ob_host c2 = ob_host c" "isServer c2 = isServer c"
    using dr [of c1] c1 by (cases "drainHeader c1") auto
  show "ob_host (snd (ObfsConn_Read E n c)) = ob_host c \<and> isServer (snd (ObfsConn_Read E n c)) = isServer c"
    using c1 c2 rd [of c1] rd [of c2] by (cases x; cases y) (auto simp: rw bindP_def retP_def)
  show "ob_host (snd (ObfsConn_Write E m c)) = ob_host c \<and> isServer (snd (ObfsConn_Write E m c)) = isServer c"
    using c1 by (cases x) (auto simp: ObfsConn_Write_def bindP_def on_Conn_def split: prod.splits go.splits)
qed

lemma obfs_run_host:
  "ob_host (snd (obfs_run E os c)) = ob_host c" "isServer (snd (obfs_run E os c)) = isServer c"
proof -
  have "ob_host (snd (obfs_run E os c)) = ob_host c \<and> isServer (snd (obfs_run E os c)) = isServer c"
  proof (induction E os c rule: obfs_run.induct)
    case (2 E k os c)
    then show ?case using host_kept(3) [of E k c] by (cases "ObfsConn_Read E k c"; cases "fst (ObfsConn_Read E k c)") (auto split: prod.splits)
  next
    case (3 E m os c)
    then show ?case using host_kept(4) [of E m c] by simp
  qed simp
  then show "ob_host (snd (obfs_run E os c)) = ob_host c" "isServer (snd (obfs_run E os c)) = isServer c" by auto
qed

text \<open>After a last write everything has been sent, head and data.\<close>

lemma client_run_out:
  assumes "env_ok E host" "\<not> wfail w" "out w = []"
  shows "out (ob_Conn (snd (obfs_run E (co @ [Wr m]) (NewObfsConn w host False))))
     = head_bytes (request_lines host (challenge_key E)) @ written co @ m"
proof -
  let ?c = "snd (obfs_run E co (NewObfsConn w host False))"
  have "client_sent E [] (NewObfsConn w host False)" using assms by (simp add: client_sent_def NewObfsConn_def)
  then have s: "client_sent E (written co) ?c" using obfs_run_client [of E "[]" _ co] by simp
  obtain c' where c': "ObfsConn_Write E m ?c = (Ret (), c')" "wbuf c' = []" "handshaked c'" "client_sent E (written co @ m) c'"
    using Write_client [OF s] by blast
  have "ob_host c' = host" using host_kept c'(1) obfs_run_host by (metis NewObfsConn_def ObfsConn.select_convs(2) snd_conv)
  then show ?thesis using c' by (auto simp: obfs_run_append client_sent_def own_head_def split: prod.splits)
qed

lemma server_run_out:
  assumes "obfs_state E [] (NewObfsConn v host True) p" "\<forall>a \<in> set so. op_ok a"
  shows "\<exists>key. out (ob_Conn (snd (obfs_run E (so @ [Wr r]) (NewObfsConn v host True)))) = head_bytes (upgrade_lines E key) @ written so @ r"
proof -
  let ?d = "snd (obfs_run E so (NewObfsConn v host True))"
  obtain q where q: "obfs_state E (written so) ?d q" using obfs_run_state [OF assms] by auto
  obtain d' where d': "ObfsConn_Write E r ?d = (Ret (), d')" "wbuf d' = []" "handshaked d'" "obfs_state E (written so @ r) d' q"
    using Write_state [OF q] by blast
  have "isServer d'" using host_kept d'(1) obfs_run_host by (metis NewObfsConn_def ObfsConn.select_convs(5) snd_conv)
  then show ?thesis using d' by (auto simp: obfs_run_append obfs_state_def own_head_def split: prod.splits)
qed


definition obfs_demo_env :: obfs_env where
  "obfs_demo_env = \<lparr>parseURI = (\<lambda>s. if s = ''/'' then Some \<lparr>u_Scheme = [], u_Host = [], u_Path = ''/''\<rparr> else None), sha1 = id,
     now_text = ''Wed'', rand16 = Err EOF, cleanHost = Ret, grow = (\<lambda>_. 512)\<rparr>"

definition obfs_demo_v :: conn where
  "obfs_demo_v = \<lparr>inp = [head_bytes (request_lines ''a.org'' []), [7, 8]], out = [], wfail = False\<rparr>"

definition obfs_demo_w :: conn where
  "obfs_demo_w = \<lparr>inp = [out (ob_Conn (snd (obfs_run obfs_demo_env [Rd 4, Wr [9]] (NewObfsConn obfs_demo_v ''a.org'' True))))], out = [], wfail = False\<rparr>"

lemma obfs_demo_ok: "env_ok obfs_demo_env ''a.org''"
proof -
  have "text_ok ''a.org''" "line_ok ''Wed''" by code_simp+
  then show ?thesis by (simp add: env_ok_def obfs_demo_env_def)
qed


text \<open>
  C39. A client that asks for another host is refused: the first read of the server fails, after it has
  answered with a 503 head, and nothing of what the client sent is delivered.
\<close>

theorem obfs_wrong_host_refused:
  assumes "env_ok E h" "text_ok key" "concat (inp v) = head_bytes (request_lines h key) @ p" "[] \<notin> set (inp v)"
    and "\<not> wfail v" "h \<noteq> host"
  shows "\<exists>d. ObfsConn_Read E n (NewObfsConn v host True) = (Err ErrBadRequest, d)
     \<and> out (ob_Conn d) = out v @ head_bytes (unavailable_lines E) \<and> \<not> handshaked d"
proof -
  obtain u r b rd where r: "u_Host u = []" "ReadRequest (parseURI E) ([], inp v) = (Ret r, (b, rd))"
    "rq_URL r = u" "rq_Host r = h" "ContentLength r = 0"
    using request_received [OF assms(1-4)] by metis
  have "\<not> good_upgrade (NewObfsConn v host True) r" using r assms(6) by (auto simp: good_upgrade_def NewObfsConn_def)
  then show ?thesis using r assms(5)
    by (simp add: ObfsConn_Read_def Handshake_def serverHandshake_def request_data_def on_Conn_def bindP_def errP_def NewObfsConn_def Let_def)
qed

theorem obfs_wrong_host_refused_witness:
  "\<exists>d. ObfsConn_Read obfs_demo_env 4 (NewObfsConn obfs_demo_v ''b.org'' True) = (Err ErrBadRequest, d)
     \<and> out (ob_Conn d) = head_bytes (unavailable_lines obfs_demo_env) \<and> \<not> handshaked d"
proof -
  have k: "text_ok []" by (simp add: text_ok_def)
  have "concat (inp obfs_demo_v) = head_bytes (request_lines ''a.org'' []) @ [7, 8]" "[] \<notin> set (inp obfs_demo_v)" "\<not> wfail obfs_demo_v" "out obfs_demo_v = []"
    by (simp_all add: obfs_demo_v_def head_bytes_def crlf_line_def)
  then show ?thesis using obfs_wrong_host_refused [OF obfs_demo_ok k, of obfs_demo_v "[7, 8]" "''b.org''" 4] by simp
qed

end
