(* ===== verification/Http_Proxy.thy ===== *)
theory Http_Proxy
  imports Go_Http Socks
begin

text \<open>
  The HTTP proxy \<open>ss/http.go\<close> with the header lists of \<open>proxy/header.go\<close>, and the mixed server \<open>ss/mixed.go\<close> that
  tells SOCKS5 and HTTP clients apart by their first byte.
\<close>

section \<open>Headers (proxy/header.go)\<close>

definition hopByHopHeaders :: "string list" where
  "hopByHopHeaders = [''Connection'', ''Keep-Alive'', ''Proxy-Authenticate'', ''Proxy-Authorization'', ''Te'', ''Trailers'',
     ''Transfer-Encoding'', ''Upgrade'', ''Proxy-Connection'']"

definition RemoveHopByHopRequestHeaders :: "Header \<Rightarrow> Header" where
  "RemoveHopByHopRequestHeaders h = fold Header_Del hopByHopHeaders h"

definition RemoveWebsocketRequestHeaders :: "Header \<Rightarrow> Header" where
  "RemoveWebsocketRequestHeaders h = fold Header_Del
     [''Upgrade'', ''Connection'', ''Sec-Websocket-Key'', ''Sec-Websocket-Version'', ''Sec-Websocket-Extensions''] h"

section \<open>Model of ss/http.go\<close>

definition proxyAgent :: string where
  "proxyAgent = ''mini-ss/1.0''"

definition caCertFileRequestUrl :: string where
  "caCertFileRequestUrl = ''/cacert''"

definition connectionEstablished :: bytes where
  "connectionEstablished = concat (map crlf_line [''HTTP/1.1 200 Connection Established'', ''Proxy-agent: '' @ proxyAgent, []])"

text \<open>
  What the handlers read: the configured authentication, the path of the CA certificate when a MITM handler is
  set, the rule environment; and from the libraries \<open>url.ParseRequestURI\<close>, \<open>os.Open\<close>, \<open>http.Response.Write\<close> (by
  status, header and body) and \<open>http.Request.Write\<close>, which reads the body from the buffered reader.
\<close>

record henv =
  h_auth :: "Auth option"
  h_mitm :: "string option"
  h_renv :: renv
  h_parseURI :: "string \<Rightarrow> URL option"
  h_open :: "string \<Rightarrow> bytes option"
  h_response :: "nat \<Rightarrow> Header \<Rightarrow> bytes \<Rightarrow> bytes"
  h_request :: "Request \<Rightarrow> bufr \<Rightarrow> bytes \<times> bufr"

record hstate =
  hp_conn :: conn
  hp_ruler :: Ruler

record ReqContext =
  rc_ConnMethod :: bool
  rc_Host :: string
  rc_Port :: string
  rc_Addr :: string
  rc_Request :: "Request option"

definition parseHostPort :: "Request \<Rightarrow> (string \<times> string) go" where
  "parseHostPort req =
     (let target = (if Method req \<noteq> ''CONNECT'' then rq_Host req else RequestURI req);
          whole = (\<lambda>_ :: unit. bind_go (index_go target 0) (\<lambda>c.
            bind_go (if c = CHR ''['' then slice target 1 (int (length target) - 1) else Ret target) (\<lambda>host.
              Ret (host, if Method req \<noteq> ''CONNECT'' then ''80'' else []))))
      in case splitHostPort target of
           Ret (host, port) \<Rightarrow> if port = [] then whole () else Ret (host, port)
         | _ \<Rightarrow> whole ())"

definition on_hconn :: "(conn, 'a) proc \<Rightarrow> (hstate, 'a) proc" where
  "on_hconn f s = (case f (hp_conn s) of (r, c) \<Rightarrow> (r, s\<lparr>hp_conn := c\<rparr>))"

definition respond :: "henv \<Rightarrow> nat \<Rightarrow> Header \<Rightarrow> bytes \<Rightarrow> (hstate, unit) proc" where
  "respond e status h body = on_hconn (write_conn_ign (h_response e status h body))"

definition handleHomeAccess :: "henv \<Rightarrow> Request \<Rightarrow> (hstate, unit) proc" where
  "handleHomeAccess e req =
     (if Method req = ''CONNECT'' \<or> Header_Get (rq_Header req) ''Proxy-Connection'' \<noteq> [] \<or> u_Scheme (rq_URL req) \<noteq> [] then retP ()
      else case h_mitm e of
        Some caPath \<Rightarrow>
          if Method req = ''GET'' \<and> hasPrefix (u_Path (rq_URL req)) caCertFileRequestUrl
          then (case h_open e caPath of
              None \<Rightarrow> errP ErrOpenFile
            | Some ca \<Rightarrow> bindP (respond e 200 [(''Content-Type'', ''application/x-x509-ca-cert''), (''Connection'', ''close'')] ca)
                (\<lambda>_. errP ErrCACertFileAccessed))
          else bindP (respond e 200 [(''Connection'', ''close'')] []) (\<lambda>_. errP ErrHomeAccessed)
      | None \<Rightarrow> bindP (respond e 200 [(''Connection'', ''close'')] []) (\<lambda>_. errP ErrHomeAccessed))"

definition match_target :: "henv \<Rightarrow> string \<Rightarrow> (hstate, bool \<times> string) proc" where
  "match_target e host s = (case Ruler_Match (h_renv e) (hp_ruler s) host of
     (Ret b, r, h) \<Rightarrow> (Ret (b, h), s\<lparr>hp_ruler := r\<rparr>)
   | (Err x, r, h) \<Rightarrow> (Err x, s\<lparr>hp_ruler := r\<rparr>)
   | (Panic, r, h) \<Rightarrow> (Panic, s\<lparr>hp_ruler := r\<rparr>))"

text \<open>The credentials of the request, empty when it has none of the basic scheme.\<close>

definition credentials :: "Request \<Rightarrow> (string \<times> string) go" where
  "credentials req =
     (let proxyAuth = Header_Get (rq_Header req) ''Proxy-Authorization'' in
      if proxyAuth \<noteq> [] \<and> contains_sub proxyAuth ''Basic'' \<and> 6 \<le> length proxyAuth
      then bind_go (DecodeString (if hasPrefix proxyAuth ''Basic '' then drop 6 proxyAuth else proxyAuth)) (\<lambda>data.
        case cut_chr (CHR '':'') (string_of data) of (username, password, _) \<Rightarrow> Ret (username, password))
      else Ret ([], []))"

definition auth_required :: Header where
  "auth_required = [(''Proxy-Agent'', proxyAgent), (''Proxy-Authenticate'', ''Basic realm=\"mini-ss\"''),
     (''Connection'', ''close''), (''Proxy-Connection'', ''close'')]"

definition check_auth :: "henv \<Rightarrow> Request \<Rightarrow> (hstate, unit) proc" where
  "check_auth e req = bindP (liftP (credentials req)) (\<lambda>(username, password).
     case h_auth e of
       None \<Rightarrow> retP ()
     | Some a \<Rightarrow> if Validate a username password then retP ()
         else bindP (respond e 407 auth_required []) (\<lambda>_. errP ErrHttpAuthFailed))"

definition readRequest :: "henv \<Rightarrow> Request \<Rightarrow> (hstate, ReqContext) proc" where
  "readRequest e req =
     bindP (handleHomeAccess e req) (\<lambda>_.
     bindP (liftP (parseHostPort req)) (\<lambda>(host0, port).
     bindP (if h_mitm e = None then match_target e host0 else retP (True, host0)) (\<lambda>(ok, host).
     bindP (guardP ok ErrRuleMatchDropped) (\<lambda>_.
     bindP (check_auth e req) (\<lambda>_.
     let ctx = \<lparr>rc_ConnMethod = (Method req = ''CONNECT''), rc_Host = host, rc_Port = port, rc_Addr = joinHostPort host port, rc_Request = None\<rparr> in
     if Method req = ''CONNECT'' then bindP (on_hconn (write_conn_ign connectionEstablished)) (\<lambda>_. retP ctx)
     else retP (ctx\<lparr>rc_Request := Some (req\<lparr>rq_Header := RemoveHopByHopRequestHeaders (rq_Header req)\<rparr>)\<rparr>))))))"

text \<open>
  What becomes of a connection. It is handed on as the state has it: what the buffered reader of
  \<open>ReadRequest\<close> holds behind the request is not part of it any more.
\<close>

datatype hserved = HFailed error | HMitm ReqContext | HRelay string ReqContext

definition read_http :: "henv \<Rightarrow> (hstate, ReqContext \<times> bufr) proc" where
  "read_http e s = (case ReadRequest (h_parseURI e) ([], inp (hp_conn s)) of
     (Err x, b) \<Rightarrow> (Err x, s\<lparr>hp_conn := (hp_conn s)\<lparr>inp := snd b\<rparr>\<rparr>)
   | (Panic, b) \<Rightarrow> (Panic, s)
   | (Ret req, b) \<Rightarrow> bindP (readRequest e req) (\<lambda>ctx. retP (ctx, b)) (s\<lparr>hp_conn := (hp_conn s)\<lparr>inp := snd b\<rparr>\<rparr>))"

text \<open>The request and its body go in front of what the connection still delivers.\<close>

definition prepend_request :: "henv \<Rightarrow> ReqContext \<Rightarrow> bufr \<Rightarrow> conn \<Rightarrow> conn" where
  "prepend_request e ctx b c = (case rc_Request ctx of
     Some req \<Rightarrow> if rc_ConnMethod ctx then c else (case h_request e req b of (w, (_, r)) \<Rightarrow> c\<lparr>inp := w # r\<rparr>)
   | None \<Rightarrow> c)"

definition http_ServeTCP :: "henv \<Rightarrow> (hstate, hserved) proc" where
  "http_ServeTCP e s = (case read_http e s of
     (Err x, s') \<Rightarrow> (Ret (HFailed x), s')
   | (Panic, s') \<Rightarrow> (Panic, s')
   | (Ret (ctx, b), s') \<Rightarrow>
       if h_mitm e \<noteq> None then (Ret (HMitm ctx), s')
       else (let s1 = s'\<lparr>hp_conn := prepend_request e ctx b (hp_conn s')\<rparr> in
         case Ruler_Select (hp_ruler s1) of
           Ret proxy \<Rightarrow> (Ret (HRelay proxy ctx), s1)
         | Err x \<Rightarrow> (Ret (HFailed x), s1)
         | Panic \<Rightarrow> (Panic, s1)))"

section \<open>Model of ss/mixed.go\<close>

text \<open>
  The first byte decides; it stays in the buffer of \<open>BufioConn\<close>, from which the handlers read first. In front of the
  remaining chunks the buffer is one more chunk.
\<close>

datatype mixed = MixClosed | MixSocks | MixHttp

definition handleTCPConn :: "conn \<Rightarrow> mixed go \<times> conn" where
  "handleTCPConn c = (case Peek1 ([], inp c) of
     (Ret data, (b, r)) \<Rightarrow> (let c' = c\<lparr>inp := b # r\<rparr> in
        if length data \<noteq> 1 then (Ret MixClosed, c') else if data ! 0 = 5 then (Ret MixSocks, c') else (Ret MixHttp, c'))
   | (Err e, (b, r)) \<Rightarrow> (Ret MixClosed, c\<lparr>inp := r\<rparr>)
   | (Panic, (b, r)) \<Rightarrow> (Panic, c))"

section \<open>Authentication\<close>

lemma NewAuth_user: "NewAuth u p = Some a \<Longrightarrow> Validate a u' p' \<longleftrightarrow> u' = u \<and> (p \<noteq> [] \<longrightarrow> p' = p)"
  by (auto simp: NewAuth_def Validate_def split: if_splits)

lemma NewAuth_nonempty: "NewAuth u p = Some a \<Longrightarrow> u \<noteq> []"
  by (auto simp: NewAuth_def split: if_splits)

lemma check_auth_Ret:
  assumes "check_auth e req s = (Ret (), s')" "h_auth e = Some a"
  shows "\<exists>u' p'. credentials req = Ret (u', p') \<and> Validate a u' p'"
proof (cases "credentials req")
  case (Ret up)
  then show ?thesis using assms
    by (cases up) (auto simp: check_auth_def bindP_apply respond_def on_hconn_def bindP_def errP_def split: if_splits prod.splits go.splits)
qed (use assms in \<open>simp_all add: check_auth_def bindP_apply\<close>)

lemma readRequest_Ret:
  assumes "readRequest e req s = (Ret ctx, s')"
  shows "\<exists>s1 s2. check_auth e req s1 = (Ret (), s2)"
  using assms unfolding readRequest_def bindP_eq_Ret by (fastforce simp: bindP_eq_Ret)

lemma credentials_decode:
  assumes "credentials req = Ret (u, p)" "u \<noteq> []"
  shows "\<exists>data found. DecodeString (let h = Header_Get (rq_Header req) ''Proxy-Authorization'' in
       if hasPrefix h ''Basic '' then drop 6 h else h) = Ret data \<and> cut_chr (CHR '':'') (string_of data) = (u, p, found)"
proof -
  let ?h = "Header_Get (rq_Header req) ''Proxy-Authorization''"
  obtain data where d: "DecodeString (if hasPrefix ?h ''Basic '' then drop 6 ?h else ?h) = Ret data"
    "(case cut_chr (CHR '':'') (string_of data) of (username, password, _) \<Rightarrow> Ret (username, password)) = Ret (u, p)"
    using assms by (auto simp: credentials_def Let_def bind_go_eq_Ret split: if_split_asm)
  then show ?thesis by (cases "cut_chr (CHR '':'') (string_of data)") (auto simp: Let_def)
qed

text \<open>
  C21. With authentication configured the HTTP proxy hands a connection on, to a proxy node or to the MITM
  handler, only when the request that was read carries the configured credentials: its
  \<open>Proxy-Authorization\<close> decodes to the user name and, when one is configured, the password.
\<close>

theorem http_proxy_requires_credentials:
  assumes "NewAuth u p = Some a" "h_auth e = Some a" "http_ServeTCP e s = (Ret x, s')" "\<nexists>err. x = HFailed err"
  shows "\<exists>req b data p' found. ReadRequest (h_parseURI e) ([], inp (hp_conn s)) = (Ret req, b)
     \<and> DecodeString (let h = Header_Get (rq_Header req) ''Proxy-Authorization'' in if hasPrefix h ''Basic '' then drop 6 h else h) = Ret data
     \<and> cut_chr (CHR '':'') (string_of data) = (u, p', found) \<and> (p \<noteq> [] \<longrightarrow> p' = p)"
proof -
  obtain ctx b s1 where r: "read_http e s = (Ret (ctx, b), s1)"
    using assms(3,4) by (auto simp: http_ServeTCP_def split: go.splits prod.splits)
  obtain req b' where req: "ReadRequest (h_parseURI e) ([], inp (hp_conn s)) = (Ret req, b')"
    using r by (auto simp: read_http_def split: go.splits prod.splits)
  then obtain s2 where "readRequest e req s2 = (Ret ctx, s1)"
    using r by (auto simp: read_http_def bindP_def retP_def split: go.splits prod.splits)
  then obtain s3 s4 where "check_auth e req s3 = (Ret (), s4)" using readRequest_Ret by blast
  then obtain u' p' where c: "credentials req = Ret (u', p')" "Validate a u' p'" using check_auth_Ret [OF _ assms(2)] by blast
  then have "u' = u" "p \<noteq> [] \<longrightarrow> p' = p" using NewAuth_user [OF assms(1)] by auto
  then show ?thesis using credentials_decode [OF c(1)] NewAuth_nonempty [OF assms(1)] req by auto
qed

section \<open>Tunnels\<close>

text \<open>Deleting one key leaves the others.\<close>

lemma Header_Values_Del: "header_key k \<noteq> header_key k' \<Longrightarrow> Header_Values (Header_Del k' h) k = Header_Values h k"
  by (induction h) (auto simp: Header_Values_def Header_Del_def)

lemma Header_Get_Del: "header_key k \<noteq> header_key k' \<Longrightarrow> Header_Get (Header_Del k' h) k = Header_Get h k"
  by (simp add: Header_Get_def Header_Values_Del)

lemma header_keys:
  "header_key ''Proxy-Authorization'' = ''Proxy-Authorization''" "header_key ''Host'' = ''Host''" "header_key ''Transfer-Encoding'' = ''Transfer-Encoding''"
  by code_simp+

definition basic_auth :: "string \<Rightarrow> string \<Rightarrow> string" where
  "basic_auth u p = ''Basic '' @ EncodeToString (bytes_of (u @ CHR '':'' # p))"

lemma credentials_basic:
  assumes "Header_Get (rq_Header req) ''Proxy-Authorization'' = basic_auth u p" "CHR '':'' \<notin> set u"
  shows "credentials req = Ret (u, p)"
proof -
  have "contains_sub (basic_auth u p) ''Basic''" "hasPrefix (basic_auth u p) ''Basic ''" "6 \<le> length (basic_auth u p)"
    by (simp_all add: basic_auth_def)
  moreover have "drop 6 (basic_auth u p) = EncodeToString (bytes_of (u @ CHR '':'' # p))" by (simp add: basic_auth_def)
  moreover have "basic_auth u p \<noteq> []" by (simp add: basic_auth_def)
  ultimately show ?thesis unfolding credentials_def assms(1) Let_def using assms(2)
    by (simp add: base64_round_trip del: bytes_of_simps)
qed

text \<open>A request head as a client sends it.\<close>

definition connect_head :: "string \<Rightarrow> Header \<Rightarrow> bytes" where
  "connect_head target es = crlf_line (''CONNECT '' @ target @ '' HTTP/1.1'') @ concat (map crlf_line (map entry_line es)) @ crlf_line []"

lemma connect_line:
  assumes "CHR '' '' \<notin> set target" "\<not> hasPrefix target ''/''" "parseURI (''http://'' @ target) = Some u"
  shows "parseRequestLine parseURI (''CONNECT '' @ target @ '' HTTP/1.1'') = Some (''CONNECT'', target, u\<lparr>u_Scheme := []\<rparr>, True)"
proof -
  have "CHR '' '' \<notin> set ''CONNECT''" by simp
  from cut_chr_app [OF this, of "target @ '' HTTP/1.1''"]
  have c1: "cut_chr (CHR '' '') (''CONNECT '' @ target @ '' HTTP/1.1'') = (''CONNECT'', target @ '' HTTP/1.1'', True)" by simp
  have c2: "cut_chr (CHR '' '') (target @ '' HTTP/1.1'') = (target, ''HTTP/1.1'', True)"
    using cut_chr_app [OF assms(1), of "''HTTP/1.1''"] by simp
  have "ParseHTTPVersion ''HTTP/1.1'' = Some (1, 1)" "list_all validHeaderFieldByte ''CONNECT''" by code_simp+
  then show ?thesis unfolding parseRequestLine_def c1 prod.case c2 using assms(2,3) by (simp del: list.pred_inject)
qed

lemma finish_connect:
  assumes "length (Header_Values h ''Host'') \<le> 1" "Header_Values h ''Transfer-Encoding'' = []" "Header_Values h ''Content-Length'' = []"
  obtains req where "finish_request ''CONNECT'' target u True h = Ret req" "Method req = ''CONNECT''" "RequestURI req = target"
    "Header_Get (rq_Header req) ''Proxy-Authorization'' = Header_Get h ''Proxy-Authorization''"
  using assms
  by (simp add: finish_request_def transfer_chunked_def content_length_def Let_def Header_Get_Del header_keys)

text \<open>A CONNECT request with the right credentials, to a target that the rules admit.\<close>

definition plain_head :: "Header \<Rightarrow> bool" where
  "plain_head es \<longleftrightarrow> list_all entry_ok es \<and> (let h = map (\<lambda>(k, v). (canon True k, v)) es in
     length (Header_Values h ''Host'') \<le> 1 \<and> Header_Values h ''Transfer-Encoding'' = [] \<and> Header_Values h ''Content-Length'' = [])"

definition sent_auth :: "Header \<Rightarrow> string" where
  "sent_auth es = Header_Get (map (\<lambda>(k, v). (canon True k, v)) es) ''Proxy-Authorization''"

fun cred_ok :: "(string \<times> string) option \<Rightarrow> henv \<Rightarrow> Header \<Rightarrow> bool" where
  "cred_ok None e es = (h_auth e = None \<and> sent_auth es = [])"
| "cred_ok (Some (u, p)) e es = (h_auth e = NewAuth u p \<and> CHR '':'' \<notin> set u \<and> sent_auth es = basic_auth u p)"

lemma check_auth_ok:
  assumes "cred_ok cred e es" "Header_Get (rq_Header req) ''Proxy-Authorization'' = sent_auth es"
  shows "check_auth e req s = (Ret (), s)"
proof (cases cred)
  case None
  then have "credentials req = Ret ([], [])" using assms by (simp add: credentials_def)
  then show ?thesis using assms None by (simp add: check_auth_def bindP_apply)
next
  case (Some up)
  then obtain u p where up: "cred = Some (u, p)" by (cases up) simp
  then have "credentials req = Ret (u, p)" using assms credentials_basic by simp
  moreover have "NewAuth u p = Some a \<Longrightarrow> Validate a u p" for a using NewAuth_user by blast
  ultimately show ?thesis using assms(1) up by (auto simp: check_auth_def bindP_apply split: option.splits)
qed

lemma read_connect:
  assumes "b @ concat hs = connect_head target es @ rest" "[] \<notin> set hs" "plain_head es"
    and "CHR '' '' \<notin> set target" "line_ok target" "\<not> hasPrefix target ''/''" "parseURI (''http://'' @ target) = Some u"
  obtains req b' hs' where "ReadRequest parseURI (b, hs @ ts) = (Ret req, (b', hs' @ ts))" "b' @ concat hs' = rest" "[] \<notin> set hs'"
    "length (concat hs') \<le> length (concat hs)" "Method req = ''CONNECT''" "RequestURI req = target"
    "Header_Get (rq_Header req) ''Proxy-Authorization'' = sent_auth es"
proof -
  let ?h = "map (\<lambda>(k, v). (canon True k, v)) es"
  have es: "\<forall>x \<in> set es. entry_ok x" using assms(3) by (simp add: plain_head_def list_all_iff)
  obtain req where req: "finish_request ''CONNECT'' target (u\<lparr>u_Scheme := []\<rparr>) True ?h = Ret req" "Method req = ''CONNECT''" "RequestURI req = target"
    "Header_Get (rq_Header req) ''Proxy-Authorization'' = Header_Get ?h ''Proxy-Authorization''"
    using finish_connect [of ?h target "u\<lparr>u_Scheme := []\<rparr>"] assms(3) by (auto simp: plain_head_def Let_def)
  have l: "line_ok (''CONNECT '' @ target @ '' HTTP/1.1'')" using assms(5) by (simp add: line_ok_def)
  have ls: "\<forall>x \<in> set (map entry_line es). line_ok x \<and> x \<noteq> []" using es entry_line_ok by auto
  have i: "b @ concat hs = crlf_line (''CONNECT '' @ target @ '' HTTP/1.1'') @ concat (map crlf_line (map entry_line es)) @ crlf_line [] @ rest"
    using assms(1) by (simp add: connect_head_def)
  from ReadRequest_head [OF i assms(2) l ls connect_line [where parseURI = parseURI, OF assms(4,6,7)] header_round_trip [OF es], of ts] req
  show thesis using that by (auto simp: sent_auth_def)
qed

lemma serve_connect:
  assumes "ReadRequest (h_parseURI e) ([], inp (hp_conn s)) = (Ret req, (b, r))" "Method req = ''CONNECT''" "RequestURI req = target"
    and "Header_Get (rq_Header req) ''Proxy-Authorization'' = sent_auth es" "cred_ok cred e es" "h_mitm e = None"
    and "splitHostPort target = Ret (host, port)" "port \<noteq> []" "\<not> wfail (hp_conn s)"
    and "Ruler_Match (h_renv e) (hp_ruler s) host = (Ret True, ruler', host')" "Ruler_Select ruler' = Ret proxy"
  shows "http_ServeTCP e s = (Ret (HRelay proxy \<lparr>rc_ConnMethod = True, rc_Host = host', rc_Port = port, rc_Addr = joinHostPort host' port, rc_Request = None\<rparr>),
     s\<lparr>hp_conn := (hp_conn s)\<lparr>inp := r, out := out (hp_conn s) @ connectionEstablished\<rparr>, hp_ruler := ruler'\<rparr>)"
proof -
  have p: "parseHostPort req = Ret (host, port)" using assms(2,3,7,8) by (simp add: parseHostPort_def Let_def)
  have "readRequest e req s1 = (Ret \<lparr>rc_ConnMethod = True, rc_Host = host', rc_Port = port, rc_Addr = joinHostPort host' port, rc_Request = None\<rparr>,
     s1\<lparr>hp_conn := (hp_conn s1)\<lparr>out := out (hp_conn s1) @ connectionEstablished\<rparr>, hp_ruler := ruler'\<rparr>)"
    if "hp_ruler s1 = hp_ruler s" "\<not> wfail (hp_conn s1)" for s1
    using that assms(2,6,10) p check_auth_ok [OF assms(5,4)]
    by (simp add: readRequest_def handleHomeAccess_def bindP_apply match_target_def guardP_def retP_def on_hconn_def Let_def)
  from this [of "s\<lparr>hp_conn := (hp_conn s)\<lparr>inp := r\<rparr>\<rparr>"] show ?thesis using assms(1,6,9,11)
    by (simp add: http_ServeTCP_def read_http_def bindP_apply prepend_request_def Let_def)
qed


text \<open>
  Data that arrives together with the request is lost: it stays in the buffered reader, and the connection
  that is handed on continues with the chunk after it.
\<close>

theorem early_data_lost:
  assumes "inp (hp_conn s) = (connect_head target es @ early) # ts" "length (connect_head target es @ early) \<le> bufSize" "plain_head es"
    and "CHR '' '' \<notin> set target" "line_ok target" "\<not> hasPrefix target ''/''" "h_parseURI e (''http://'' @ target) = Some u"
    and "splitHostPort target = Ret (host, port)" "port \<noteq> []" "cred_ok cred e es" "h_mitm e = None" "\<not> wfail (hp_conn s)"
    and "Ruler_Match (h_renv e) (hp_ruler s) host = (Ret True, ruler', host')" "Ruler_Select ruler' = Ret proxy"
  shows "\<exists>ctx s'. http_ServeTCP e s = (Ret (HRelay proxy ctx), s') \<and> inp (hp_conn s') = ts"
proof -
  let ?x = "connect_head target es @ early"
  have x: "?x \<noteq> []" by (simp add: connect_head_def crlf_line_def)
  have "?x @ concat [] = connect_head target es @ early" "[] \<notin> set []" by simp_all
  then obtain req b' hs' where r: "ReadRequest (h_parseURI e) (?x, [] @ ts) = (Ret req, (b', hs' @ ts))" "[] \<notin> set hs'"
    "length (concat hs') \<le> length (concat ([] :: bytes list))"
    "Method req = ''CONNECT''" "RequestURI req = target" "Header_Get (rq_Header req) ''Proxy-Authorization'' = sent_auth es"
    using read_connect [where parseURI = "h_parseURI e", OF _ _ assms(3-7)] by metis
  have "hs' = []" using r(2,3) by (cases hs') auto
  then have "ReadRequest (h_parseURI e) ([], inp (hp_conn s)) = (Ret req, (b', ts))"
    using r(1) ReadRequest_first [OF x assms(2)] assms(1) by simp
  from serve_connect [OF this r(4-6) assms(10,11,8,9,12-14)] show ?thesis by simp
qed

text \<open>
  A request that is no CONNECT and names no host makes the handler index an empty string, once a
  \<open>Proxy-Connection\<close> header has taken it past the check for the home page.
\<close>

theorem missing_host_panics:
  assumes "Method req \<noteq> ''CONNECT''" "rq_Host req = []" "Header_Get (rq_Header req) ''Proxy-Connection'' \<noteq> []"
  shows "readRequest e req s = (Panic, s)"
proof -
  have "splitHostPort [] = Err ErrMissingPort" by code_simp
  then have "parseHostPort req = Panic" using assms(1,2) by (simp add: parseHostPort_def index_go_def Let_def)
  then show ?thesis using assms(3) by (simp add: readRequest_def handleHomeAccess_def bindP_apply)
qed

section \<open>Forwarded headers\<close>

lemma Header_Values_fold_Del:
  "Header_Values (fold Header_Del ks h) k = (if header_key k \<in> header_key ` set ks then [] else Header_Values h k)"
proof (induction ks arbitrary: h)
  case (Cons k' ks)
  have "Header_Values (Header_Del k' h) k = (if header_key k = header_key k' then [] else Header_Values h k)"
    by (simp add: Header_Values_Del) (simp add: Header_Values_def Header_Del_def filter_empty_conv split: prod.splits)
  then show ?case using Cons.IH [of "Header_Del k' h"] by auto
qed simp

text \<open>
  A forwarded request has none of the hop-by-hop headers, the credentials for the proxy among them,
  and every other header unchanged.
\<close>

theorem hop_by_hop_removed:
  "Header_Values (RemoveHopByHopRequestHeaders h) k = (if header_key k \<in> set hopByHopHeaders then [] else Header_Values h k)"
proof -
  have "map header_key hopByHopHeaders = hopByHopHeaders" by code_simp
  then have "header_key ` set hopByHopHeaders = set hopByHopHeaders" by (metis set_map)
  then show ?thesis by (simp only: RemoveHopByHopRequestHeaders_def Header_Values_fold_Del)
qed

section \<open>The mixed server\<close>

text \<open>A buffered reader delivers the same stream as the reader below it.\<close>

interpretation bufio: byte_reader bufio_Read "\<lambda>s p. fst s @ concat (snd s) = p \<and> [] \<notin> set (snd s)"
proof
  fix s :: bufr and k :: nat
  assume "fst s @ concat (snd s) = [] \<and> [] \<notin> set (snd s)" "0 < k"
  then have "fst s = []" "snd s = []" by (cases "snd s"; auto)+
  then show "\<exists>s'. bufio_Read k s = (Err EOF, s')" by (cases s) (simp add: bufio_Read_def)
next
  fix s :: bufr and p and k :: nat
  assume a: "fst s @ concat (snd s) = p \<and> [] \<notin> set (snd s)" "p \<noteq> []" "0 < k"
  obtain b r where s: "s = (b, r)" by (cases s)
  show "\<exists>x q s'. bufio_Read k s = (Ret x, s') \<and> x \<noteq> [] \<and> length x \<le> k \<and> p = x @ q \<and> fst s' @ concat (snd s') = q \<and> [] \<notin> set (snd s')"
  proof (cases "b = []")
    case True
    then obtain c cs where r: "r = c # cs" "c \<noteq> []" "[] \<notin> set cs" using a s by (cases r) auto
    have "c = take k c @ drop k (take n c) @ drop n c" if "k \<le> n" for n
      using that by (metis append_assoc append_take_drop_id min.absorb1 take_take)
    then show ?thesis using a True s r by (auto simp: bufio_Read_def bufSize_def min_def)
  next
    case False
    have "p = take k b @ drop k b @ concat r" using a(1) s by (metis append.assoc append_take_drop_id fst_conv snd_conv)
    then show ?thesis using a False s by (auto simp: bufio_Read_def)
  qed
qed

text \<open>
  The mixed server sends a connection whose first byte is the SOCKS version to the SOCKS server and every
  other one to the HTTP server, and the handler reads the whole stream, the first byte included; a connection
  that ends before its first byte is closed.
\<close>

theorem mixed_server_dispatch:
  assumes "[] \<notin> set (inp c)"
  shows "case concat (inp c) of
      [] \<Rightarrow> fst (handleTCPConn c) = Ret MixClosed
    | x # _ \<Rightarrow> (\<exists>c'. handleTCPConn c = (Ret (if x = 5 then MixSocks else MixHttp), c') \<and> concat (inp c') = concat (inp c)
        \<and> out c' = out c \<and> [] \<notin> set (inp c'))"
proof (cases "concat (inp c)")
  case Nil
  then have "inp c = []" using assms by (cases "inp c") auto
  moreover have "fill (Suc i) ([], []) = (Err EOF, ([], []))" for i by simp
  from this [of 99] have "fill 100 ([], []) = (Err EOF, ([], []))" by (simp only: Suc_numeral semiring_norm)
  ultimately show ?thesis using Nil by (simp add: handleTCPConn_def Peek1_def)
next
  case (Cons x xs)
  have "concat (inp c) \<noteq> []" "length ([] :: bytes) < bufSize" using Cons by (simp_all add: bufSize_def)
  then obtain y r' where "fill (Suc 99) ([], inp c @ []) = (Ret (), ([] @ y, r' @ []))" "y \<noteq> []" "concat (inp c) = y @ concat r'" "[] \<notin> set r'"
    using fill_some [OF _ assms, of "[]" 99 "[]"] by blast
  moreover have "Suc 99 = 100" by simp
  ultimately have f: "fill 100 ([], inp c) = (Ret (), (y, r'))" and y: "y \<noteq> []" "concat (inp c) = y @ concat r'" "[] \<notin> set r'"
    by (simp_all only: append_Nil append_Nil2 simp_thms)
  obtain y' where "y = x # y'" using y(1,2) Cons by (cases y) auto
  then show ?thesis using f y Cons by (simp add: handleTCPConn_def Peek1_def Let_def)
qed

section \<open>A request\<close>

definition http_demo_env :: "Auth option \<Rightarrow> henv" where
  "http_demo_env a = \<lparr>h_auth = a, h_mitm = None, h_renv = no_geo,
     h_parseURI = (\<lambda>s. if s = ''http://a.org:443'' then Some \<lparr>u_Scheme = ''http'', u_Host = ''a.org:443'', u_Path = []\<rparr> else None),
     h_open = (\<lambda>_. None), h_response = (\<lambda>n h b. b), h_request = (\<lambda>req b. ([], b))\<rparr>"

definition http_demo_entries :: Header where
  "http_demo_entries = [(''host'', ''a.org:443''), (''Proxy-Authorization'', ''Basic dTpwdw=='')]"

definition http_demo_state :: "bytes list \<Rightarrow> hstate" where
  "http_demo_state i = \<lparr>hp_conn = \<lparr>inp = i, out = [], wfail = False\<rparr>,
     hp_ruler = \<lparr>mode = Global, matched = None, MS = [], DirectTo = [], GlobalTo = ''n1''\<rparr>\<rparr>"

lemma http_demo_facts:
  "plain_head http_demo_entries" "cred_ok (Some (''u'', ''pw'')) (http_demo_env (NewAuth ''u'' ''pw'')) http_demo_entries"
  "CHR '' '' \<notin> set ''a.org:443''" "line_ok ''a.org:443''" "\<not> hasPrefix ''a.org:443'' ''/''"
  "h_parseURI (http_demo_env x) (''http://'' @ ''a.org:443'') = Some \<lparr>u_Scheme = ''http'', u_Host = ''a.org:443'', u_Path = []\<rparr>"
  "splitHostPort ''a.org:443'' = Ret (''a.org'', ''443'')" "''443'' \<noteq> []" "h_mitm (http_demo_env x) = None" "\<not> wfail (hp_conn (http_demo_state i))"
proof -
  have "sent_auth http_demo_entries = basic_auth ''u'' ''pw''" by code_simp
  then show "cred_ok (Some (''u'', ''pw'')) (http_demo_env (NewAuth ''u'' ''pw'')) http_demo_entries" by (simp add: http_demo_env_def)
  show "plain_head http_demo_entries" "splitHostPort ''a.org:443'' = Ret (''a.org'', ''443'')" by code_simp+
qed (simp_all add: http_demo_env_def http_demo_state_def line_ok_def)

definition http_demo_ruler :: Ruler where
  "http_demo_ruler = fst (snd (Ruler_Match no_geo (hp_ruler (http_demo_state [])) ''a.org''))"

lemma http_demo_match:
  "Ruler_Match (h_renv (http_demo_env x)) (hp_ruler (http_demo_state i)) ''a.org'' = (Ret True, http_demo_ruler, ''a.org'')"
  "Ruler_Select http_demo_ruler = Ret ''n1''"
  by (simp_all add: http_demo_ruler_def http_demo_env_def http_demo_state_def Ruler_Match_def Ruler_Select_def)


theorem http_proxy_requires_credentials_witness:
  "\<exists>x s' req b data p' found. http_ServeTCP (http_demo_env (NewAuth ''u'' ''pw'')) (http_demo_state [connect_head ''a.org:443'' http_demo_entries]) = (Ret x, s')
     \<and> (\<nexists>err. x = HFailed err)
     \<and> ReadRequest (h_parseURI (http_demo_env (NewAuth ''u'' ''pw''))) ([], [connect_head ''a.org:443'' http_demo_entries]) = (Ret req, b)
     \<and> DecodeString (let h = Header_Get (rq_Header req) ''Proxy-Authorization'' in if hasPrefix h ''Basic '' then drop 6 h else h) = Ret data
     \<and> cut_chr (CHR '':'') (string_of data) = (''u'', p', found) \<and> p' = ''pw''"
proof -
  let ?h = "connect_head ''a.org:443'' http_demo_entries" and ?e = "http_demo_env (NewAuth ''u'' ''pw'')"
  have h: "[] @ concat [?h] = ?h @ []" "[] \<notin> set [?h]" by (simp_all add: connect_head_def crlf_line_def)
  obtain req b hs where r: "ReadRequest (h_parseURI ?e) ([], [?h] @ []) = (Ret req, (b, hs @ []))"
    "Method req = ''CONNECT''" "RequestURI req = ''a.org:443''" "Header_Get (rq_Header req) ''Proxy-Authorization'' = sent_auth http_demo_entries"
    using read_connect [where parseURI = "h_parseURI ?e" and ts = "[]", OF h http_demo_facts(1) http_demo_facts(3-5) http_demo_facts(6)] by metis
  have "ReadRequest (h_parseURI ?e) ([], inp (hp_conn (http_demo_state [?h]))) = (Ret req, (b, hs))"
    using r(1) by (simp add: http_demo_state_def)
  from serve_connect [OF this r(2-4) http_demo_facts(2) http_demo_facts(9) http_demo_facts(7,8) http_demo_facts(10) http_demo_match]
  obtain ctx s' where s: "http_ServeTCP ?e (http_demo_state [?h]) = (Ret (HRelay ''n1'' ctx), s')" by blast
  have "NewAuth ''u'' ''pw'' = Some \<lparr>auth_info = (''u'', Some ''pw'')\<rparr>" by (simp add: NewAuth_def)
  from http_proxy_requires_credentials [OF this _ s] this s show ?thesis
    by (simp add: http_demo_env_def http_demo_state_def)
qed

theorem mixed_server_dispatch_witness:
  "\<exists>c'. handleTCPConn \<lparr>inp = [[5, 1], [0]], out = [], wfail = False\<rparr> = (Ret MixSocks, c') \<and> concat (inp c') = [5, 1, 0]"
  using mixed_server_dispatch [of "\<lparr>inp = [[5, 1], [0]], out = [], wfail = False\<rparr>"] by auto

end
