(* ===== verification/Transport.thy ===== *)
theory Transport
  imports Options
begin

text \<open>
  The package \<open>transport\<close>: which dialer a transport gets, the race of the two address families when an outbound
  interface is set, and the pool of connections that the QUIC and SSH dialers share.
\<close>

section \<open>Dialers (transport/dialer.go)\<close>

fun Type_String :: "Type \<Rightarrow> string" where
  "Type_String Tcp = ''tcp''"
| "Type_String Quic = ''quic''"
| "Type_String Websocket = ''websocket''"
| "Type_String Obfs = ''obfs''"
| "Type_String Grpc = ''grpc''"
| "Type_String Ssh = ''ssh''"

datatype Dialer = TcpDialer | WsDialer WsOptions | QuicDialer QuicOptions | GrpcDialer GrpcOptions | SshDialer SshOptions | ObfsDialer ObfsOptions

text \<open>Every constructor but the one of TCP asserts the type of its options and panics when they have another.\<close>

definition NewDialer :: "Type \<Rightarrow> Options \<Rightarrow> Dialer go" where
  "NewDialer tr opt = (case tr of
     Tcp \<Rightarrow> Ret TcpDialer
   | Websocket \<Rightarrow> (case opt of OptWs x \<Rightarrow> Ret (WsDialer x) | _ \<Rightarrow> Panic)
   | Quic \<Rightarrow> (case opt of OptQuic x \<Rightarrow> Ret (QuicDialer x) | _ \<Rightarrow> Panic)
   | Grpc \<Rightarrow> (case opt of OptGrpc x \<Rightarrow> Ret (GrpcDialer x) | _ \<Rightarrow> Panic)
   | Ssh \<Rightarrow> (case opt of OptSsh x \<Rightarrow> Ret (SshDialer x) | _ \<Rightarrow> Panic)
   | Obfs \<Rightarrow> (case opt of OptObfs x \<Rightarrow> Ret (ObfsDialer x) | _ \<Rightarrow> Panic))"

section \<open>The race of the address families (transport/tcp_dialer.go)\<close>

text \<open>
  \<open>dualStackDialContext\<close> starts a racer for IPv4 and one for IPv6 and receives their results over an unbuffered channel. When it has returned, the channel
  \<open>returned\<close> is closed, and a racer that still has a connection closes it. Connections are numbers; \<open>rc_open\<close> are
  those that were opened and not closed, \<open>rc_outcome\<close> is what the dialling of each racer gave.
\<close>

datatype family = V4 | V6

datatype racer = Dialing | Dialed "nat go" | Delivered | Dropped

datatype race_main = Waiting "error option" "error option" | Returned "nat go"

record race =
  rc_racer :: "family \<Rightarrow> racer"
  rc_main :: race_main
  rc_open :: "nat set"
  rc_outcome :: "family \<Rightarrow> nat go option"

definition race_start :: race where
  "race_start = \<lparr>rc_racer = (\<lambda>_. Dialing), rc_main = Waiting None None, rc_open = {}, rc_outcome = (\<lambda>_. None)\<rparr>"

text \<open>What the loop does with a result: the first connection wins, two failures give the error of IPv4.\<close>

fun race_receive :: "family \<Rightarrow> nat go \<Rightarrow> error option \<Rightarrow> error option \<Rightarrow> race_main" where
  "race_receive v (Ret c) primary fallback = Returned (Ret c)"
| "race_receive v (Err e) primary fallback =
     (let p = (if v = V6 then primary else Some e); f = (if v = V6 then Some e else fallback) in
      case (p, f) of (Some e4, Some _) \<Rightarrow> Returned (Err e4) | _ \<Rightarrow> Waiting p f)"
| "race_receive v Panic primary fallback = Returned Panic"

inductive race_step :: "race \<Rightarrow> race \<Rightarrow> bool" where
  dial_ok: "rc_racer s v = Dialing \<Longrightarrow> c \<notin> rc_open s \<Longrightarrow>
    race_step s (s\<lparr>rc_racer := (rc_racer s)(v := Dialed (Ret c)), rc_open := insert c (rc_open s), rc_outcome := (rc_outcome s)(v \<mapsto> Ret c)\<rparr>)"
| dial_err: "rc_racer s v = Dialing \<Longrightarrow>
    race_step s (s\<lparr>rc_racer := (rc_racer s)(v := Dialed (Err e)), rc_outcome := (rc_outcome s)(v \<mapsto> Err e)\<rparr>)"
| deliver: "rc_racer s v = Dialed x \<Longrightarrow> rc_main s = Waiting p f \<Longrightarrow>
    race_step s (s\<lparr>rc_racer := (rc_racer s)(v := Delivered), rc_main := race_receive v x p f\<rparr>)"
| drop_conn: "rc_racer s v = Dialed (Ret c) \<Longrightarrow> rc_main s = Returned y \<Longrightarrow>
    race_step s (s\<lparr>rc_racer := (rc_racer s)(v := Dropped), rc_open := rc_open s - {c}\<rparr>)"
| drop_err: "rc_racer s v = Dialed (Err e) \<Longrightarrow> rc_main s = Returned y \<Longrightarrow>
    race_step s (s\<lparr>rc_racer := (rc_racer s)(v := Dropped)\<rparr>)"

inductive_cases race_stepE: "race_step s s'"

text \<open>
  In every reachable state the open connections are those the racers still hold and the one that was returned,
  and these are different; what the loop remembers are the failures of the racers it has heard.
\<close>

fun held :: "racer \<Rightarrow> nat set" where
  "held (Dialed (Ret c)) = {c}"
| "held _ = {}"

fun won :: "race_main \<Rightarrow> nat set" where
  "won (Returned (Ret c)) = {c}"
| "won _ = {}"

fun heard :: "racer \<Rightarrow> bool" where
  "heard Delivered = True"
| "heard Dropped = True"
| "heard _ = False"

definition race_owned :: "race \<Rightarrow> bool" where
  "race_owned s \<longleftrightarrow> (let h4 = held (rc_racer s V4); h6 = held (rc_racer s V6); w = won (rc_main s) in
     rc_open s = h4 \<union> h6 \<union> w \<and> h4 \<inter> h6 = {} \<and> h4 \<inter> w = {} \<and> h6 \<inter> w = {})"

definition race_outcomes :: "race \<Rightarrow> bool" where
  "race_outcomes s \<longleftrightarrow> (\<forall>v x. rc_racer s v = Dialed x \<longrightarrow> x \<noteq> Panic \<and> rc_outcome s v = Some x)"

fun heard_of :: "race \<Rightarrow> family \<Rightarrow> error option \<Rightarrow> bool" where
  "heard_of s v None = (\<not> heard (rc_racer s v))"
| "heard_of s v (Some e) = (heard (rc_racer s v) \<and> rc_outcome s v = Some (Err e))"

definition race_result :: "race \<Rightarrow> bool" where
  "race_result s \<longleftrightarrow> (case rc_main s of
     Waiting p f \<Rightarrow> heard_of s V4 p \<and> heard_of s V6 f \<and> (p = None \<or> f = None)
   | Returned (Ret c) \<Rightarrow> (\<exists>v. heard (rc_racer s v) \<and> rc_outcome s v = Some (Ret c))
   | Returned (Err e) \<Rightarrow> heard_of s V4 (Some e) \<and> (\<exists>e'. heard_of s V6 (Some e'))
   | Returned Panic \<Rightarrow> False)"

lemma won_receive: "won (race_receive v x p f) = held (Dialed x)"
  by (cases x) (auto simp: Let_def split: option.splits)

lemma race_owned_step: "race_step s s' \<Longrightarrow> race_owned s \<Longrightarrow> race_owned s'"
proof (induction rule: race_step.induct)
  case (deliver s v x p f)
  then show ?case by (cases v) (auto simp: race_owned_def won_receive Let_def)
next
  case (drop_conn s v c y)
  then show ?case by (cases v) (auto simp: race_owned_def Let_def)
next
  case (dial_ok s v c)
  then show ?case by (cases v) (auto simp: race_owned_def Let_def)
next
  case (dial_err s v e)
  then show ?case by (cases v) (simp_all add: race_owned_def Let_def)
next
  case (drop_err s v e y)
  then show ?case by (cases v) (simp_all add: race_owned_def Let_def)
qed

lemma race_outcomes_step: "race_step s s' \<Longrightarrow> race_outcomes s \<Longrightarrow> race_outcomes s'"
  by (induction rule: race_step.induct) (auto simp: race_outcomes_def)

text \<open>Only what the loop has heard matters for its result.\<close>

lemma race_result_mono:
  assumes "race_result s" "rc_main s' = rc_main s"
    and "\<And>v. heard (rc_racer s v) \<Longrightarrow> heard (rc_racer s' v) \<and> rc_outcome s' v = rc_outcome s v"
    and "\<And>v p f. rc_main s = Waiting p f \<Longrightarrow> heard (rc_racer s' v) = heard (rc_racer s v)"
  shows "race_result s'"
proof (cases "rc_main s")
  case (Waiting p f)
  have "heard_of s' v x" if "heard_of s v x" for v x
    using that assms(3) [of v] assms(4) [OF Waiting, of v] by (cases x) auto
  then show ?thesis using assms(1,2) Waiting by (auto simp: race_result_def)
next
  case (Returned y)
  have h: "heard_of s' v (Some e)" if "heard_of s v (Some e)" for v e using that assms(3) [of v] by simp
  show ?thesis
  proof (cases y)
    case (Ret c)
    then obtain v where "heard (rc_racer s v)" "rc_outcome s v = Some (Ret c)" using assms(1) Returned by (auto simp: race_result_def)
    then have "heard (rc_racer s' v) \<and> rc_outcome s' v = Some (Ret c)" using assms(3) [of v] by simp
    then show ?thesis using assms(2) Returned Ret by (auto simp: race_result_def)
  next
    case (Err e)
    then show ?thesis using assms(1,2) Returned h [of V4 e] h [of V6] by (fastforce simp: race_result_def)
  qed (use assms(1) Returned in \<open>simp add: race_result_def\<close>)
qed

lemma race_result_step: "race_step s s' \<Longrightarrow> race_outcomes s \<Longrightarrow> race_result s \<Longrightarrow> race_result s'"
proof (induction rule: race_step.induct)
  case (deliver s v x p f)
  then have o: "x \<noteq> Panic" "rc_outcome s v = Some x" by (auto simp: race_outcomes_def)
  have h: "heard_of s V4 p" "heard_of s V6 f" using deliver by (auto simp: race_result_def)
  have n: "\<not> heard (rc_racer s v)" using deliver(1) by simp
  show ?case
  proof (cases x)
    case (Err e)
    then show ?thesis using o h n by (cases v; cases p; cases f) (auto simp: race_result_def Let_def)
  next
    case (Ret c)
    then show ?thesis using o(2) by (auto simp: race_result_def)
  qed (use o in simp)
next
  case (dial_ok s v c)
  have "heard (rc_racer s w) \<Longrightarrow> w \<noteq> v" for w using dial_ok(1) by auto
  then show ?case by (intro race_result_mono [OF dial_ok(4)]) (use dial_ok(1) in \<open>simp_all\<close>)
next
  case (dial_err s v e)
  have "heard (rc_racer s w) \<Longrightarrow> w \<noteq> v" for w using dial_err(1) by auto
  then show ?case by (intro race_result_mono [OF dial_err(3)]) (use dial_err(1) in \<open>simp_all\<close>)
next
  case (drop_conn s v c y)
  have "heard (rc_racer s w) \<Longrightarrow> w \<noteq> v" for w using drop_conn(1) by auto
  then show ?case by (intro race_result_mono [OF drop_conn(4)]) (use drop_conn(1,2) in \<open>simp_all\<close>)
next
  case (drop_err s v e y)
  have "heard (rc_racer s w) \<Longrightarrow> w \<noteq> v" for w using drop_err(1) by auto
  then show ?case by (intro race_result_mono [OF drop_err(4)]) (use drop_err(1,2) in \<open>simp_all\<close>)
qed

definition race_inv :: "race \<Rightarrow> bool" where
  "race_inv s \<longleftrightarrow> race_owned s \<and> race_outcomes s \<and> race_result s"

lemma race_inv_start: "race_inv race_start"
  by (simp add: race_inv_def race_start_def race_owned_def race_outcomes_def race_result_def)

lemma race_inv_step: "race_step s s' \<Longrightarrow> race_inv s \<Longrightarrow> race_inv s'"
  using race_owned_step race_outcomes_step race_result_step by (simp add: race_inv_def)

text \<open>Steps that are left: two for a racer that dials, one for a racer with a result.\<close>

fun racer_left :: "racer \<Rightarrow> nat" where
  "racer_left Dialing = 2"
| "racer_left (Dialed _) = 1"
| "racer_left _ = 0"

lemma racer_left_held: "racer_left r = 0 \<Longrightarrow> held r = {}"
  by (cases r) simp_all

lemma racer_left_heard: "racer_left r = 0 \<Longrightarrow> heard r"
  by (cases r) simp_all

definition race_left :: "race \<Rightarrow> nat" where
  "race_left s = racer_left (rc_racer s V4) + racer_left (rc_racer s V6)"

lemma race_left_step: "race_step s s' \<Longrightarrow> Suc (race_left s') = race_left s"
proof (induction rule: race_step.induct)
  case (dial_ok s v c) then show ?case by (cases v) (simp_all add: race_left_def)
next
  case (dial_err s v e) then show ?case by (cases v) (simp_all add: race_left_def)
next
  case (deliver s v x p f) then show ?case by (cases v) (simp_all add: race_left_def)
next
  case (drop_conn s v c y) then show ?case by (cases v) (simp_all add: race_left_def)
next
  case (drop_err s v e y) then show ?case by (cases v) (simp_all add: race_left_def)
qed

lemma race_run:
  assumes "(race_step ^^ n) race_start s"
  shows "race_inv s \<and> n + race_left s = 4"
  using assms
proof (induction n arbitrary: s)
  case (Suc n)
  then obtain t where t: "(race_step ^^ n) race_start t" "race_step t s" by auto
  then show ?case using Suc.IH [OF t(1)] race_inv_step [OF t(2)] race_left_step [OF t(2)] by simp
qed (simp add: race_inv_start, simp add: race_left_def race_start_def)

text \<open>A racer that is not done can do its next step.\<close>

lemma race_progress:
  assumes "race_inv s" "racer_left (rc_racer s v) \<noteq> 0"
  shows "\<exists>s'. race_step s s'"
proof (cases "rc_racer s v")
  case Dialing
  then show ?thesis using dial_err by blast
next
  case (Dialed x)
  show ?thesis
  proof (cases "rc_main s")
    case (Waiting p f)
    then show ?thesis using deliver [OF Dialed] by blast
  next
    case (Returned y)
    have "x \<noteq> Panic" using assms(1) Dialed by (auto simp: race_inv_def race_outcomes_def)
    then show ?thesis using drop_conn [OF _ Returned] drop_err [OF _ Returned] Dialed by (cases x) blast+
  qed
qed (use assms in simp_all)

text \<open>
  C31. The race of the address families ends after at most four steps, in every interleaving. A connection it
  returns was dialled by one of the two racers and is open; it fails only when both of them failed, with the
  error of IPv4. When nothing is left to do it has returned, and no connection is open but the returned one.
\<close>

theorem dual_stack_race:
  assumes "(race_step ^^ n) race_start s"
  shows "n \<le> 4 \<and> (case rc_main s of
       Waiting p f \<Rightarrow> \<exists>s'. race_step s s'
     | Returned (Ret c) \<Rightarrow> (\<exists>v. rc_outcome s v = Some (Ret c)) \<and> c \<in> rc_open s
     | Returned (Err e) \<Rightarrow> rc_outcome s V4 = Some (Err e) \<and> (\<exists>e'. rc_outcome s V6 = Some (Err e'))
     | Returned Panic \<Rightarrow> False)
   \<and> ((\<nexists>s'. race_step s s') \<longrightarrow> (\<exists>y. rc_main s = Returned y \<and> rc_open s = (case y of Ret c \<Rightarrow> {c} | _ \<Rightarrow> {})))"
proof -
  have inv: "race_owned s" "race_outcomes s" "race_result s" "race_inv s" and n: "n + race_left s = 4"
    using race_run [OF assms] by (simp_all add: race_inv_def)
  have w: "\<exists>s'. race_step s s'" if "rc_main s = Waiting p f" for p f
  proof (rule ccontr)
    assume "\<nexists>s'. race_step s s'"
    then have "racer_left (rc_racer s v) = 0" for v using race_progress [OF inv(4)] by blast
    then have "heard (rc_racer s v)" for v by (rule racer_left_heard)
    then show False using inv(3) that by (cases p; cases f) (auto simp: race_result_def)
  qed
  have fin: "\<exists>y. rc_main s = Returned y \<and> rc_open s = (case y of Ret c \<Rightarrow> {c} | _ \<Rightarrow> {})" if stuck: "\<nexists>s'. race_step s s'"
  proof -
    have "racer_left (rc_racer s v) = 0" for v using race_progress [OF inv(4)] stuck by blast
    then have "held (rc_racer s v) = {}" for v by (rule racer_left_held)
    moreover obtain y where "rc_main s = Returned y" using w stuck by (cases "rc_main s") auto
    ultimately show ?thesis using inv(1) by (cases y) (auto simp: race_owned_def Let_def)
  qed
  show ?thesis
  proof (cases "rc_main s")
    case (Waiting p f)
    then show ?thesis using w fin n by simp
  next
    case (Returned y)
    then show ?thesis using inv n fin by (cases y) (auto simp: race_result_def race_owned_def Let_def)
  qed
qed

theorem dual_stack_race_witness:
  "\<exists>s. (race_step ^^ 4) race_start s \<and> rc_main s = Returned (Ret 7) \<and> rc_open s = {7}"
proof -
  define s1 where "s1 = race_start\<lparr>rc_racer := (rc_racer race_start)(V6 := Dialed (Ret 7)), rc_open := insert 7 (rc_open race_start), rc_outcome := (rc_outcome race_start)(V6 \<mapsto> Ret 7)\<rparr>"
  define s2 where "s2 = s1\<lparr>rc_racer := (rc_racer s1)(V4 := Dialed (Ret 8)), rc_open := insert 8 (rc_open s1), rc_outcome := (rc_outcome s1)(V4 \<mapsto> Ret 8)\<rparr>"
  define s3 where "s3 = s2\<lparr>rc_racer := (rc_racer s2)(V6 := Delivered), rc_main := race_receive V6 (Ret 7) None None\<rparr>"
  define s4 where "s4 = s3\<lparr>rc_racer := (rc_racer s3)(V4 := Dropped), rc_open := rc_open s3 - {8}\<rparr>"
  have "race_step race_start s1" unfolding s1_def by (rule dial_ok) (simp_all add: race_start_def)
  moreover have "race_step s1 s2" unfolding s2_def by (rule dial_ok) (simp_all add: s1_def race_start_def)
  moreover have "race_step s2 s3" unfolding s3_def by (rule deliver) (simp_all add: s2_def s1_def race_start_def)
  moreover have "race_step s3 s4" unfolding s4_def by (rule drop_conn) (simp_all add: s3_def s2_def s1_def race_start_def)
  ultimately have run: "(race_step ^^ 4) race_start s4" by (auto simp: numeral_eq_Suc)
  have m: "rc_main s4 = Returned (Ret 7)" by (simp add: s4_def s3_def)
  have "\<nexists>s'. race_step s4 s'" using race_run [OF run] race_left_step by fastforce
  then show ?thesis using dual_stack_race [OF run] run m by auto
qed

text \<open>
  \<open>tcpDialer.Dial\<close>: without an outbound interface the resolved address is dialled, otherwise the two families race.
\<close>

definition tcpDialer_Dial :: "string \<Rightarrow> (string \<Rightarrow> string go) \<Rightarrow> (string \<Rightarrow> nat go) \<Rightarrow> (string \<Rightarrow> nat go) \<Rightarrow> string \<Rightarrow> nat go" where
  "tcpDialer_Dial iface resolve dial raced addr =
     (if iface = [] then bind_go (resolve addr) dial else bind_go (splitHostPort addr) (\<lambda>_. raced addr))"

section \<open>The connection pool (transport/conn_pool.go)\<close>

text \<open>
  A slot holds a connection and whether it is still usable. \<open>cp_draws\<close> are the numbers \<open>rdIdx\<close> gives to the random
  policy. Concurrent dials of one slot are collapsed into one by \<open>singleflight\<close>, so calls are taken one after another.
\<close>

datatype policy = Roundrobin | Random

record 'c connPool =
  cp_index :: nat
  cp_size :: nat
  cp_policy :: policy
  cp_draws :: "nat \<Rightarrow> nat"
  cp_conns :: "('c \<times> bool) option list"

definition newConnPool :: "(nat \<Rightarrow> nat) \<Rightarrow> int \<Rightarrow> 'c connPool" where
  "newConnPool rdIdx sz = (let n = (if sz \<le> 0 then 3 else nat sz) in
     \<lparr>cp_index = 0, cp_size = n, cp_policy = Roundrobin, cp_draws = rdIdx, cp_conns = replicate n None\<rparr>)"

definition selIndex :: "nat \<Rightarrow> 'c connPool \<Rightarrow> 'c connPool" where
  "selIndex index p = (if cp_policy p = Roundrobin then p\<lparr>cp_index := (index + 1) mod cp_size p\<rparr>
     else p\<lparr>cp_index := cp_draws p 0 mod cp_size p, cp_draws := (\<lambda>i. cp_draws p (Suc i))\<rparr>)"

text \<open>\<open>close\<close> calls its argument on the connection of the slot; the model returns that connection.\<close>

definition connPool_close :: "nat \<Rightarrow> 'c connPool \<Rightarrow> 'c option \<times> 'c connPool" where
  "connPool_close index p = (if cp_size p \<le> index then (None, p)
     else case cp_conns p ! index of None \<Rightarrow> (None, p)
     | Some (c, _) \<Rightarrow> (Some c, p\<lparr>cp_conns := (cp_conns p)[index := Some (c, False)]\<rparr>))"

text \<open>
  A dial either answers, or the context of the caller ends first: then the caller gets the error of the context, and
  what the dial gives afterwards still goes into the slot.
\<close>

datatype 'c dialed = Answer "'c go" | CtxDone error "'c go"

fun dial_value :: "'c dialed \<Rightarrow> 'c go" where
  "dial_value (Answer r) = r"
| "dial_value (CtxDone e r) = r"

definition getConnWithIndex :: "nat \<Rightarrow> bool \<Rightarrow> (nat \<Rightarrow> 'c dialed) \<Rightarrow> 'c connPool \<Rightarrow> 'c option go \<times> 'c connPool" where
  "getConnWithIndex index reselect dialFn p = (if cp_size p \<le> index then (Ret None, p)
     else let r = dialFn index;
       p' = (case dial_value r of
           Ret c \<Rightarrow> (let p1 = p\<lparr>cp_conns := (cp_conns p)[index := Some (c, True)]\<rparr> in if reselect then selIndex index p1 else p1)
         | _ \<Rightarrow> p)
       in (case r of CtxDone e _ \<Rightarrow> Err e | Answer x \<Rightarrow> bind_go x (\<lambda>c. Ret (Some c)), p'))"

definition getConn :: "(nat \<Rightarrow> 'c dialed) \<Rightarrow> 'c connPool \<Rightarrow> 'c option go \<times> 'c connPool" where
  "getConn dialFn p = (case cp_conns p ! cp_index p of
     Some (c, True) \<Rightarrow> (Ret (Some c), selIndex (cp_index p) p)
   | _ \<Rightarrow> getConnWithIndex (cp_index p) True dialFn p)"

section \<open>Streams over pooled connections (transport/quic_dialer.go, transport/ssh_dialer.go)\<close>

record 'q client =
  cl_addr :: string
  cl_idx :: nat
  cl_conn :: 'q

definition dial_client :: "(string \<Rightarrow> 'q dialed) \<Rightarrow> string \<Rightarrow> nat \<Rightarrow> 'q client dialed" where
  "dial_client dial addr idx = map_dialed (\<lambda>q. \<lparr>cl_addr = addr, cl_idx = idx, cl_conn = q\<rparr>) (dial addr)"

text \<open>
  The loop of \<open>quicDialer.openStreamConn\<close> and of \<open>sshDialer.dial\<close>: a connection on which no stream can be opened is
  closed and its slot dialled again, as often as the first argument says. \<open>pick\<close> is the closing function, which gets
  the connection of the caller and the one in the slot; the last component of the result are the closed connections.
\<close>

fun open_loop :: "nat \<Rightarrow> ('q client \<Rightarrow> 'q client \<Rightarrow> 'q client) \<Rightarrow> ('q client \<Rightarrow> 's go) \<Rightarrow> (string \<Rightarrow> 'q dialed) \<Rightarrow> 'q client
    \<Rightarrow> 'q client connPool \<Rightarrow> 's go \<times> 'q client connPool \<times> 'q client list" where
  "open_loop k pick opn dial c p = (case opn c of
     Ret st \<Rightarrow> (Ret st, p, [])
   | Panic \<Rightarrow> (Panic, p, [])
   | Err e \<Rightarrow> (case k of
       0 \<Rightarrow> (Err e, p, [])
     | Suc j \<Rightarrow> (case connPool_close (cl_idx c) p of (slot, p1) \<Rightarrow>
         let cl = map (pick c) (case slot of None \<Rightarrow> [] | Some x \<Rightarrow> [x]) in
         case getConnWithIndex (cl_idx c) False (dial_client dial (cl_addr c)) p1 of
           (Ret (Some c'), p2) \<Rightarrow> (case open_loop j pick opn dial c' p2 of (r, p3, cl') \<Rightarrow> (r, p3, cl @ cl'))
         | (Ret None, p2) \<Rightarrow> (Panic, p2, cl)
         | (Err e', p2) \<Rightarrow> (Err e', p2, cl)
         | (Panic, p2) \<Rightarrow> (Panic, p2, cl))))"

definition quic_openStreamConn :: "('q client \<Rightarrow> 's go) \<Rightarrow> (string \<Rightarrow> 'q dialed) \<Rightarrow> 'q client \<Rightarrow> 'q client connPool \<Rightarrow> 's go \<times> 'q client connPool \<times> 'q client list" where
  "quic_openStreamConn = open_loop 1 (\<lambda>conn qc. conn)"

definition ssh_dial :: "('q client \<Rightarrow> 's go) \<Rightarrow> (string \<Rightarrow> 'q dialed) \<Rightarrow> 'q client \<Rightarrow> 'q client connPool \<Rightarrow> 's go \<times> 'q client connPool \<times> 'q client list" where
  "ssh_dial = open_loop 1 (\<lambda>conn sc. sc)"

definition dial_pooled :: "('q client \<Rightarrow> 'q client connPool \<Rightarrow> 's go \<times> 'q client connPool \<times> 'q client list) \<Rightarrow> (string \<Rightarrow> 'q dialed) \<Rightarrow> string
    \<Rightarrow> 'q client connPool \<Rightarrow> 's go \<times> 'q client connPool \<times> 'q client list" where
  "dial_pooled stream dial addr p = (case getConn (dial_client dial addr) p of
     (Ret (Some c), p1) \<Rightarrow> stream c p1
   | (Ret None, p1) \<Rightarrow> (Panic, p1, [])
   | (Err e, p1) \<Rightarrow> (Err e, p1, [])
   | (Panic, p1) \<Rightarrow> (Panic, p1, []))"

text \<open>\<open>Dial\<close>; \<open>derr\<close> is the error that building the dialer left.\<close>

definition quicDialer_Dial :: "error option \<Rightarrow> ('q client \<Rightarrow> 's go) \<Rightarrow> (string \<Rightarrow> 'q dialed) \<Rightarrow> string \<Rightarrow> 'q client connPool \<Rightarrow> 's go \<times> 'q client connPool \<times> 'q client list" where
  "quicDialer_Dial derr opn dial addr p = (case derr of Some e \<Rightarrow> (Err e, p, []) | None \<Rightarrow> dial_pooled (quic_openStreamConn opn dial) dial addr p)"

definition sshDialer_Dial :: "SshOptions \<Rightarrow> error option \<Rightarrow> ('q client \<Rightarrow> 's go) \<Rightarrow> (string \<Rightarrow> 'q dialed) \<Rightarrow> string \<Rightarrow> 'q client connPool \<Rightarrow> 's go \<times> 'q client connPool \<times> 'q client list" where
  "sshDialer_Dial opts derr opn dial addr p = (case (if ssh_PublicKey opts \<noteq> [] then derr else None) of
     Some e \<Rightarrow> (Err e, p, []) | None \<Rightarrow> dial_pooled (ssh_dial opn dial) dial addr p)"

section \<open>TLS configurations (util/cert/cert.go, options/option.go)\<close>

text \<open>
  Files, PEM pools and key pairs belong to the system and to \<open>crypto/tls\<close>: \<open>pki\<close> holds what they give. A nil
  pool of authorities, the roots of the host, is \<open>None\<close>.
\<close>

record ('pool, 'pair) pki =
  ReadFile :: "string \<Rightarrow> bytes go"
  AppendCertsFromPEM :: "bytes \<Rightarrow> 'pool option"
  LoadX509KeyPair :: "string \<Rightarrow> string \<Rightarrow> 'pair go"

record ('pool, 'pair) tls_Config =
  Certificates :: "'pair list"
  ServerName :: string
  RootCAs :: "'pool option"
  RequireAndVerifyClientCert :: bool
  ClientCAs :: "'pool option"
  InsecureSkipVerify :: bool

definition empty_tls :: "('pool, 'pair) tls_Config" where
  "empty_tls = \<lparr>Certificates = [], ServerName = [], RootCAs = None, RequireAndVerifyClientCert = False, ClientCAs = None, InsecureSkipVerify = False\<rparr>"

definition ca_pool :: "('pool, 'pair) pki \<Rightarrow> string \<Rightarrow> 'pool option go" where
  "ca_pool k caPath = (if caPath = [] then Ret None
     else bind_go (ReadFile k caPath) (\<lambda>ca. case AppendCertsFromPEM k ca of None \<Rightarrow> Err ErrTlsConfig | Some cas \<Rightarrow> Ret (Some cas)))"

definition GetClientMTlsConfig :: "('pool, 'pair) pki \<Rightarrow> string \<Rightarrow> string \<Rightarrow> string \<Rightarrow> string \<Rightarrow> ('pool, 'pair) tls_Config go" where
  "GetClientMTlsConfig k certPath keyPath caPath hostname = bind_go (ca_pool k caPath) (\<lambda>rootCAs.
     bind_go (LoadX509KeyPair k certPath keyPath) (\<lambda>cert.
       Ret (empty_tls\<lparr>Certificates := [cert], ServerName := hostname, RootCAs := rootCAs\<rparr>)))"

definition GetServerMTlsConfig :: "('pool, 'pair) pki \<Rightarrow> string \<Rightarrow> string \<Rightarrow> string \<Rightarrow> ('pool, 'pair) tls_Config go" where
  "GetServerMTlsConfig k certPath keyPath caPath = bind_go (ca_pool k caPath) (\<lambda>clientCAs.
     bind_go (LoadX509KeyPair k certPath keyPath) (\<lambda>cert.
       Ret (empty_tls\<lparr>Certificates := [cert], RequireAndVerifyClientCert := True, ClientCAs := clientCAs\<rparr>)))"

definition cert_GetClientTlsConfig :: "('pool, 'pair) pki \<Rightarrow> string \<Rightarrow> string \<Rightarrow> ('pool, 'pair) tls_Config go" where
  "cert_GetClientTlsConfig k caPath hostname = bind_go (ca_pool k caPath) (\<lambda>rootCAs. Ret (empty_tls\<lparr>ServerName := hostname, RootCAs := rootCAs\<rparr>))"

definition cert_GetServerTlsConfig :: "('pool, 'pair) pki \<Rightarrow> string \<Rightarrow> string \<Rightarrow> ('pool, 'pair) tls_Config go" where
  "cert_GetServerTlsConfig k certPath keyPath = bind_go (LoadX509KeyPair k certPath keyPath) (\<lambda>cert. Ret (empty_tls\<lparr>Certificates := [cert]\<rparr>))"

text \<open>The methods of \<open>TlsOptions\<close>: without TLS there is no configuration.\<close>

definition GetServerTlsConfig :: "('pool, 'pair) pki \<Rightarrow> TlsOptions \<Rightarrow> ('pool, 'pair) tls_Config option go" where
  "GetServerTlsConfig k o' = (case Mode o' of TlsNone \<Rightarrow> Ret None
     | TLS \<Rightarrow> bind_go (cert_GetServerTlsConfig k (CertFile o') (KeyFile o')) (\<lambda>c. Ret (Some c))
     | MTLS \<Rightarrow> bind_go (GetServerMTlsConfig k (CertFile o') (KeyFile o') (CAFile o')) (\<lambda>c. Ret (Some c)))"

definition GetClientTlsConfig :: "('pool, 'pair) pki \<Rightarrow> TlsOptions \<Rightarrow> ('pool, 'pair) tls_Config option go" where
  "GetClientTlsConfig k o' = (case Mode o' of TlsNone \<Rightarrow> Ret None
     | TLS \<Rightarrow> bind_go (cert_GetClientTlsConfig k (CAFile o') (Hostname o')) (\<lambda>c. Ret (Some c))
     | MTLS \<Rightarrow> bind_go (GetClientMTlsConfig k (CertFile o') (KeyFile o') (CAFile o') (Hostname o')) (\<lambda>c. Ret (Some c)))"

text \<open>
  The configurations check the peer: a client never skips the verification, it verifies the host name of the
  options against the authorities of the file, and with mutual TLS the server demands a certificate of them.
\<close>

theorem tls_client_verifies:
  assumes "GetClientTlsConfig k o' = Ret (Some c)"
  shows "\<not> InsecureSkipVerify c \<and> ServerName c = Hostname o' \<and> ca_pool k (CAFile o') = Ret (RootCAs c)"
  using assms by (auto simp: GetClientTlsConfig_def cert_GetClientTlsConfig_def GetClientMTlsConfig_def empty_tls_def bind_go_eq_Ret split: TlsMode.splits)

theorem mtls_server_verifies:
  assumes "GetServerTlsConfig k o' = Ret (Some c)"
  shows "RequireAndVerifyClientCert c \<longleftrightarrow> Mode o' = MTLS" "Mode o' = MTLS \<Longrightarrow> ca_pool k (CAFile o') = Ret (ClientCAs c)"
  using assms by (auto simp: GetServerTlsConfig_def cert_GetServerTlsConfig_def GetServerMTlsConfig_def empty_tls_def bind_go_eq_Ret split: TlsMode.splits)

section \<open>The QUIC and WebSocket dialers\<close>

text \<open>
  The QUIC dialer needs TLS: when the options ask for none, or building the configuration failed, it takes one that
  does not verify the server. In the second case \<open>Dial\<close> fails with the error before it is used.
\<close>

definition newQUICDialer :: "('pool, 'pair) pki \<Rightarrow> (nat \<Rightarrow> nat) \<Rightarrow> QuicOptions \<Rightarrow> (error option \<times> ('pool, 'pair) tls_Config \<times> 'c connPool) go" where
  "newQUICDialer k rdIdx opts = (let insecure = empty_tls\<lparr>InsecureSkipVerify := True\<rparr> in case GetClientTlsConfig k (quic_tls opts) of
     Ret None \<Rightarrow> Ret (None, insecure, newConnPool rdIdx (Conns opts))
   | Ret (Some c) \<Rightarrow> Ret (None, c, newConnPool rdIdx (Conns opts))
   | Err e \<Rightarrow> Ret (Some e, insecure, newConnPool rdIdx (Conns opts))
   | Panic \<Rightarrow> Panic)"

record ws_request =
  wsr_scheme :: string
  wsr_host :: string
  wsr_path :: string
  wsr_header :: "(string \<times> string) list"

definition wsDialer_Dial :: "('pool, 'pair) pki \<Rightarrow> WsOptions \<Rightarrow> (('pool, 'pair) tls_Config option \<Rightarrow> ws_request \<Rightarrow> 'c go) \<Rightarrow> string \<Rightarrow> 'c go" where
  "wsDialer_Dial k opts dial addr = bind_go (GetClientTlsConfig k (ws_tls opts)) (\<lambda>tlsConfig.
     dial tlsConfig \<lparr>wsr_scheme = (if tlsConfig = None then ''ws'' else ''wss''), wsr_host = addr, wsr_path = ws_Path opts,
       wsr_header = (''Host'', ws_Host opts) # (if ws_UserAgent opts = [] then [] else [(''User-Agent'', ws_UserAgent opts)])\<rparr>)"

text \<open>The connection is encrypted exactly when the options ask for it, and then the server is verified.\<close>

theorem quic_unverified_only_without_tls:
  assumes "newQUICDialer k rdIdx opts = Ret (None, c, p)"
  shows "InsecureSkipVerify c \<longleftrightarrow> Mode (quic_tls opts) = TlsNone"
proof (cases "GetClientTlsConfig k (quic_tls opts)")
  case (Ret x)
  show ?thesis
  proof (cases x)
    case None
    then show ?thesis using assms(1) Ret by (auto simp: newQUICDialer_def GetClientTlsConfig_def Let_def bind_go_eq_Ret split: TlsMode.splits)
  next
    case (Some y)
    then show ?thesis using assms(1) Ret tls_client_verifies [of k "quic_tls opts" y]
      by (auto simp: newQUICDialer_def Let_def GetClientTlsConfig_def split: TlsMode.splits)
  qed
qed (use assms in \<open>auto simp: newQUICDialer_def Let_def\<close>)

section \<open>What the pool guarantees\<close>

definition pool_ok :: "'c connPool \<Rightarrow> bool" where
  "pool_ok p \<longleftrightarrow> 0 < cp_size p \<and> length (cp_conns p) = cp_size p \<and> cp_index p < cp_size p"

lemma pool_ok_new: "pool_ok (newConnPool rdIdx sz)"
  by (simp add: pool_ok_def newConnPool_def Let_def)

lemma pool_ok_sel: "pool_ok p \<Longrightarrow> pool_ok (selIndex i p)"
  by (simp add: pool_ok_def selIndex_def)

lemma pool_ok_close: "pool_ok p \<Longrightarrow> pool_ok (snd (connPool_close i p))"
  by (auto simp: connPool_close_def pool_ok_def split: option.splits)

lemma pool_ok_index: "pool_ok p \<Longrightarrow> pool_ok (snd (getConnWithIndex i b dialFn p))"
  by (auto simp: getConnWithIndex_def pool_ok_def selIndex_def Let_def split: go.splits)

lemma pool_ok_get: "pool_ok p \<Longrightarrow> pool_ok (snd (getConn dialFn p))"
  using pool_ok_index pool_ok_sel by (auto simp: getConn_def split: option.splits bool.splits)

lemma pool_ok_loop: "pool_ok p \<Longrightarrow> pool_ok (fst (snd (open_loop k pick opn dial c p)))"
proof (induction k arbitrary: c p)
  case 0
  then show ?case by (simp split: go.splits)
next
  case (Suc k)
  obtain slot p1 where cl: "connPool_close (cl_idx c) p = (slot, p1)" by fastforce
  obtain r p2 where gc: "getConnWithIndex (cl_idx c) False (dial_client dial (cl_addr c)) p1 = (r, p2)" by fastforce
  have "pool_ok p2" using pool_ok_index [OF pool_ok_close [OF Suc.prems]] cl gc by (metis snd_conv)
  then have "pool_ok (fst (snd (open_loop k pick opn dial c' p2)))" for c' by (rule Suc.IH)
  then show ?case using Suc.prems \<open>pool_ok p2\<close> cl gc
    by (subst open_loop.simps) (auto simp del: open_loop.simps simp: Let_def split: go.splits option.splits prod.splits, metis fst_conv snd_conv)
qed

theorem pool_ok_dials:
  assumes "pool_ok p"
  shows "pool_ok (fst (snd (quicDialer_Dial derr opn dial addr p)))" "pool_ok (fst (snd (sshDialer_Dial opts derr opn dial addr p)))"
proof -
  obtain r p1 where g: "getConn (dial_client dial addr) p = (r, p1)" by fastforce
  have "pool_ok p1" using pool_ok_get [OF assms] g by (metis snd_conv)
  then have "pool_ok (fst (snd (dial_pooled (open_loop k pick opn dial) dial addr p)))" for k pick
    using g pool_ok_loop by (auto simp: dial_pooled_def simp del: open_loop.simps split: go.splits option.splits)
  then show "pool_ok (fst (snd (quicDialer_Dial derr opn dial addr p)))" "pool_ok (fst (snd (sshDialer_Dial opts derr opn dial addr p)))"
    using assms by (auto simp: quicDialer_Dial_def sshDialer_Dial_def quic_openStreamConn_def ssh_dial_def simp del: open_loop.simps split: option.splits)
qed

text \<open>Calls of \<open>getConn\<close> in a row, where dialling in the \<open>k\<close>-th call would give \<open>d k\<close>.\<close>

fun get_conns :: "(nat \<Rightarrow> 'c) \<Rightarrow> nat \<Rightarrow> 'c connPool \<Rightarrow> 'c option go list \<times> 'c connPool" where
  "get_conns d 0 p = ([], p)"
| "get_conns d (Suc k) p = (case get_conns d k p of (xs, p1) \<Rightarrow> case getConn (\<lambda>_. Answer (Ret (d k))) p1 of (x, p2) \<Rightarrow> (xs @ [x], p2))"

lemma mod_Suc_index: "0 < n \<Longrightarrow> (k mod n + 1) mod n = Suc k mod n"
  by (metis Suc_eq_plus1 mod_Suc_eq)

lemma get_conns_state:
  assumes "0 < n" "p0 = \<lparr>cp_index = 0, cp_size = n, cp_policy = Roundrobin, cp_draws = rd, cp_conns = replicate n None\<rparr>"
  shows "get_conns d k p0 = (map (\<lambda>j. Ret (Some (d (j mod n)))) [0..<k],
     \<lparr>cp_index = k mod n, cp_size = n, cp_policy = Roundrobin, cp_draws = rd, cp_conns = map (\<lambda>i. if i < k then Some (d i, True) else None) [0..<n]\<rparr>)"
proof (induction k)
  case 0
  show ?case using assms(2) by (auto intro: nth_equalityI)
next
  case (Suc k)
  let ?i = "k mod n" and ?cs = "\<lambda>k. map (\<lambda>i. if i < k then Some (d i, True) else None) [0..<n]"
  have i: "?i < n" using assms(1) by simp
  show ?case
  proof (cases "k < n")
    case True
    then have "?i = k" by simp
    moreover have "(?cs k)[k := Some (d k, True)] = ?cs (Suc k)"
      using True by (auto intro!: nth_equalityI simp: nth_list_update)
    ultimately show ?thesis using Suc True i mod_Suc_index [OF assms(1), of k]
      by (simp add: getConn_def getConnWithIndex_def selIndex_def Let_def)
  next
    case False
    then have "?i < k" "?cs (Suc k) = ?cs k" using i by auto
    then show ?thesis using Suc i mod_Suc_index [OF assms(1), of k] by (simp add: getConn_def selIndex_def)
  qed
qed

text \<open>
  The pool takes its connections in rotation: in a fresh pool of \<open>n\<close> slots, while dialling succeeds and
  no connection is dropped, the calls of \<open>getConn\<close> dial only the first \<open>n\<close> times, and the \<open>k\<close>-th call returns the
  connection dialled in call \<open>k mod n\<close>. A size that is not positive counts as three.
\<close>

theorem pool_rotates_connections:
  "fst (get_conns d m (newConnPool rdIdx sz)) = map (\<lambda>k. Ret (Some (d (k mod (if sz \<le> 0 then 3 else nat sz))))) [0..<m]"
  using get_conns_state [OF _ refl, of "if sz \<le> 0 then 3 else nat sz" d m rdIdx] by (simp add: newConnPool_def Let_def)

text \<open>
  A stream that cannot be opened costs one more dial: the connection is replaced in its slot, the other slots
  stay, and the result is that of the second attempt.
\<close>

lemma redial_slot:
  assumes "pool_ok p" "cl_idx c < cp_size p" "dial (cl_addr c) = Answer (Ret q)" "connPool_close (cl_idx c) p = (slot, p1)"
  shows "getConnWithIndex (cl_idx c) False (dial_client dial (cl_addr c)) p1
     = (Ret (Some (c\<lparr>cl_conn := q\<rparr>)), p1\<lparr>cp_conns := (cp_conns p)[cl_idx c := Some (c\<lparr>cl_conn := q\<rparr>, True)]\<rparr>)"
  using assms by (cases c) (auto simp: getConnWithIndex_def connPool_close_def dial_client_def Let_def split: option.splits)

theorem broken_connection_replaced:
  assumes "pool_ok p" "cl_idx c < cp_size p" "opn c = Err e" "dial (cl_addr c) = Answer (Ret q)"
  shows "fst (open_loop 1 pick opn dial c p) = opn (c\<lparr>cl_conn := q\<rparr>)
     \<and> cp_conns (fst (snd (open_loop 1 pick opn dial c p))) = (cp_conns p)[cl_idx c := Some (c\<lparr>cl_conn := q\<rparr>, True)]"
proof -
  obtain slot p1 where cl: "connPool_close (cl_idx c) p = (slot, p1)" by fastforce
  show ?thesis using redial_slot [where dial = dial, OF assms(1,2,4) cl] assms(3) cl by (simp add: Let_def split: go.splits)
qed

text \<open>
  When another caller has already replaced the broken connection, the slot holds a working one. The SSH dialer
  closes that one under its users, and the QUIC dialer closes the broken one again and leaves the working one open
  when it is overwritten.
\<close>

theorem stale_retry_hits_new_connection:
  assumes "pool_ok p" "cl_idx c < cp_size p" "opn c = Err e" "dial (cl_addr c) = Answer (Ret q)" "cp_conns p ! cl_idx c = Some (c', True)"
    "opn (c\<lparr>cl_conn := q\<rparr>) = Ret st"
  shows "snd (snd (ssh_dial opn dial c p)) = [c']" "snd (snd (quic_openStreamConn opn dial c p)) = [c]"
proof -
  obtain p1 where cl: "connPool_close (cl_idx c) p = (Some c', p1)" using assms(2,5) by (simp add: connPool_close_def)
  show "snd (snd (ssh_dial opn dial c p)) = [c']" "snd (snd (quic_openStreamConn opn dial c p)) = [c]"
    using redial_slot [where dial = dial, OF assms(1,2,4) cl] assms(3,6) cl by (simp_all add: ssh_dial_def quic_openStreamConn_def Let_def)
qed

end
