(* ===== verification/Client.thy ===== *)
theory Client
  imports Config Transport Ord_Map Stream_Conn Ssr_Obfs Dns_Resolver
begin

text \<open>
  The programs themselves: the selector of proxy nodes (selector/selector.go), the client that is built from options
  (ss/ss_client.go), the forwarding of fixed ports (ss/tcptun.go) and the server (ss/ss_server.go).
\<close>

section \<open>Relayers (relay/tcp.go, relay/udp.go)\<close>

text \<open>
  The wrappers of connections (\<open>TcpConnBound\<close>, \<open>UdpConnBound\<close>) are closures over ciphers; the model keeps the
  ciphers. Of \<open>Ciphers sc ac\<close> they are \<^const>\<open>makeStreamConn\<close> and \<^const>\<open>makePacketConn\<close>.
\<close>

datatype 'st bound = Ciphers "'st StreamCipher option" "AEADCipher option" | SsrCipher "'st SSRClientStreamCipher"

record 'st ProxyTCPRelayer =
  pt_Dialer :: Dialer
  pt_typ :: Type
  pt_inbound :: "'st bound option"
  pt_outbound :: "'st bound option"
  pt_proxyServerAddr :: string

definition NewProxyTCPRelayer :: "string \<Rightarrow> Type \<Rightarrow> Options \<Rightarrow> 'st bound option \<Rightarrow> 'st bound option \<Rightarrow> 'st ProxyTCPRelayer go" where
  "NewProxyTCPRelayer addr ty sopts inb outb = bind_go (NewDialer ty sopts) (\<lambda>d.
     Ret \<lparr>pt_Dialer = d, pt_typ = ty, pt_inbound = inb, pt_outbound = outb, pt_proxyServerAddr = addr\<rparr>)"

record 'st ProxyUDPRelayer =
  pu_proxyServerAddr :: string
  pu_inbound :: "'st bound option"
  pu_outbound :: "'st bound option"

definition NewProxyUDPRelayer :: "string \<Rightarrow> 'st bound option \<Rightarrow> 'st bound option \<Rightarrow> 'st ProxyUDPRelayer" where
  "NewProxyUDPRelayer addr inb outb = \<lparr>pu_proxyServerAddr = addr, pu_inbound = inb, pu_outbound = outb\<rparr>"

section \<open>The selector (selector/selector.go, ss/ctxv/ctxv.go)\<close>

record 'st ctxv =
  v_Addr :: string
  v_Type :: Type
  v_TcpConnBound :: "'st bound"
  v_UdpConnBound :: "'st bound"
  v_Options :: Options

text \<open>The two direct relayers have no state.\<close>

record 'st Selector =
  tcpProxyNode :: "(string, 'st ProxyTCPRelayer) OrderedMap"
  udpProxyNode :: "(string, 'st ProxyUDPRelayer) OrderedMap"

definition NewSelector :: "'st Selector" where
  "NewSelector = \<lparr>tcpProxyNode = OrderedMap_zero, udpProxyNode = OrderedMap_zero\<rparr>"

definition AddProxy :: "string \<Rightarrow> 'st ctxv \<Rightarrow> 'st Selector \<Rightarrow> 'st Selector go" where
  "AddProxy proxy v sel = bind_go (NewProxyTCPRelayer (v_Addr v) (v_Type v) (v_Options v) None (Some (v_TcpConnBound v)))
     (\<lambda>r. Ret (sel\<lparr>tcpProxyNode := Store proxy r (tcpProxyNode sel)\<rparr>))"

definition AddPacketProxy :: "string \<Rightarrow> 'st ctxv \<Rightarrow> 'st Selector \<Rightarrow> 'st Selector" where
  "AddPacketProxy proxy v sel = sel\<lparr>udpProxyNode := Store proxy (NewProxyUDPRelayer (v_Addr v) None (Some (v_UdpConnBound v))) (udpProxyNode sel)\<rparr>"

text \<open>What carries a connection: the direct relayer, or the relayer of a node.\<close>

datatype 'r invoker = DirectInvoker | ProxyInvoker 'r

definition Select :: "'st Selector \<Rightarrow> string \<Rightarrow> 'st ProxyTCPRelayer invoker" where
  "Select sel proxy = (if proxy = [] then DirectInvoker
     else case Load (tcpProxyNode sel) proxy of None \<Rightarrow> DirectInvoker | Some r \<Rightarrow> ProxyInvoker r)"

definition SelectPacket :: "'st Selector \<Rightarrow> string \<Rightarrow> 'st ProxyUDPRelayer invoker" where
  "SelectPacket sel proxy = (if proxy = [] then DirectInvoker
     else case Load (udpProxyNode sel) proxy of None \<Rightarrow> DirectInvoker | Some r \<Rightarrow> ProxyInvoker r)"

section \<open>The client (ss/ss_client.go)\<close>

text \<open>The wrapper a server of the options gets. A cipher or SSR setting that cannot be built ends the program: an error here.\<close>

definition client_bound :: "('blk, 'st) prims \<Rightarrow> digests \<Rightarrow> serverOptions \<Rightarrow> 'st StreamCipher option \<Rightarrow> AEADCipher option
    \<Rightarrow> rng \<Rightarrow> ('st bound \<times> rng) go" where
  "client_bound P D opt sc ac g = (if \<not> s_ssr opt then Ret (Ciphers sc ac, g)
     else bind_go (NewSSRClientStreamCipher P D sc (s_addr opt) (Protocol (s_ssrOpt opt)) (ProtocolParam (s_ssrOpt opt))
       (ShadowsocksROption.ssr_Obfs (s_ssrOpt opt)) (ObfsParam (s_ssrOpt opt)) g) (\<lambda>(cp, g'). Ret (SsrCipher cp, g')))"

definition initServerOption :: "('blk, 'st) prims \<Rightarrow> digests \<Rightarrow> serverOptions \<Rightarrow> 'st Selector \<times> rng \<Rightarrow> ('st Selector \<times> rng) go" where
  "initServerOption P D opt = (\<lambda>(sel, g).
     bind_go (GetCipher P (s_cipher opt) (s_password opt)) (\<lambda>(sc, ac).
     bind_go (client_bound P D opt sc ac g) (\<lambda>(b, g').
       let item = \<lparr>v_Addr = s_addr opt, v_Type = s_transport opt, v_TcpConnBound = b, v_UdpConnBound = b, v_Options = s_opts opt\<rparr> in
       bind_go (AddProxy (s_name opt) item sel) (\<lambda>sel1.
         Ret (if s_udp opt then AddPacketProxy (s_name opt) item sel1 else sel1, g')))))"

fun init_servers :: "('blk, 'st) prims \<Rightarrow> digests \<Rightarrow> serverOptions list \<Rightarrow> 'st Selector \<times> rng \<Rightarrow> ('st Selector \<times> rng) go" where
  "init_servers P D [] st = Ret st"
| "init_servers P D (opt # sopts) st = bind_go (initServerOption P D opt st) (init_servers P D sopts)"

definition defaultSSLocalOpts :: ssOptions where
  "defaultSSLocalOpts = \<lparr>serverOpts = [], localOpts = zero_local\<lparr>enhancerConfig := (enhancerConfig zero_local)
     \<lparr>Tun_Name := ''utun3'', Inet4Address := [(Addr4 [198, 18, 0, 1], 16)]\<rparr>\<rparr>\<rparr>"

definition detect_interface :: "string option \<Rightarrow> globals \<Rightarrow> globals" where
  "detect_interface route g = (if AutoDetectInterface (DefaultOptions g)
     then case route of None \<Rightarrow> g | Some n \<Rightarrow> g\<lparr>DefaultOptions := (DefaultOptions g)\<lparr>OutboundInterface := n\<rparr>\<rparr> else g)"

text \<open>A single server without a name is the one of the command line; \<open>MatchRuler\<close> may be nil.\<close>

definition name_default :: "ssOptions \<times> globals \<Rightarrow> (ssOptions \<times> globals) go" where
  "name_default = (\<lambda>(so, g). case serverOpts so of
     [x] \<Rightarrow> (if s_name x = [] then (case MatchRuler g of None \<Rightarrow> Panic
        | Some r \<Rightarrow> if GlobalTo r = [] then Ret (so\<lparr>serverOpts := [x\<lparr>s_name := ''<Default>''\<rparr>]\<rparr>, g\<lparr>MatchRuler := Some (r\<lparr>GlobalTo := ''<Default>''\<rparr>)\<rparr>)
          else Ret (so, g))
       else Ret (so, g))
   | _ \<Rightarrow> Ret (so, g))"

datatype listener =
    TcpTun string string
  | MixedServer string "Auth option" "Auth option" MimtOption
  | HttpServer string "Auth option" MimtOption
  | SocksServer string "Auth option" MimtOption

fun tun_listeners :: "string list list \<Rightarrow> listener list go" where
  "tun_listeners [] = Ret []"
| "tun_listeners (addrs # as) = (case addrs of
     localAddr # remoteAddr # _ \<Rightarrow> bind_go (tun_listeners as) (\<lambda>ls. Ret (TcpTun localAddr remoteAddr # ls))
   | _ \<Rightarrow> Panic)"

definition proxy_listeners :: "localOptions \<Rightarrow> listener list" where
  "proxy_listeners l = (if mixedAddr l \<noteq> [] then [MixedServer (mixedAddr l) (httpAuth l) (socksAuth l) (mitmConfig l)]
     else (if httpAddr l \<noteq> [] then [HttpServer (httpAddr l) (httpAuth l) (mitmConfig l)] else [])
        @ (if socksAddr l \<noteq> [] then [SocksServer (socksAddr l) (socksAuth l) (mitmConfig l)] else []))"

record ShadowsocksClient =
  cl_srvGroup :: "listener list"
  cl_enhancer :: "EnhancerConfig option"
  cl_Opts :: ssOptions

text \<open>
  The package variables the constructor writes: those of the options, the selector, the default resolver, and the
  random source of SSR.
\<close>

record ('st, 'c) world =
  w_globals :: globals
  w_ProxySelector :: "'st Selector"
  w_rng :: rng
  w_DefaultResolver :: "'c Resolver option"

definition NewShadowsocksClient :: "('blk, 'st) prims \<Rightarrow> digests \<Rightarrow> string option \<Rightarrow> (string list \<Rightarrow> bool \<Rightarrow> 'c Resolver)
    \<Rightarrow> SSOption list \<Rightarrow> ('st, 'c) world \<Rightarrow> (ShadowsocksClient \<times> ('st, 'c) world) go" where
  "NewShadowsocksClient P D route newResolver sopts w = (case applyTo sopts (defaultSSLocalOpts, w_globals w) of
     (Err e, _) \<Rightarrow> Err e
   | (Panic, _) \<Rightarrow> Panic
   | (Ret _, (so0, g0)) \<Rightarrow>
      let g1 = detect_interface route g0; rs = newResolver (DefaultDnsNameservers g1) (lookupHostsFile (localOpts so0)) in
      bind_go (name_default (so0, g1)) (\<lambda>(so, g).
      bind_go (init_servers P D (serverOpts so) (w_ProxySelector w, w_rng w)) (\<lambda>(sel, rn).
      bind_go (tun_listeners (tcpTunAddr (localOpts so))) (\<lambda>tuns.
        Ret (\<lparr>cl_srvGroup = tuns @ proxy_listeners (localOpts so),
              cl_enhancer = (if enableTun (localOpts so) then Some (enhancerConfig (localOpts so)) else None), cl_Opts = so\<rparr>,
             w\<lparr>w_globals := g, w_ProxySelector := sel, w_rng := rn, w_DefaultResolver := Some rs\<rparr>)))))"

text \<open>
  \<open>setSystemProxy\<close>: the URLs for HTTP and SOCKS. \<open>net.SplitHostPort\<close> gives the empty port on an error.
\<close>

record sysURL =
  sys_Scheme :: string
  sys_Host :: string
  sys_User :: "Userinfo option"

definition port_of :: "string \<Rightarrow> string" where
  "port_of addr = (case splitHostPort addr of Ret (_, p) \<Rightarrow> p | _ \<Rightarrow> [])"

definition local_url :: "string \<Rightarrow> string \<Rightarrow> Userinfo option \<Rightarrow> sysURL" where
  "local_url scheme addr user = \<lparr>sys_Scheme = scheme, sys_Host = joinHostPort ''127.0.0.1'' (port_of addr), sys_User = user\<rparr>"

definition setSystemProxy :: "localOptions \<Rightarrow> sysURL option \<times> sysURL option" where
  "setSystemProxy l = (if mixedAddr l \<noteq> [] then (Some (local_url ''http'' (mixedAddr l) None), Some (local_url ''socks'' (mixedAddr l) None))
     else (if httpAddr l \<noteq> [] then Some (local_url ''http'' (httpAddr l) (UserInfo (httpAuth l))) else None,
           if socksAddr l \<noteq> [] then Some (local_url ''socks'' (socksAddr l) (UserInfo (socksAuth l))) else None))"

text \<open>
  \<open>Start\<close> and \<open>Close\<close>: what they do with the system, in order, and the error they return. The arguments are
  the errors of the enhancer and of the server group.
\<close>

datatype action = StartEnhancer | CloseEnhancer | SetSystemProxy "sysURL option" "sysURL option" | UnsetSystemProxy | RunServers | CloseServers | CloseDB

definition Client_Start :: "error option \<Rightarrow> error option \<Rightarrow> ShadowsocksClient \<Rightarrow> error option \<times> action list" where
  "Client_Start enhErr srvErr ss = (if cl_srvGroup ss = [] then (None, [])
     else let l = localOpts (cl_Opts ss); enh = (if enableTun l then [StartEnhancer] else []) in
       if enableTun l \<and> enhErr \<noteq> None then (enhErr, enh)
       else let sys = (if systemProxy l then [SetSystemProxy (fst (setSystemProxy l)) (snd (setSystemProxy l))] else []) in
         if srvErr \<noteq> None then (srvErr, enh @ sys @ [RunServers, UnsetSystemProxy] @ (if enableTun l then [CloseEnhancer] else []))
         else (None, enh @ sys @ [RunServers]))"

definition Client_Close :: "error option \<Rightarrow> ShadowsocksClient \<Rightarrow> error option \<times> action list" where
  "Client_Close srvErr ss = (if cl_srvGroup ss = [] then (None, [CloseDB])
     else let l = localOpts (cl_Opts ss) in
       (srvErr, (if systemProxy l then [UnsetSystemProxy] else []) @ (if enableTun l then [CloseEnhancer] else []) @ [CloseServers, CloseDB]))"

section \<open>Forwarding of a port (ss/tcptun.go)\<close>

text \<open>\<open>tcpTunServer.ServeTCP\<close>, without the statistics: the connection is dropped, or an invoker relays it to the remote address.\<close>

definition tcpTun_ServeTCP :: "renv \<Rightarrow> 'st Selector \<Rightarrow> string \<Rightarrow> Ruler \<Rightarrow> ('st ProxyTCPRelayer invoker \<times> string) option go \<times> Ruler" where
  "tcpTun_ServeTCP E sel remoteAddr r =
     (let host = (case splitHostPort remoteAddr of Ret (h, _) \<Rightarrow> h | _ \<Rightarrow> []) in
      case Ruler_Match E r host of
        (Ret True, r', _) \<Rightarrow> (case Ruler_Select r' of
            Ret proxy \<Rightarrow> (Ret (Some (Select sel proxy, remoteAddr)), r')
          | Err _ \<Rightarrow> (Ret None, r')
          | Panic \<Rightarrow> (Panic, r'))
      | (Ret False, r', _) \<Rightarrow> (Ret None, r')
      | (Err e, r', _) \<Rightarrow> (Err e, r')
      | (Panic, r', _) \<Rightarrow> (Panic, r'))"

section \<open>The server (ss/ss_server.go)\<close>

text \<open>The listener of a transport; the constructors assert the type of the options.\<close>

datatype transport_server = NewTcpServer string | NewWsServer string WsOptions | NewQuicServer string QuicOptions
  | NewObfsServer string ObfsOptions | NewGrpcServer string GrpcOptions | NewSshServer string SshOptions

definition new_server :: "serverOptions \<Rightarrow> transport_server go" where
  "new_server opt = (case s_transport opt of
     Tcp \<Rightarrow> Ret (NewTcpServer (s_addr opt))
   | Websocket \<Rightarrow> (case s_opts opt of OptWs x \<Rightarrow> Ret (NewWsServer (s_addr opt) x) | _ \<Rightarrow> Panic)
   | Quic \<Rightarrow> (case s_opts opt of OptQuic x \<Rightarrow> Ret (NewQuicServer (s_addr opt) x) | _ \<Rightarrow> Panic)
   | Obfs \<Rightarrow> (case s_opts opt of OptObfs x \<Rightarrow> Ret (NewObfsServer (s_addr opt) x) | _ \<Rightarrow> Panic)
   | Grpc \<Rightarrow> (case s_opts opt of OptGrpc x \<Rightarrow> Ret (NewGrpcServer (s_addr opt) x) | _ \<Rightarrow> Panic)
   | Ssh \<Rightarrow> (case s_opts opt of OptSsh x \<Rightarrow> Ret (NewSshServer (s_addr opt) x) | _ \<Rightarrow> Panic))"

record 'st serverHandler =
  h_tcpRelayer :: "'st ProxyTCPRelayer"
  h_udpRelayer :: "(string \<times> 'st bound) option"

record 'st ShadowsocksServer =
  handlerList :: "'st serverHandler list"
  srvGroup :: "transport_server list"

definition initServerHandler :: "('blk, 'st) prims \<Rightarrow> defaultOptions \<Rightarrow> serverOptions \<Rightarrow> 'st ShadowsocksServer \<Rightarrow> unit go \<times> 'st ShadowsocksServer" where
  "initServerHandler P dflt opt ss = (case GetCipher P (s_cipher opt) (s_password opt) of
     Err e \<Rightarrow> (Err e, ss)
   | Panic \<Rightarrow> (Panic, ss)
   | Ret (sc, ac) \<Rightarrow> (case new_server opt of
       Ret srv \<Rightarrow> (case NewProxyTCPRelayer [] Tcp (OptDefault dflt) (Some (Ciphers sc ac)) None of
           Ret r \<Rightarrow> (Ret (), \<lparr>handlerList = handlerList ss @ [\<lparr>h_tcpRelayer = r,
               h_udpRelayer = (if s_udp opt then Some (s_addr opt, Ciphers sc ac) else None)\<rparr>], srvGroup = srvGroup ss @ [srv]\<rparr>)
         | Err e \<Rightarrow> (Err e, ss\<lparr>srvGroup := srvGroup ss @ [srv]\<rparr>)
         | Panic \<Rightarrow> (Panic, ss\<lparr>srvGroup := srvGroup ss @ [srv]\<rparr>))
     | Err e \<Rightarrow> (Err e, ss)
     | Panic \<Rightarrow> (Panic, ss)))"

text \<open>A server that cannot be built is logged and left out.\<close>

fun init_handlers :: "('blk, 'st) prims \<Rightarrow> defaultOptions \<Rightarrow> serverOptions list \<Rightarrow> 'st ShadowsocksServer \<Rightarrow> 'st ShadowsocksServer go" where
  "init_handlers P dflt [] ss = Ret ss"
| "init_handlers P dflt (opt # sopts) ss = (case initServerHandler P dflt opt ss of
     (Panic, _) \<Rightarrow> Panic | (_, ss') \<Rightarrow> init_handlers P dflt sopts ss')"

text \<open>Without a server the program ends: \<open>Ret None\<close>.\<close>

definition NewShadowsocksServer :: "('blk, 'st) prims \<Rightarrow> string option \<Rightarrow> (string list \<Rightarrow> bool \<Rightarrow> 'c Resolver) \<Rightarrow> SSOption list \<Rightarrow> globals
    \<Rightarrow> ('st ShadowsocksServer \<times> globals \<times> 'c Resolver) option go" where
  "NewShadowsocksServer P route newResolver sopts g = (case applyTo sopts (\<lparr>serverOpts = [], localOpts = zero_local\<rparr>, g) of
     (Err e, _) \<Rightarrow> Err e
   | (Panic, _) \<Rightarrow> Panic
   | (Ret _, (so, g0)) \<Rightarrow> if serverOpts so = [] then Ret None
       else bind_go (init_handlers P (DefaultOptions g0) (serverOpts so) \<lparr>handlerList = [], srvGroup = []\<rparr>) (\<lambda>ss.
         Ret (Some (ss, detect_interface route g0, newResolver [] False))))"

section \<open>Nodes of the selector\<close>

definition sel_ok :: "'st Selector \<Rightarrow> bool" where
  "sel_ok sel \<longleftrightarrow> om_inv (tcpProxyNode sel) \<and> om_inv (udpProxyNode sel)"

lemma sel_ok_new [simp]: "sel_ok NewSelector"
  by (simp add: sel_ok_def NewSelector_def)

lemma Select_new [simp]: "Select NewSelector n = DirectInvoker" "SelectPacket NewSelector n = DirectInvoker"
  by (simp_all add: Select_def SelectPacket_def NewSelector_def ordmap.get_empty)

text \<open>What the options of a server need: a cipher and, for SSR, a protocol and an obfuscation that exist, and options of its transport.\<close>

definition cipher_ok :: "('blk, 'st) prims \<Rightarrow> digests \<Rightarrow> serverOptions \<Rightarrow> bool" where
  "cipher_ok P D opt \<longleftrightarrow> (\<exists>sc ac. GetCipher P (s_cipher opt) (s_password opt) = Ret (sc, ac) \<and> (\<forall>g. \<exists>b g'. client_bound P D opt sc ac g = Ret (b, g')))"

text \<open>
  The node of a server: streams go over the dialer of its transport and through its cipher to its address, and so do
  packets when its UDP flag is set.
\<close>

definition serves :: "('blk, 'st) prims \<Rightarrow> digests \<Rightarrow> serverOptions \<Rightarrow> 'st Selector \<Rightarrow> bool" where
  "serves P D opt sel \<longleftrightarrow> (\<exists>sc ac g b g' d. GetCipher P (s_cipher opt) (s_password opt) = Ret (sc, ac)
     \<and> client_bound P D opt sc ac g = Ret (b, g') \<and> NewDialer (s_transport opt) (s_opts opt) = Ret d
     \<and> Select sel (s_name opt) = ProxyInvoker \<lparr>pt_Dialer = d, pt_typ = s_transport opt, pt_inbound = None, pt_outbound = Some b, pt_proxyServerAddr = s_addr opt\<rparr>
     \<and> SelectPacket sel (s_name opt) = (if s_udp opt then ProxyInvoker \<lparr>pu_proxyServerAddr = s_addr opt, pu_inbound = None, pu_outbound = Some b\<rparr> else DirectInvoker))"

definition same_node :: "string \<Rightarrow> 'st Selector \<Rightarrow> 'st Selector \<Rightarrow> bool" where
  "same_node n sel sel' \<longleftrightarrow> Select sel' n = Select sel n \<and> SelectPacket sel' n = SelectPacket sel n"

lemma serves_same: "serves P D opt sel \<Longrightarrow> same_node (s_name opt) sel sel' \<Longrightarrow> serves P D opt sel'"
  by (auto simp: serves_def same_node_def)

lemma AddProxy_ok:
  assumes "sel_ok sel" "NewDialer (v_Type v) (v_Options v) = Ret d"
  shows "\<exists>sel'. AddProxy n v sel = Ret sel' \<and> sel_ok sel' \<and> udpProxyNode sel' = udpProxyNode sel
     \<and> (\<forall>m. Load (tcpProxyNode sel') m = (if m = n then Some \<lparr>pt_Dialer = d, pt_typ = v_Type v, pt_inbound = None,
          pt_outbound = Some (v_TcpConnBound v), pt_proxyServerAddr = v_Addr v\<rparr> else Load (tcpProxyNode sel) m))"
  using assms by (simp add: AddProxy_def NewProxyTCPRelayer_def sel_ok_def ordmap.inv_put ordmap.get_put)

lemma initServerOption_ok:
  assumes "sel_ok sel" "cipher_ok P D opt" "NewDialer (s_transport opt) (s_opts opt) = Ret d" "s_name opt \<noteq> []" "SelectPacket sel (s_name opt) = DirectInvoker"
  shows "\<exists>sel' g'. initServerOption P D opt (sel, g) = Ret (sel', g') \<and> sel_ok sel' \<and> serves P D opt sel' \<and> (\<forall>n. n \<noteq> s_name opt \<longrightarrow> same_node n sel sel')"
proof -
  obtain sc ac b g' where c: "GetCipher P (s_cipher opt) (s_password opt) = Ret (sc, ac)" "client_bound P D opt sc ac g = Ret (b, g')"
    using assms(2) by (metis cipher_ok_def)
  let ?v = "\<lparr>v_Addr = s_addr opt, v_Type = s_transport opt, v_TcpConnBound = b, v_UdpConnBound = b, v_Options = s_opts opt\<rparr>"
  obtain sel1 where s1: "AddProxy (s_name opt) ?v sel = Ret sel1" "sel_ok sel1" "udpProxyNode sel1 = udpProxyNode sel"
    "\<And>m. Load (tcpProxyNode sel1) m = (if m = s_name opt then Some \<lparr>pt_Dialer = d, pt_typ = s_transport opt, pt_inbound = None,
          pt_outbound = Some b, pt_proxyServerAddr = s_addr opt\<rparr> else Load (tcpProxyNode sel) m)"
    using AddProxy_ok [OF assms(1), of ?v d "s_name opt"] assms(3) by auto
  define sel' where "sel' = (if s_udp opt then AddPacketProxy (s_name opt) ?v sel1 else sel1)"
  have "initServerOption P D opt (sel, g) = Ret (sel', g')" using c s1(1) by (simp add: initServerOption_def sel'_def)
  moreover have ok: "sel_ok sel'" using s1(2) by (auto simp: sel'_def sel_ok_def AddPacketProxy_def ordmap.inv_put)
  have t: "tcpProxyNode sel' = tcpProxyNode sel1" by (simp add: sel'_def AddPacketProxy_def)
  have u: "Load (udpProxyNode sel') m = (if m = s_name opt \<and> s_udp opt
      then Some \<lparr>pu_proxyServerAddr = s_addr opt, pu_inbound = None, pu_outbound = Some b\<rparr> else Load (udpProxyNode sel) m)" for m
    using s1(2,3) by (simp add: sel'_def AddPacketProxy_def NewProxyUDPRelayer_def sel_ok_def ordmap.get_put)
  have "serves P D opt sel'" unfolding serves_def using c assms(3-5) s1(4)
    by (intro exI conjI) (auto simp: Select_def SelectPacket_def t u split: option.splits)
  moreover have "\<forall>n. n \<noteq> s_name opt \<longrightarrow> same_node n sel sel'" by (simp add: same_node_def Select_def SelectPacket_def t u s1(4))
  ultimately show ?thesis using ok by blast
qed

lemma init_servers_ok:
  assumes "sel_ok sel" "\<forall>opt \<in> set os. cipher_ok P D opt \<and> (\<exists>d. NewDialer (s_transport opt) (s_opts opt) = Ret d) \<and> s_name opt \<noteq> [] \<and> SelectPacket sel (s_name opt) = DirectInvoker"
    "distinct (map s_name os)"
  shows "\<exists>sel' g'. init_servers P D os (sel, g) = Ret (sel', g') \<and> sel_ok sel' \<and> (\<forall>opt \<in> set os. serves P D opt sel')
     \<and> (\<forall>n. n \<notin> s_name ` set os \<longrightarrow> same_node n sel sel')"
  using assms
proof (induction os arbitrary: sel g)
  case Nil
  then show ?case by (simp add: same_node_def)
next
  case (Cons opt os)
  obtain d where d: "NewDialer (s_transport opt) (s_opts opt) = Ret d" using Cons.prems(2) by auto
  obtain sel1 g1 where s1: "initServerOption P D opt (sel, g) = Ret (sel1, g1)" "sel_ok sel1" "serves P D opt sel1"
    "\<And>n. n \<noteq> s_name opt \<Longrightarrow> same_node n sel sel1"
    using initServerOption_ok [OF Cons.prems(1) _ d, of P D g] Cons.prems(2) by auto
  have "\<forall>opt \<in> set os. SelectPacket sel1 (s_name opt) = DirectInvoker"
    using s1(4) Cons.prems(2,3) by (auto simp: same_node_def image_iff)
  then obtain sel' g' where s2: "init_servers P D os (sel1, g1) = Ret (sel', g')" "sel_ok sel'" "\<forall>opt \<in> set os. serves P D opt sel'"
    "\<And>n. n \<notin> s_name ` set os \<Longrightarrow> same_node n sel1 sel'"
    using Cons.IH [OF s1(2), of g1] Cons.prems(2,3) by auto
  have "serves P D opt sel'" using serves_same [OF s1(3) s2(4)] Cons.prems(3) by auto
  moreover have "same_node n sel sel'" if "n \<notin> s_name ` set (opt # os)" for n
    using s1(4) [of n] s2(4) [of n] that by (auto simp: same_node_def)
  ultimately show ?case using s1(1) s2(1-3) by auto
qed

lemma NewDialer_transport: "\<exists>d. NewDialer (s_transport (server_of c)) (s_opts (server_of c)) = Ret d"
  by (auto simp: server_of_def transport_of_def NewDialer_def split: prod.splits)

lemma tun_listeners_ok: "\<forall>a \<in> set as. 2 \<le> length a \<Longrightarrow> tun_listeners as = Ret (map (\<lambda>a. TcpTun (a ! 0) (a ! 1)) as)"
proof (induction as)
  case (Cons a as)
  then obtain x y zs where "a = x # y # zs" by (metis Suc_le_length_iff list.set_intros(1) numeral_2_eq_2)
  with Cons show ?case by simp
qed simp

section \<open>Properties\<close>


text \<open>Which listener of the server answers which dialer of the client, with the same options.\<close>

fun answers :: "transport_server \<Rightarrow> string \<Rightarrow> Dialer \<Rightarrow> bool" where
  "answers (NewTcpServer a) addr TcpDialer = (a = addr)"
| "answers (NewWsServer a x) addr (WsDialer y) = (a = addr \<and> x = y)"
| "answers (NewQuicServer a x) addr (QuicDialer y) = (a = addr \<and> x = y)"
| "answers (NewObfsServer a x) addr (ObfsDialer y) = (a = addr \<and> x = y)"
| "answers (NewGrpcServer a x) addr (GrpcDialer y) = (a = addr \<and> x = y)"
| "answers (NewSshServer a x) addr (SshDialer y) = (a = addr \<and> x = y)"
| "answers _ addr _ = False"

lemma new_server_answers: "NewDialer (s_transport opt) (s_opts opt) = Ret d \<Longrightarrow> \<exists>srv. new_server opt = Ret srv \<and> answers srv (s_addr opt) d"
  by (auto simp: NewDialer_def new_server_def split: Options.Type.splits Options.Options.splits)


text \<open>
  A server of type SSR with an AEAD method is built without a cipher: its node wraps the connection in nothing, and
  what the protocol and the obfuscation leave readable is sent in the clear.
\<close>

theorem ssr_with_aead_sends_plaintext:
  assumes "GetCipher P (s_cipher opt) (s_password opt) = Ret (sc, Some ac)" "s_ssr opt" "client_bound P D opt sc (Some ac) g = Ret (b, g')"
  shows "\<exists>cp. b = SsrCipher cp \<and> makeStreamConn (ssr_StreamCipher cp) None c = DefaultC c"
proof -
  have "sc = None" using assms(1) by (auto simp: GetCipher_def bind_go_eq_Ret split: if_splits)
  then show ?thesis using assms(2,3)
    by (auto simp: client_bound_def NewSSRClientStreamCipher_def bind_go_eq_Ret makeStreamConn_def Let_def split: prod.splits)
qed

text \<open>A TUN client without a listener is never started, and a failing listener resets the system proxy of the user.\<close>

theorem start_needs_listener: "cl_srvGroup ss = [] \<Longrightarrow> Client_Start e f ss = (None, [])"
  by (simp add: Client_Start_def)

theorem failed_start_resets_system_proxy:
  assumes "cl_srvGroup ss \<noteq> []" "\<not> enableTun (localOpts (cl_Opts ss))" "\<not> systemProxy (localOpts (cl_Opts ss))"
  shows "Client_Start e (Some x) ss = (Some x, [RunServers, UnsetSystemProxy])"
  using assms by (simp add: Client_Start_def Let_def)

section \<open>A client and a server\<close>

definition demo_world :: "(unit, unit) world" where
  "demo_world = \<lparr>w_globals = snd sample_state, w_ProxySelector = NewSelector, w_rng = [], w_DefaultResolver = None\<rparr>"

lemma demo_cipher: "cipher_ok toy_prims D (server_of (sample_server n tr))"
  by (simp add: cipher_ok_def client_bound_def server_of_def ssr_of_def sample_server_def GetCipher_def NewAEADCipher_def
      streamCipherMap_def aeadCipherMap_def Kdf_chain(1) [OF toy_laws(1)])


definition demo_server :: serverOptions where
  "demo_server = zero_server\<lparr>s_name := ''n'', s_addr := ''127.0.0.1:8388'', s_cipher := ''none'', s_transport := Obfs, s_opts := OptObfs DefaultObfsOptions, s_udp := True\<rparr>"


end
