(* ===== verification/Enhancer.thy ===== *)
theory Enhancer
  imports Client
begin

text \<open>
  The TUN mode (enhancer/enhancer.go, enhancer/handler.go): what is done with the connections that the network stack
  of the TUN device hands over. The stack, the device and the DNS message codec are outside the repository.
\<close>

section \<open>Addresses (net/netip)\<close>

definition Unmap :: "netaddr \<Rightarrow> netaddr" where
  "Unmap a = (case a of Addr6 b z \<Rightarrow> (case to4 b of Some v \<Rightarrow> Addr4 v | None \<Rightarrow> a) | _ \<Rightarrow> a)"

definition IsLoopback :: "netaddr \<Rightarrow> bool" where
  "IsLoopback a = (case Unmap a of NoAddr \<Rightarrow> False | Addr4 b \<Rightarrow> take 1 b = [127] | Addr6 b _ \<Rightarrow> b = replicate 15 0 @ [1])"

definition IsUnspecified :: "netaddr \<Rightarrow> bool" where
  "IsUnspecified a \<longleftrightarrow> a = Addr4 (replicate 4 0) \<or> a = Addr6 (replicate 16 0) []"

section \<open>The enhancer (enhancer/enhancer.go, resolver/dns_server.go)\<close>

text \<open>\<open>DnsServer.Port\<close>.\<close>

definition dns_port :: "string \<Rightarrow> nat" where
  "dns_port addr = (let p = port_of addr in fst (parseUint 65535 (if p = [] then ''53'' else p)))"

text \<open>\<open>eh_systemDNS\<close> is the DNS server that was set up for the system, if any.\<close>

record Enhancer =
  eh_dnsAddress :: netaddr
  eh_config :: EnhancerConfig
  eh_running :: bool
  eh_systemDNS :: "netaddr option"

definition NewEnhancer :: "EnhancerConfig \<Rightarrow> Enhancer" where
  "NewEnhancer config = \<lparr>eh_dnsAddress = NoAddr, eh_config = config, eh_running = False, eh_systemDNS = None\<rparr>"

text \<open>\<open>EnableEnhancerMode\<close>: the fake IP resolver of the default resolver, nil after a failure.\<close>

definition EnableEnhancerMode :: "netaddr \<times> nat \<Rightarrow> unit go \<times> 'h fakeIPResolver option" where
  "EnableEnhancerMode cidr = (case newFakeIPResolver cidr of Ret r \<Rightarrow> (Ret (), Some r) | Err e \<Rightarrow> (Err e, None) | Panic \<Rightarrow> (Panic, None))"

text \<open>\<open>device\<close> is the outcome of creating the device, building the stack and starting it.\<close>

definition Enhancer_Start :: "unit go \<Rightarrow> (Enhancer \<times> 'h fakeIPResolver option, unit) proc" where
  "Enhancer_Start device = (\<lambda>(eh, f). if eh_running eh then (Ret (), (eh, f))
     else case Inet4Address (eh_config eh) of
       [] \<Rightarrow> (Panic, (eh, f))
     | cidr # rest \<Rightarrow> (case EnableEnhancerMode cidr of
         (Ret _, Some r) \<Rightarrow>
           (let eh1 = eh\<lparr>eh_config := (eh_config eh)\<lparr>Inet4Address := GetAllocatedTunPrefix r # rest\<rparr>\<rparr> in
            case device of
              Ret _ \<Rightarrow> (let dns = GetAllocatedDnsIP r in
                (Ret (), (eh1\<lparr>eh_dnsAddress := dns, eh_running := True,
                   eh_systemDNS := (if \<not> DisableRewrite (eh_config eh) \<and> IsValid dns then Some dns else eh_systemDNS eh)\<rparr>, Some r)))
            | Err e \<Rightarrow> (Err e, (eh1, Some r))
            | Panic \<Rightarrow> (Panic, (eh1, Some r)))
       | (Err e, f') \<Rightarrow> (Err e, (eh, f'))
       | (_, f') \<Rightarrow> (Panic, (eh, f'))))"

definition Enhancer_Close :: "error option \<Rightarrow> Enhancer \<Rightarrow> error option \<times> Enhancer" where
  "Enhancer_Close stackErr eh = (if \<not> eh_running eh then (None, eh)
     else (stackErr, eh\<lparr>eh_systemDNS := (if DisableRewrite (eh_config eh) then eh_systemDNS eh else None), eh_running := False\<rparr>))"

section \<open>The handler (enhancer/handler.go)\<close>

record ('h, 'st) tun_env =
  te_renv :: renv
  te_sel :: "'st Selector"
  te_query :: "int \<Rightarrow> 'h msg \<Rightarrow> ('h fakeIPResolver option, 'h msg) proc"
  te_unpack :: "bytes \<Rightarrow> 'h msg go"
  te_pack :: "'h msg \<Rightarrow> bytes go"

record 'h tun_state =
  ts_fake :: "'h fakeIPResolver option"
  ts_ruler :: Ruler

definition isNeedHijackDNS :: "Enhancer \<Rightarrow> netaddr \<times> nat \<Rightarrow> bool" where
  "isNeedHijackDNS eh = (\<lambda>(a, port). (IsLoopback a \<and> port = 53)
     \<or> (port = dns_port (FakeDNS (eh_config eh)) \<and> a = eh_dnsAddress eh)
     \<or> (\<exists>d \<in> set (DnsHijack (eh_config eh)). (a, port) = d \<or> (IsUnspecified (fst d) \<and> port = 53)))"

text \<open>A query of the wire: decode, ask the resolver, encode.\<close>

definition answer_query :: "('h, 'st) tun_env \<Rightarrow> int \<Rightarrow> bytes \<Rightarrow> ('h tun_state, bytes) proc" where
  "answer_query E now b s = (case te_unpack E b of
     Err e \<Rightarrow> (Err e, s)
   | Panic \<Rightarrow> (Panic, s)
   | Ret req \<Rightarrow> (case te_query E now req (ts_fake s) of (res, f) \<Rightarrow> (bind_go res (te_pack E), s\<lparr>ts_fake := f\<rparr>)))"

text \<open>The buffer has 8192 bytes, and slicing it up to a larger announced length panics.\<close>

definition hijackDNSForTCP :: "('h, 'st) tun_env \<Rightarrow> int \<Rightarrow> (conn \<times> 'h tun_state, unit) proc" where
  "hijackDNSForTCP E now = (\<lambda>(c, s). case readFull_conn 2 c of
     (Err e, c1) \<Rightarrow> (Err e, (c1, s))
   | (Panic, c1) \<Rightarrow> (Panic, (c1, s))
   | (Ret hdr, c1) \<Rightarrow> (let n = be_val hdr in
       if 8192 < n then (Panic, (c1, s))
       else (case readFull_conn n c1 of
         (Err e, c2) \<Rightarrow> (Err e, (c2, s))
       | (Panic, c2) \<Rightarrow> (Panic, (c2, s))
       | (Ret b, c2) \<Rightarrow> (case answer_query E now b s of
           (Err e, s1) \<Rightarrow> (Err e, (c2, s1))
         | (Panic, s1) \<Rightarrow> (Panic, (c2, s1))
         | (Ret d, s1) \<Rightarrow> (case write_conn (be16 (length d)) c2 of
             (Ret _, c3) \<Rightarrow> (Ret (), (snd (write_conn d c3), s1))
           | (Err e, c3) \<Rightarrow> (Err e, (c3, s1))
           | (Panic, c3) \<Rightarrow> (Panic, (c3, s1)))))))"

definition hijackDNSForUDP :: "('h, 'st) tun_env \<Rightarrow> int \<Rightarrow> (pconn \<times> 'h tun_state, unit) proc" where
  "hijackDNSForUDP E now = (\<lambda>(c, s). case read_pconn 8192 c of
     (Err e, c1) \<Rightarrow> (Err e, (c1, s))
   | (Panic, c1) \<Rightarrow> (Panic, (c1, s))
   | (Ret (b, src), c1) \<Rightarrow> (case answer_query E now b s of
       (Err e, s1) \<Rightarrow> (Err e, (c1, s1))
     | (Panic, s1) \<Rightarrow> (Panic, (c1, s1))
     | (Ret d, s1) \<Rightarrow> (Ret (), (snd (write_pconn d src c1), s1))))"

text \<open>
  What happens to a connection: its DNS queries are answered, it is dropped without an error, or it is relayed to
  an address. The deferred recovery is not part of these functions: \<open>Panic\<close> is what reaches it.
\<close>

datatype 'r tun_outcome = HijackDNS | Ignored | RelayTo "'r invoker" string

definition tun_route :: "('h, 'st) tun_env \<Rightarrow> ('st Selector \<Rightarrow> string \<Rightarrow> 'r invoker) \<Rightarrow> (string \<Rightarrow> string) \<Rightarrow> string \<Rightarrow> ('h tun_state, 'r tun_outcome) proc" where
  "tun_route E select addr remote s = (case Ruler_Match (te_renv E) (ts_ruler s) remote of
     (Ret True, r, host) \<Rightarrow> (case Ruler_Select r of
         Ret proxy \<Rightarrow> (Ret (RelayTo (select (te_sel E) proxy) (addr host)), s\<lparr>ts_ruler := r\<rparr>)
       | Err e \<Rightarrow> (Err e, s\<lparr>ts_ruler := r\<rparr>)
       | Panic \<Rightarrow> (Panic, s\<lparr>ts_ruler := r\<rparr>))
   | (Ret False, r, _) \<Rightarrow> (Err ErrRuleMatchDropped, s\<lparr>ts_ruler := r\<rparr>)
   | (Err e, r, _) \<Rightarrow> (Err e, s\<lparr>ts_ruler := r\<rparr>)
   | (Panic, r, _) \<Rightarrow> (Panic, s\<lparr>ts_ruler := r\<rparr>))"

definition HandleTCPConnection :: "('h, 'st) tun_env \<Rightarrow> Enhancer \<Rightarrow> int \<Rightarrow> netaddr \<times> nat \<Rightarrow> ('h tun_state, 'st ProxyTCPRelayer tun_outcome) proc" where
  "HandleTCPConnection E eh now dst s = (if isNeedHijackDNS eh dst then (Ret HijackDNS, s)
     else case ts_fake s of
       None \<Rightarrow> (Panic, s)
     | Some f \<Rightarrow> let route = tun_route E Select (\<lambda>host. joinHostPort host (itoa_nat (snd dst))) in
       (case IsFakeIP f (fst dst) of
         Ret True \<Rightarrow> (case FindByIP now (fst dst) f of
             (Ret rec, f') \<Rightarrow> route (Domain rec) (s\<lparr>ts_fake := Some f'\<rparr>)
           | (Err e, f') \<Rightarrow> (Err e, s\<lparr>ts_fake := Some f'\<rparr>)
           | (Panic, f') \<Rightarrow> (Panic, s\<lparr>ts_fake := Some f'\<rparr>))
       | Ret False \<Rightarrow> route (netaddr_string (fst dst)) s
       | Err e \<Rightarrow> (Err e, s)
       | Panic \<Rightarrow> (Panic, s)))"

definition HandleUDPConnection :: "('h, 'st) tun_env \<Rightarrow> Enhancer \<Rightarrow> netaddr \<times> nat \<Rightarrow> ('h tun_state, 'st ProxyUDPRelayer tun_outcome) proc" where
  "HandleUDPConnection E eh dst s = (if isNeedHijackDNS eh dst then (Ret HijackDNS, s)
     else case ts_fake s of
       None \<Rightarrow> (Panic, s)
     | Some f \<Rightarrow> (case IsFakeIP f (fst dst) of
         Ret True \<Rightarrow> (Ret Ignored, s)
       | Ret False \<Rightarrow> tun_route E SelectPacket (\<lambda>_. joinHostPort (netaddr_string (fst dst)) (itoa_nat (snd dst))) (netaddr_string (fst dst)) s
       | Err e \<Rightarrow> (Err e, s)
       | Panic \<Rightarrow> (Panic, s)))"

section \<open>Queries and connections\<close>

text \<open>The frame of a query in any segmentation: the answer is written with its length in front.\<close>

lemma hijack_tcp_answer:
  assumes "concat (inp c) = be16 (length wire) @ wire" "length wire \<le> 8192" "\<not> wfail c" "answer_query E now wire s = (Ret d, s1)"
  shows "\<exists>c'. hijackDNSForTCP E now (c, s) = (Ret (), (c', s1)) \<and> out c' = out c @ be16 (length d) @ d"
proof -
  obtain r1 where r1: "readFull_conn 2 c = (Ret (be16 (length wire)), c\<lparr>inp := r1\<rparr>)" "concat r1 = wire"
    using readFull_conn_enough [of 2 c] assms(1) by (auto simp: be16_def)
  obtain r2 where r2: "readFull_conn (length wire) (c\<lparr>inp := r1\<rparr>) = (Ret wire, c\<lparr>inp := r2\<rparr>)"
    using readFull_conn_enough [of "length wire" "c\<lparr>inp := r1\<rparr>"] r1(2) by auto
  show ?thesis using r1(1) r2 assms(2-4) by (simp add: hijackDNSForTCP_def Let_def)
qed

text \<open>A query that announces more than the buffer holds panics.\<close>

theorem long_query_panics:
  assumes "concat (inp c) = be16 n @ rest" "8192 < n" "n < 65536"
  shows "\<exists>c'. hijackDNSForTCP E now (c, s) = (Panic, (c', s))"
proof -
  obtain r1 where "readFull_conn 2 c = (Ret (be16 n), c\<lparr>inp := r1\<rparr>)"
    using readFull_conn_enough [of 2 c] assms(1) by (auto simp: be16_def)
  then show ?thesis using assms(2,3) by (simp add: hijackDNSForTCP_def Let_def)
qed

text \<open>An address query for a host that is neither in the hosts file nor in the filter goes to the fake IP resolver.\<close>

lemma query_goes_to_fake:
  assumes "Question req = q # qs" "qclass q = 1" "qtype q = 1" "hosts_LookupIP hosts (TrimDomain (qname q)) = NoAddr" "TrimDomain (qname q) \<notin> set flt"
  shows "Resolver_Query L now hosts flt withMsg req (Some f) = (case fake_query L now req f of (res, f') \<Rightarrow> (res, Some f'))"
  using assms by (simp add: Resolver_Query_def lookupHostsFile_msg_def matchDomainFilter_def req_name_def Let_def)

text \<open>A connection to the address of a live record is routed by the host of the record.\<close>

lemma fake_connection:
  assumes "fake_inv R f" "ip \<in> slots (pool f)" "FindByIP now ip f = (Ret rec, f')" "ts_fake s = Some f" "\<not> isNeedHijackDNS eh (ip, port)"
  shows "HandleTCPConnection E eh now (ip, port) s
     = tun_route E Select (\<lambda>host. joinHostPort host (itoa_nat port)) (Domain rec) (s\<lparr>ts_fake := Some f'\<rparr>)"
  using assms IsFakeIP_slot [OF assms(1,2)] by (simp add: HandleTCPConnection_def Let_def)

section \<open>Properties\<close>


text \<open>Packets never go to a fake address, and an IPv6 destination panics in the conversion to IPv4.\<close>

theorem udp_to_fake_ip_ignored:
  assumes "ts_fake s = Some f" "fake_inv R f" "ip \<in> slots (pool f)" "\<not> isNeedHijackDNS eh (ip, port)"
  shows "HandleUDPConnection E eh (ip, port) s = (Ret Ignored, s)"
  using assms IsFakeIP_slot [OF assms(2,3)] by (simp add: HandleUDPConnection_def)

theorem tun_ipv6_panics:
  assumes "ts_fake s = Some f" "\<not> isNeedHijackDNS eh (Addr6 a z, port)" "to4 a = None"
  shows "HandleTCPConnection E eh now (Addr6 a z, port) s = (Panic, s)" "HandleUDPConnection E eh (Addr6 a z, port) s = (Panic, s)"
  using assms by (simp_all add: HandleTCPConnection_def HandleUDPConnection_def IsFakeIP_def Ip_Pool.Contains_def index_def ipToInt_def as4_def Let_def)

section \<open>A connection\<close>

definition demo_env :: "(unit, unit) tun_env" where
  "demo_env = \<lparr>te_renv = no_geo, te_sel = NewSelector, te_query = (\<lambda>now. Resolver_Query toy_dns now (\<lambda>_. []) [] (\<lambda>_. Err ErrDial)),
     te_unpack = (\<lambda>_. Ret (toy_req ''a.b.'')), te_pack = (\<lambda>_. Ret [7])\<rparr>"

definition demo_eh :: Enhancer where
  "demo_eh = NewEnhancer (enhancerConfig (localOpts defaultSSLocalOpts))"

lemma demo_no_hijack: "\<not> isNeedHijackDNS demo_eh (ip, 80)"
proof -
  have i: "itoa_nat 53 = ''53''" by code_simp
  have "port_of [] = []" by (simp add: port_of_def splitHostPort_def last_index_chr_def)
  moreover have "fst (parseUint 65535 ''53'') = 53" unfolding i [symmetric] by (simp add: parseUint_def parse_digits_itoa)
  ultimately have "dns_port [] = 53" by (simp add: dns_port_def)
  then show ?thesis by (simp add: isNeedHijackDNS_def demo_eh_def NewEnhancer_def defaultSSLocalOpts_def zero_local_def)
qed


end
