(* ===== verification/Listeners.thy ===== *)
theory Listeners
  imports Transport
begin

text \<open>
  The listeners of client and server (package server): how a group of servers starts and stops, when a server leaves
  its accept loop, and whom the SSH and WebSocket servers admit. Sockets and the libraries of the transports are arguments.
\<close>

section \<open>Kinds of servers (server/server.go)\<close>

datatype ServerType = SrvTcp | SrvSocks | SrvHttp | SrvSimpleTcpTun | SrvWs | SrvObfs | SrvQuic | SrvMixed | SrvGrpc | SrvSsh

fun ServerType_String :: "ServerType \<Rightarrow> string" where
  "ServerType_String SrvTcp = ''tcp''"
| "ServerType_String SrvSocks = ''socks''"
| "ServerType_String SrvHttp = ''http''"
| "ServerType_String SrvSimpleTcpTun = ''simple-tcp-tun''"
| "ServerType_String SrvWs = ''ws''"
| "ServerType_String SrvObfs = ''obfs''"
| "ServerType_String SrvQuic = ''quic''"
| "ServerType_String SrvGrpc = ''grpc''"
| "ServerType_String SrvSsh = ''ssh''"
| "ServerType_String SrvMixed = ''mixed-socks-http''"

section \<open>A TCP server (server/tcp_server.go)\<close>

text \<open>
  The goroutine of \<open>Start\<close> and a caller of \<open>Close\<close>. \<open>Close\<close> first clears the flag and then closes the listener; between
  the two the loop may still accept. \<open>tv_served\<close> are the connections that were handed to a handler.
\<close>

datatype tcp_phase = Idle | Listening | Accepting | Done "error option"

record 'c tcp_server =
  tv_phase :: tcp_phase
  tv_running :: bool
  tv_open :: bool
  tv_closing :: bool
  tv_served :: "'c list"

definition NewTcpServer_state :: "'c tcp_server" where
  "NewTcpServer_state = \<lparr>tv_phase = Idle, tv_running = False, tv_open = False, tv_closing = False, tv_served = []\<rparr>"

inductive tcp_step :: "'c tcp_server \<Rightarrow> 'c tcp_server \<Rightarrow> bool" where
  listen_fails: "tv_phase s = Idle \<Longrightarrow> tcp_step s (s\<lparr>tv_phase := Done (Some e)\<rparr>)"
| listens: "tv_phase s = Idle \<Longrightarrow> tcp_step s (s\<lparr>tv_phase := Listening, tv_open := True\<rparr>)"
| runs: "tv_phase s = Listening \<Longrightarrow> tcp_step s (s\<lparr>tv_phase := Accepting, tv_running := True\<rparr>)"
| accepts: "tv_phase s = Accepting \<Longrightarrow> tv_open s \<Longrightarrow> tcp_step s (s\<lparr>tv_served := tv_served s @ [c]\<rparr>)"
| accept_fails: "tv_phase s = Accepting \<Longrightarrow> tcp_step s (if tv_running s then s else s\<lparr>tv_phase := Done None\<rparr>)"
| close_flag: "tv_running s \<Longrightarrow> tcp_step s (s\<lparr>tv_running := False, tv_closing := True\<rparr>)"
| close_listener: "tv_closing s \<Longrightarrow> tcp_step s (s\<lparr>tv_open := False, tv_closing := False\<rparr>)"

definition tcp_inv :: "'c tcp_server \<Rightarrow> bool" where
  "tcp_inv s \<longleftrightarrow> (case tv_phase s of
     Idle \<Rightarrow> \<not> tv_running s \<and> \<not> tv_open s \<and> \<not> tv_closing s \<and> tv_served s = []
   | Listening \<Rightarrow> \<not> tv_running s \<and> tv_open s \<and> \<not> tv_closing s \<and> tv_served s = []
   | Accepting \<Rightarrow> (tv_running s \<longrightarrow> tv_open s \<and> \<not> tv_closing s) \<and> (\<not> tv_running s \<longrightarrow> tv_open s = tv_closing s)
   | Done None \<Rightarrow> \<not> tv_running s \<and> tv_open s = tv_closing s
   | Done (Some e) \<Rightarrow> \<not> tv_running s \<and> \<not> tv_open s \<and> \<not> tv_closing s \<and> tv_served s = [])"

lemma tcp_inv_step: "tcp_step s s' \<Longrightarrow> tcp_inv s \<Longrightarrow> tcp_inv s'"
  by (induction rule: tcp_step.induct) (auto simp: tcp_inv_def split: tcp_phase.splits option.splits)

lemma tcp_inv_run: "tcp_step\<^sup>*\<^sup>* NewTcpServer_state s \<Longrightarrow> tcp_inv s"
  by (induction rule: rtranclp_induct) (auto simp: tcp_inv_step, simp add: tcp_inv_def NewTcpServer_state_def)

text \<open>
  The accept loop is left only after \<open>Close\<close>, whatever errors accepting has; once \<open>Close\<close> has returned nothing
  more is accepted and the loop can end; and a start that failed leaves no listener behind.
\<close>

theorem tcp_server_lifecycle:
  assumes "tcp_step\<^sup>*\<^sup>* NewTcpServer_state s"
  shows "tv_phase s = Done None \<Longrightarrow> \<not> tv_running s" "tv_phase s = Done (Some e) \<Longrightarrow> \<not> tv_open s"
    "tv_phase s = Accepting \<Longrightarrow> \<not> tv_running s \<Longrightarrow> \<not> tv_closing s \<Longrightarrow> \<not> tv_open s \<and> tcp_step s (s\<lparr>tv_phase := Done None\<rparr>)"
  using tcp_inv_run [OF assms] accept_fails [of s] by (auto simp: tcp_inv_def split: tcp_phase.splits)

section \<open>A group of servers (server/server_group.go, server/server.go)\<close>

text \<open>
  \<open>ServerGroup.Start\<close> starts every server in an \<open>errgroup\<close>, whose first error cancels the context with that cause;
  \<open>closeWithContextDoneErr\<close> then closes each server that runs, also one that starts to run afterwards. \<open>user\<close> says
  whether the servers are also closed from outside, and \<open>brk\<close> whether one may fail while it serves, as those over the
  WebSocket and gRPC libraries can.
\<close>

datatype srv_phase = Starting | Running | Stopped | Failed error

record srv_group =
  sg_servers :: "srv_phase list"
  sg_cause :: "error option"

definition group_start :: "nat \<Rightarrow> srv_group" where
  "group_start n = \<lparr>sg_servers = replicate n Starting, sg_cause = None\<rparr>"

inductive group_step :: "bool \<Rightarrow> bool \<Rightarrow> srv_group \<Rightarrow> srv_group \<Rightarrow> bool" for user brk where
  srv_runs: "i < length (sg_servers g) \<Longrightarrow> sg_servers g ! i = Starting \<Longrightarrow> group_step user brk g (g\<lparr>sg_servers := (sg_servers g)[i := Running]\<rparr>)"
| srv_fails: "i < length (sg_servers g) \<Longrightarrow> sg_servers g ! i = Starting \<Longrightarrow>
    group_step user brk g (g\<lparr>sg_servers := (sg_servers g)[i := Failed e], sg_cause := (if sg_cause g = None then Some e else sg_cause g)\<rparr>)"
| srv_breaks: "i < length (sg_servers g) \<Longrightarrow> sg_servers g ! i = Running \<Longrightarrow> brk \<Longrightarrow>
    group_step user brk g (g\<lparr>sg_servers := (sg_servers g)[i := Failed e], sg_cause := (if sg_cause g = None then Some e else sg_cause g)\<rparr>)"
| srv_cancelled: "i < length (sg_servers g) \<Longrightarrow> sg_servers g ! i = Running \<Longrightarrow> sg_cause g \<noteq> None \<Longrightarrow>
    group_step user brk g (g\<lparr>sg_servers := (sg_servers g)[i := Stopped]\<rparr>)"
| srv_closed: "i < length (sg_servers g) \<Longrightarrow> sg_servers g ! i = Running \<Longrightarrow> user \<Longrightarrow>
    group_step user brk g (g\<lparr>sg_servers := (sg_servers g)[i := Stopped]\<rparr>)"

fun srv_done :: "srv_phase \<Rightarrow> bool" where
  "srv_done Stopped = True"
| "srv_done (Failed e) = True"
| "srv_done _ = False"

text \<open>\<open>errg.Wait\<close>: the first error, when every server has returned.\<close>

definition group_wait :: "srv_group \<Rightarrow> error option option" where
  "group_wait g = (if list_all srv_done (sg_servers g) then Some (sg_cause g) else None)"

text \<open>\<open>ServerGroup.Close\<close> closes all servers and returns the result of the last one.\<close>

definition group_Close :: "error option list \<Rightarrow> error option" where
  "group_Close results = (if results = [] then None else last results)"

fun srv_left :: "srv_phase \<Rightarrow> nat" where
  "srv_left Starting = 2"
| "srv_left Running = 1"
| "srv_left _ = 0"

definition group_inv :: "nat \<Rightarrow> nat \<Rightarrow> srv_group \<Rightarrow> bool" where
  "group_inv n k g \<longleftrightarrow> length (sg_servers g) = n \<and> k + sum_list (map srv_left (sg_servers g)) \<le> 2 * n
     \<and> (case sg_cause g of None \<Rightarrow> \<forall>e. Failed e \<notin> set (sg_servers g) | Some e \<Rightarrow> Failed e \<in> set (sg_servers g))"

lemma left_update:
  assumes "i < length ps" "srv_left q < srv_left (ps ! i)"
  shows "Suc (sum_list (map srv_left (ps[i := q]))) \<le> sum_list (map srv_left ps)"
proof -
  have u: "ps = take i ps @ ps ! i # drop (Suc i) ps" "ps[i := q] = take i ps @ q # drop (Suc i) ps"
    using assms(1) by (simp_all add: id_take_nth_drop upd_conv_take_nth_drop)
  show ?thesis using assms(2) by (subst (2) u(1)) (simp add: u(2))
qed

lemma failed_stays: "Failed e \<in> set ps \<Longrightarrow> \<not> srv_done (ps ! i) \<Longrightarrow> Failed e \<in> set (ps[i := q])"
  by (metis in_set_conv_nth length_list_update nth_list_update_neq srv_done.simps(2))

lemma group_inv_step:
  assumes "group_step user brk g g'" "group_inv n k g"
  shows "group_inv n (Suc k) g'"
  using assms
proof (induction rule: group_step.induct)
  case (srv_runs i g)
  then show ?case using left_update [of i "sg_servers g" Running] failed_stays [of _ "sg_servers g" i Running]
    by (auto simp: group_inv_def split: option.splits dest!: set_update_subset_insert [THEN subsetD])
next
  case (srv_fails i g e)
  then show ?case using left_update [of i "sg_servers g" "Failed e"] failed_stays [of _ "sg_servers g" i "Failed e"]
    by (auto simp: group_inv_def set_update_memI split: option.splits)
next
  case (srv_breaks i g e)
  then show ?case using left_update [of i "sg_servers g" "Failed e"] failed_stays [of _ "sg_servers g" i "Failed e"]
    by (auto simp: group_inv_def set_update_memI split: option.splits)
next
  case (srv_cancelled i g)
  then show ?case using left_update [of i "sg_servers g" Stopped] failed_stays [of _ "sg_servers g" i Stopped]
    by (auto simp: group_inv_def split: option.splits)
next
  case (srv_closed i g)
  then show ?case using left_update [of i "sg_servers g" Stopped] failed_stays [of _ "sg_servers g" i Stopped]
    by (auto simp: group_inv_def split: option.splits dest!: set_update_subset_insert [THEN subsetD])
qed

lemma group_inv_run: "(group_step user brk ^^ k) (group_start n) g \<Longrightarrow> group_inv n k g"
proof (induction k arbitrary: g)
  case 0
  then show ?case by (auto simp: group_inv_def group_start_def sum_list_replicate)
next
  case (Suc k)
  then obtain g1 where "(group_step user brk ^^ k) (group_start n) g1" "group_step user brk g1 g" by auto
  then show ?case using Suc.IH group_inv_step by blast
qed

text \<open>A server stops only for a cause or from outside.\<close>

lemma no_stop_step:
  "group_step user brk g g' \<Longrightarrow> \<not> user \<Longrightarrow> sg_cause g' = None \<Longrightarrow> (sg_cause g = None \<Longrightarrow> Stopped \<notin> set (sg_servers g)) \<Longrightarrow> Stopped \<notin> set (sg_servers g')"
  by (induction rule: group_step.induct) (auto split: if_splits dest!: set_update_subset_insert [THEN subsetD])

lemma no_stop_without_cause: "(group_step user brk ^^ k) (group_start n) g \<Longrightarrow> \<not> user \<Longrightarrow> sg_cause g = None \<Longrightarrow> Stopped \<notin> set (sg_servers g)"
proof (induction k arbitrary: g)
  case 0
  then show ?case by (auto simp: group_start_def)
next
  case (Suc k)
  then obtain g1 where g1: "(group_step user brk ^^ k) (group_start n) g1" "group_step user brk g1 g" by auto
  show ?case using no_stop_step [OF g1(2) Suc.prems(2,3)] Suc.IH [OF g1(1) Suc.prems(2)] by blast
qed

text \<open>When nothing can happen any more, no server is starting, and one runs only without a cause and without a close.\<close>

lemma group_final:
  assumes "\<nexists>g'. group_step user brk g g'" "p \<in> set (sg_servers g)"
  shows "p \<noteq> Starting \<and> (p = Running \<longrightarrow> sg_cause g = None \<and> \<not> user \<and> \<not> brk)"
proof -
  obtain i where i: "i < length (sg_servers g)" "p = sg_servers g ! i" using assms(2) by (metis in_set_conv_nth)
  show ?thesis using assms(1) i srv_runs [OF i(1)] srv_cancelled [OF i(1)] srv_closed [OF i(1)] srv_breaks [OF i(1)] by metis
qed


lemma all_done_final: "list_all srv_done (sg_servers g) \<Longrightarrow> \<not> group_step user brk g g'"
  by (auto simp: list_all_length elim!: group_step.cases)


section \<open>The SSH server (server/ssh_server.go)\<close>

text \<open>
  \<open>getPublicKeysFromAuthorizedKeyFile\<close>: \<open>parse\<close> is \<open>ssh.ParseAuthorizedKey\<close>, a key and what follows it. After an
  error the loop goes on with the same data.
\<close>

partial_function (option) authorized_keys :: "(bytes \<Rightarrow> (bytes \<times> bytes) option) \<Rightarrow> bytes \<Rightarrow> bytes list \<Rightarrow> bytes list option" where
  "authorized_keys parse data keys = (if data = [] then Some keys
     else case parse data of
       Some (key, rest) \<Rightarrow> authorized_keys parse rest (keys @ [key])
     | None \<Rightarrow> authorized_keys parse data keys)"

text \<open>Files and the parsing of keys.\<close>

record ssh_lib =
  sl_ReadFile :: "string \<Rightarrow> bytes go"
  sl_ParsePrivateKey :: "bytes \<Rightarrow> unit go"
  sl_ParseAuthorizedKey :: "bytes \<Rightarrow> (bytes \<times> bytes) option"

datatype ssh_config = PasswordCallback | PublicKeyCallback "bytes list" | NoClientAuth

text \<open>\<open>newSshConfig\<close>; \<open>None\<close> when reading the authorized keys never ends.\<close>

definition newSshConfig :: "ssh_lib \<Rightarrow> SshOptions \<Rightarrow> ssh_config go option" where
  "newSshConfig l so = (case bind_go (sl_ReadFile l (ssh_PrivateKey so)) (sl_ParsePrivateKey l) of
     Err e \<Rightarrow> Some (Err e)
   | Panic \<Rightarrow> Some Panic
   | Ret _ \<Rightarrow> if ssh_Password so \<noteq> [] then Some (Ret PasswordCallback)
       else if ssh_AuthorizedKey so \<noteq> [] then (case sl_ReadFile l (ssh_AuthorizedKey so) of
           Ret data \<Rightarrow> map_option (\<lambda>ks. Ret (PublicKeyCallback ks)) (authorized_keys (sl_ParseAuthorizedKey l) data [])
         | Err e \<Rightarrow> Some (Err e)
         | Panic \<Rightarrow> Some Panic)
       else Some (Ret NoClientAuth))"

text \<open>What a client offers, and whether the callback of its method admits it. A method without a callback is refused by the library.\<close>

datatype ssh_offer = OfferPassword string | OfferKey bytes | OfferNone

fun ssh_admits :: "SshOptions \<Rightarrow> ssh_config \<Rightarrow> string \<Rightarrow> ssh_offer \<Rightarrow> bool" where
  "ssh_admits so PasswordCallback user (OfferPassword pw) = (ssh_User so = user \<and> ssh_Password so = pw)"
| "ssh_admits so (PublicKeyCallback keys) user (OfferKey key) = (ssh_User so = user \<and> key \<in> set keys)"
| "ssh_admits so NoClientAuth user offer = True"
| "ssh_admits so _ user offer = False"

definition handlePerChannel :: "string \<Rightarrow> bool" where
  "handlePerChannel chType \<longleftrightarrow> chType = ''direct-tcpip''"

text \<open>A file that is a sequence of keys, each of which the parser takes off its front.\<close>

inductive key_file :: "(bytes \<Rightarrow> (bytes \<times> bytes) option) \<Rightarrow> bytes \<Rightarrow> bytes list \<Rightarrow> bool" for parse where
  kf_nil: "key_file parse [] []"
| kf_key: "data \<noteq> [] \<Longrightarrow> parse data = Some (key, rest) \<Longrightarrow> key_file parse rest keys \<Longrightarrow> key_file parse data (key # keys)"

lemma authorized_keys_file: "key_file parse data keys \<Longrightarrow> authorized_keys parse data acc = Some (acc @ keys)"
  by (induction arbitrary: acc rule: key_file.induct) (simp_all add: authorized_keys.simps)

text \<open>The result of the loop is that of such a file; in particular it never ends when the rest of the file has no key.\<close>

lemma authorized_keys_result:
  assumes "authorized_keys parse data acc = Some ks"
  shows "\<exists>keys. key_file parse data keys \<and> ks = acc @ keys"
proof (rule authorized_keys.raw_induct [where P = "\<lambda>parse data acc ks. \<exists>keys. key_file parse data keys \<and> ks = acc @ keys", OF _ assms])
  fix f and parse :: "bytes \<Rightarrow> (bytes \<times> bytes) option" and data acc ks
  assume IH: "\<And>parse data acc ks. f parse data acc = Some ks \<Longrightarrow> \<exists>keys. key_file parse data keys \<and> ks = acc @ keys"
    and eq: "(if data = [] then Some acc else case parse data of Some (key, rest) \<Rightarrow> f parse rest (acc @ [key]) | None \<Rightarrow> f parse data acc) = Some ks"
  show "\<exists>keys. key_file parse data keys \<and> ks = acc @ keys"
  proof (cases "data = [] \<or> parse data = None")
    case True
    then show ?thesis using eq IH [of parse data acc ks] kf_nil by (auto split: if_splits)
  next
    case False
    then obtain key rest where k: "parse data = Some (key, rest)" by auto
    with False eq IH [of parse rest "acc @ [key]" ks] obtain keys where "key_file parse rest keys" "ks = acc @ key # keys" by auto
    then show ?thesis using kf_key [of data parse key rest keys] k False by blast
  qed
qed

theorem trailing_text_hangs_ssh_server:
  assumes "sl_ReadFile l (ssh_PrivateKey so) = Ret pk" "sl_ParsePrivateKey l pk = Ret ()" "ssh_Password so = []" "ssh_AuthorizedKey so \<noteq> []"
    and "sl_ReadFile l (ssh_AuthorizedKey so) = Ret data" "data \<noteq> []" "sl_ParseAuthorizedKey l data = None"
  shows "newSshConfig l so = None"
proof -
  have "\<not> key_file (sl_ParseAuthorizedKey l) data keys" for keys using assms(6,7) by (auto elim: key_file.cases)
  then have "authorized_keys (sl_ParseAuthorizedKey l) data [] = None" using authorized_keys_result [of "sl_ParseAuthorizedKey l" data "[]"] by (cases "authorized_keys (sl_ParseAuthorizedKey l) data []") auto
  then show ?thesis using assms(1-5) by (simp add: newSshConfig_def)
qed

text \<open>
  C22. The SSH server admits only who it is configured for: with a password, only the configured user with that password;
  else with a file of authorized keys, only the configured user with a key of the file. Building the configuration ends with all
  keys of the file when the whole file consists of keys.
\<close>

theorem ssh_server_requires_credentials:
  assumes "sl_ReadFile l (ssh_PrivateKey so) = Ret pk" "sl_ParsePrivateKey l pk = Ret ()" "ssh_Password so \<noteq> [] \<or> ssh_AuthorizedKey so \<noteq> []"
    and "ssh_Password so = [] \<longrightarrow> sl_ReadFile l (ssh_AuthorizedKey so) = Ret data \<and> key_file (sl_ParseAuthorizedKey l) data keys"
  shows "\<exists>cfg. newSshConfig l so = Some (Ret cfg) \<and> (\<forall>user offer. ssh_admits so cfg user offer \<longleftrightarrow>
     user = ssh_User so \<and> (if ssh_Password so \<noteq> [] then offer = OfferPassword (ssh_Password so) else \<exists>key \<in> set keys. offer = OfferKey key))"
proof (cases "ssh_Password so = []")
  case True
  then have "newSshConfig l so = Some (Ret (PublicKeyCallback keys))"
    using assms authorized_keys_file [of _ data keys "[]"] by (simp add: newSshConfig_def)
  moreover have "ssh_admits so (PublicKeyCallback keys) user offer \<longleftrightarrow> user = ssh_User so \<and> (\<exists>key \<in> set keys. offer = OfferKey key)" for user offer
    by (cases offer) auto
  ultimately show ?thesis using True by auto
next
  case False
  then have "newSshConfig l so = Some (Ret PasswordCallback)" using assms(1,2) by (simp add: newSshConfig_def)
  moreover have "ssh_admits so PasswordCallback user offer \<longleftrightarrow> user = ssh_User so \<and> offer = OfferPassword (ssh_Password so)" for user offer
    by (cases offer) auto
  ultimately show ?thesis using False by auto
qed

definition demo_ssh :: ssh_lib where
  "demo_ssh = \<lparr>sl_ReadFile = (\<lambda>f. Ret (if f = ''key'' then [1] else [7, 8])), sl_ParsePrivateKey = (\<lambda>_. Ret ()),
     sl_ParseAuthorizedKey = (\<lambda>d. case d of k # r \<Rightarrow> Some ([k], r) | [] \<Rightarrow> None)\<rparr>"

theorem ssh_server_requires_credentials_witness:
  "\<exists>cfg. newSshConfig demo_ssh (DefaultSshOptions\<lparr>ssh_User := ''u'', ssh_PrivateKey := ''key'', ssh_AuthorizedKey := ''auth''\<rparr>) = Some (Ret cfg)
     \<and> ssh_admits (DefaultSshOptions\<lparr>ssh_User := ''u''\<rparr>) cfg ''u'' (OfferKey [8]) \<and> \<not> ssh_admits (DefaultSshOptions\<lparr>ssh_User := ''u''\<rparr>) cfg ''u'' OfferNone"
proof -
  let ?so = "DefaultSshOptions\<lparr>ssh_User := ''u'', ssh_PrivateKey := ''key'', ssh_AuthorizedKey := ''auth''\<rparr>"
  have k: "key_file (sl_ParseAuthorizedKey demo_ssh) [7, 8] [[7], [8]]"
    by (rule kf_key [where rest = "[8]"], simp, simp add: demo_ssh_def, rule kf_key [where rest = "[]"], simp, simp add: demo_ssh_def, rule kf_nil)
  obtain cfg where c: "newSshConfig demo_ssh ?so = Some (Ret cfg)" "\<And>user offer. ssh_admits ?so cfg user offer \<longleftrightarrow> user = ''u'' \<and> (\<exists>key \<in> {[7], [8]}. offer = OfferKey key)"
    using ssh_server_requires_credentials [of demo_ssh ?so "[1]" "[7, 8]" "[[7], [8]]"] k by (auto simp: demo_ssh_def DefaultSshOptions_def)
  have "cfg = PublicKeyCallback [[7], [8]]" using c(1) authorized_keys_file [OF k, of "[]"] by (simp add: newSshConfig_def demo_ssh_def DefaultSshOptions_def)
  then show ?thesis using c(1) by (auto simp: DefaultSshOptions_def)
qed

section \<open>The WebSocket server (server/ws_server.go)\<close>

text \<open>\<open>wsUpgrade\<close>: the host of the request, or else that of its URL, has to be the configured one.\<close>

definition wsUpgrade :: "WsOptions \<Rightarrow> string \<Rightarrow> string \<Rightarrow> bool" where
  "wsUpgrade wo host urlHost = (let h = (if host = [] then urlHost else host) in \<not> (ws_Host wo \<noteq> [] \<and> h \<noteq> ws_Host wo))"

text \<open>The request of the dialer passes the server with the same options; another host is refused.\<close>

theorem ws_dialer_passes_server:
  assumes "GetClientTlsConfig k (ws_tls wo) = Ret t"
  shows "wsDialer_Dial k wo (\<lambda>_ r. if wsUpgrade wo' (the (map_of (wsr_header r) ''Host'')) [] then Ret () else Err ErrBadRequest) addr
     = (if ws_Host wo' = [] \<or> ws_Host wo = ws_Host wo' then Ret () else Err ErrBadRequest)"
  using assms by (auto simp: wsDialer_Dial_def wsUpgrade_def Let_def)

end
