(* ===== verification/Spec2Isabelle.thy ===== *)
theory Spec2Isabelle
  imports Address Ord_Map Stream_Conn Fake_IP Config Udp_Relay Ssr_Obfs Dns_Resolver Obfs_Conn Http_Proxy Enhancer Listeners
begin

text \<open>
  mini-ss, a Shadowsocks and ShadowsocksR proxy in Go.

  \<^bold>\<open>The program.\<close> A client accepts SOCKS5, HTTP, mixed and plain TCP tunnel connections. For each of them it
  finds the target, asks the rules (\<open>rule\<close>) whether the target is admitted and which proxy node serves it,
  and hands the connection to the relay of that node (\<open>selector\<close>, \<open>relay\<close>). The relay dials the server of the
  node through a transport, wraps the connection into the configured cipher (\<open>cipher\<close>, \<open>ss\<close>, \<open>ssr\<close>), sends the
  target as a SOCKS5 address (\<open>address\<close>) and copies in both directions. The server unwraps, reads the address,
  dials the target and copies. UDP goes the same way, datagram by datagram. In TUN mode a local DNS server
  answers with addresses of a private prefix (\<open>resolver\<close>), which lead back to the host names when a
  connection to them arrives. All of this is set up from a configuration file (\<open>config\<close>, \<open>ss/option.go\<close>).

  \<^bold>\<open>How Go is modelled.\<close> \<open>Go_Prelude\<close> has the results of calls, \<open>'a go\<close>: a value, an error, or a run-time
  panic (a slice or an index out of range, a nil dereference). Code that changes a state is a \<open>proc\<close>, a function
  from the state to a result and the new state. \<open>Go_Wire\<close> has bytes and fixed width integers, readers that
  deliver data in arbitrary chunks, connections and packet connections; \<open>Go_Strings\<close> and \<open>Go_Net\<close> have the parts
  of \<open>strings\<close>, \<open>strconv\<close>, \<open>net\<close> and \<open>net/netip\<close> that are used. Cryptographic primitives are the fields of the
  records \<open>prims\<close> and \<open>digests\<close>; their documented behaviour (that \<open>Open\<close> inverts \<open>Seal\<close>, output lengths, a key
  stream that does not depend on how it is cut) is a hypothesis of the theorems that rely on it, and toy
  primitives show that it can hold. \<open>Interfaces\<close> has the contracts between components as locales; the theory of
  each provider interprets them.

  \<^bold>\<open>Theories and sources.\<close>
  \<^item> \<open>Address\<close>: \<open>address/address.go\<close>. Parsing is exactly the wire grammar, from buffers and from streams in any
    segmentation, and round-trips with the text form.
  \<^item> \<open>Domain_Trie\<close>, \<open>Ord_Map\<close>: \<open>util/trie\<close>, \<open>util/ordmap\<close>. A search finds exactly the matching patterns; the
    ordered map refines a mathematical map.
  \<^item> \<open>Rule\<close>: \<open>rule\<close>, \<open>geoip\<close>. The first applicable rule decides, independently of earlier matches.
  \<^item> \<open>Cipher\<close>, \<open>Bufferpool\<close>, \<open>Aead_Conn\<close>, \<open>Stream_Conn\<close>: \<open>cipher\<close>, \<open>bufferpool\<close>, \<open>ss/aead\<close>, \<open>ss/stream\<close>, \<open>ss/conn.go\<close>.
    Key derivation and sizes; what is written on one end is read on the other, in any segmentation and with any
    buffers; nonces do not repeat; datagrams round-trip.
  \<^item> \<open>Lru_Cache\<close>, \<open>Ip_Pool\<close>, \<open>Fake_IP\<close>: \<open>util/cache\<close>, \<open>resolver/pool.go\<close>, \<open>resolver/fakeip.go\<close>. The cache refines a
    list of keys in order of use; the pool holds the host addresses of its prefix; in every run fake addresses are
    unique, accounted for and lead back to their hosts.
  \<^item> \<open>Dns_Resolver\<close>: \<open>resolver/resolver.go\<close>, \<open>resolver/dns_server.go\<close>, \<open>util/dnsutil\<close>, \<open>util/hostsutil\<close>. The exchange with
    several name servers is a step relation over all interleavings of its goroutines: it ends, and answers when one
    of them does.
  \<^item> \<open>Options\<close>, \<open>Config\<close>: \<open>ss/option.go\<close>, \<open>ss/auth.go\<close>, \<open>options/option.go\<close>, \<open>config/config.go\<close>. A configuration becomes
    exactly the options and rules it describes.
  \<^item> \<open>Socks\<close>: \<open>ss/socks.go\<close>, \<open>client/client.go\<close>. Credentials are required, and client and server interoperate.
  \<^item> \<open>Go_Http\<close>, \<open>Obfs_Conn\<close>, \<open>Http_Proxy\<close>: \<open>bufio\<close> and the request parsing of \<open>net/http\<close>, \<open>connection/obfs.go\<close>, and
    \<open>ss/http.go\<close>, \<open>ss/mixed.go\<close>, \<open>proxy/header.go\<close>. The HTTP obfuscation is transparent in both directions; the HTTP
    proxy requires its credentials and opens tunnels with the stream behind the request intact.
  \<^item> \<open>Transport\<close>: \<open>transport\<close>, \<open>util/cert/cert.go\<close>. The race of the address families is a step relation over all
    interleavings: it ends, returns a dialled connection if there is one, and leaves no other open. The connection
    pool rotates, and TLS configurations verify the peer.
  \<^item> \<open>Client\<close>: \<open>selector\<close>, \<open>ss/ss_client.go\<close>, \<open>ss/ss_server.go\<close>, \<open>ss/tcptun.go\<close>. A configuration gives a client in which
    every enabled server is selected by its name, and client and server of one setting fit together.
  \<^item> \<open>Enhancer\<close>: \<open>enhancer\<close>. In TUN mode a connection to the address that a DNS query was answered with is routed by the rules
    for the host of the query.
  \<^item> \<open>Listeners\<close>: \<open>server\<close>. Two step relations, the life of a TCP server and of a group of servers, which runs or stops as a
    whole; the authentication of the SSH server and the host check of the WebSocket server.
  \<^item> \<open>Tcp_Relay\<close>, \<open>Udp_Relay\<close>: \<open>relay\<close>, \<open>client/conn_wrapper.go\<close>. End to end delivery through client and server;
    the NAT relay, a step relation, keeps its clients apart.
  \<^item> \<open>Ssr_Base\<close>, \<open>Ssr_Auth\<close>, \<open>Ssr_Chain\<close>, \<open>Ssr_Agents\<close>, \<open>Ssr_Conn\<close>, \<open>Ssr_Obfs\<close>: \<open>ssr\<close>. The framing protocols and
    obfuscations decode what they encode, in any segmentation, and their loops end.

  \<^bold>\<open>Bounds and fuel.\<close> Loops over data are structural or have a termination proof. Where a loop reads until its
  source ends (\<open>full_loop\<close>, the copy loops) the fuel bounds the number of reads, and the theorems about delivery
  show that a fuel computed from the input is enough. The one loop that may not end, over the authorized keys of the
  SSH server, is a partial function, and both its result and when it has none are proved.

  \<^bold>\<open>Not modelled.\<close> The MITM proxy and its addons drive the HTTP, TLS and websocket implementations of other packages. The
  TUN device and its network stack, and the streams of the gRPC, QUIC, SSH and websocket libraries, are outside the
  repository; what the program does around them is modelled with their outcomes as arguments. The statistics and the
  logger only observe; the command line fills the modelled configuration; protobuf code is generated. Deadlines and
  garbage collection have no counterpart. Concurrency is modelled where a component has it: the DNS exchange, the
  dial race, the start and stop of servers, the fake IP records, the rules and the NAT relay.
\<close>

end
